(* ===== verification/Prelude.thy ===== *)
theory Prelude
  imports Main "HOL-Library.Word" "HOL-Library.AList"
begin

text \<open>
  Shared vocabulary of the development.

  \<^item> JavaScript values: a \<open>Uint8Array\<close> is a list of 8-bit words, a string is the list of its
    16-bit UTF-16 code units, and \<open>js\<close> turns an ASCII literal into one.
  \<^item> JavaScript \<open>Map\<close>: an association list in insertion order. \<open>AList.update\<close> keeps the
    position of an existing key and appends a new one, exactly as \<open>Map.prototype.set\<close> does.
  \<^item> Numerals: \<open>horner b ds\<close> reads a digit list most significant digit first; a numeral of fixed
    length determines its digits. Both base-32 and base-64 codecs rest on it.
  \<^item> Transition systems: \<open>reach\<close> and the locale \<open>inductive_invariant\<close>, whose one lemma is the
    proof rule every component's safety property uses; \<open>event_invariant\<close> is its form for a machine that is
    a function of its events.
  \<^item> \<open>ledger\<close>: numbered handles of which each is live or was released once.
  \<^item> The locale \<open>codec\<close>: the contract of an encoder and its decoder.
\<close>

section \<open>JavaScript values\<close>

type_synonym byte = "8 word"
type_synonym bytes = "8 word list"
type_synonym code_unit = "16 word"
type_synonym jsstring = "16 word list"

definition js :: "string \<Rightarrow> jsstring" where
  "js s = map (\<lambda>c. of_nat (of_char c)) s"

lemma js_Nil [simp]: "js [] = []"
  by (simp add: js_def)

lemma js_Cons [simp]: "js (c # s) = of_nat (of_char c) # js s"
  by (simp add: js_def)

section \<open>Results\<close>

text \<open>A call that may throw returns \<open>Inl\<close> with the error or \<open>Inr\<close> with the value.\<close>

definition bind_result :: "'e + 'a \<Rightarrow> ('a \<Rightarrow> 'e + 'b) \<Rightarrow> 'e + 'b" where
  "bind_result m f = (case m of Inl e \<Rightarrow> Inl e | Inr x \<Rightarrow> f x)"

lemma bind_result_simps [simp]:
  "bind_result (Inl e) f = Inl e"
  "bind_result (Inr x) f = f x"
  by (simp_all add: bind_result_def)

lemma bind_result_eq_Inr_iff: "bind_result m f = Inr y \<longleftrightarrow> (\<exists>x. m = Inr x \<and> f x = Inr y)"
  by (cases m) auto

fun map_result :: "('a \<Rightarrow> 'e + 'b) \<Rightarrow> 'a list \<Rightarrow> 'e + 'b list" where
  "map_result f [] = Inr []"
| "map_result f (x # xs) =
     bind_result (f x) (\<lambda>y. bind_result (map_result f xs) (\<lambda>ys. Inr (y # ys)))"

lemma map_result_Inr:
  assumes "\<And>x. x \<in> set xs \<Longrightarrow> f x = Inr (g x)"
  shows "map_result f xs = Inr (map g xs)"
  using assms by (induction xs) simp_all

lemma map_result_length: "map_result f xs = Inr ys \<Longrightarrow> length ys = length xs"
  by (induction xs arbitrary: ys) (auto simp: bind_result_eq_Inr_iff)

section \<open>Numerals\<close>

definition horner :: "nat \<Rightarrow> nat list \<Rightarrow> nat" where
  "horner b ds = foldl (\<lambda>acc d. acc * b + d) 0 ds"

lemma horner_Nil [simp]: "horner b [] = 0"
  by (simp add: horner_def)

lemma horner_snoc [simp]: "horner b (ds @ [d]) = horner b ds * b + d"
  by (simp add: horner_def)

lemma horner_append: "horner b (xs @ ys) = horner b xs * b ^ length ys + horner b ys"
proof (induction ys rule: rev_induct)
  case (snoc y ys)
  have "horner b (xs @ ys @ [y]) = horner b (xs @ ys) * b + y"
    by (metis append_assoc horner_snoc)
  with snoc show ?case by (simp add: algebra_simps)
qed simp

lemma horner_less:
  assumes "\<And>d. d \<in> set ds \<Longrightarrow> d < b"
  shows "horner b ds < b ^ length ds"
  using assms
proof (induction ds rule: rev_induct)
  case (snoc d ds)
  then have "horner b ds < b ^ length ds" and "d < b" by auto
  then have "horner b ds * b + d < (horner b ds + 1) * b" by simp
  also have "\<dots> \<le> b ^ length ds * b"
    using \<open>horner b ds < b ^ length ds\<close> by (intro mult_le_mono1) simp
  finally show ?case by (simp add: mult.commute)
qed simp

text \<open>Two numerals of the same length and value have the same digits.\<close>

lemma horner_inject:
  assumes "length xs = length ys" and "horner b xs = horner b ys"
    and "\<And>d. d \<in> set xs \<Longrightarrow> d < b" and "\<And>d. d \<in> set ys \<Longrightarrow> d < b"
  shows "xs = ys"
  using assms
proof (induction xs arbitrary: ys rule: rev_induct)
  case (snoc x xs)
  then obtain y ys' where ys: "ys = ys' @ [y]"
    by (cases ys rule: rev_cases) auto
  have lt: "x < b" "y < b" using snoc.prems(3,4) by (auto simp: ys)
  have eq: "horner b xs * b + x = horner b ys' * b + y"
    using snoc.prems(2) by (simp add: ys)
  have "x = y" using arg_cong [OF eq, of "\<lambda>n. n mod b"] lt by simp
  moreover have "horner b xs = horner b ys'"
    using arg_cong [OF eq, of "\<lambda>n. n div b"] lt by simp
  ultimately show ?case using snoc.IH [of ys'] snoc.prems by (auto simp: ys)
qed simp

lemma unat_byte_less: "unat (w :: byte) < 256"
proof -
  have "unat w < 2 ^ LENGTH(8)" by (rule unsigned_less)
  then show ?thesis by simp
qed

lemma map_unat_inject: "map unat (xs :: 'a::len word list) = map unat ys \<longleftrightarrow> xs = ys"
  by (rule inj_map_eq_map) (simp add: inj_on_def word_unat_eq_iff)

section \<open>Transition systems\<close>

inductive reach :: "('s \<Rightarrow> bool) \<Rightarrow> ('s \<Rightarrow> 's \<Rightarrow> bool) \<Rightarrow> 's \<Rightarrow> bool"
  for init :: "'s \<Rightarrow> bool" and step :: "'s \<Rightarrow> 's \<Rightarrow> bool" where
  reach_init: "init s \<Longrightarrow> reach init step s"
| reach_step: "reach init step s \<Longrightarrow> step s t \<Longrightarrow> reach init step t"

locale inductive_invariant =
  fixes init :: "'s \<Rightarrow> bool"
    and step :: "'s \<Rightarrow> 's \<Rightarrow> bool"
    and inv :: "'s \<Rightarrow> bool"
  assumes inv_init: "init s \<Longrightarrow> inv s"
    and inv_step: "inv s \<Longrightarrow> step s t \<Longrightarrow> inv t"
begin

lemma reach_inv: "reach init step s \<Longrightarrow> inv s"
  by (induction rule: reach.induct) (auto intro: inv_init inv_step)

end

text \<open>A machine driven by events: what every event keeps holds after any sequence of events.\<close>

locale event_invariant =
  fixes start :: "'s \<Rightarrow> bool"
    and handle :: "'e \<Rightarrow> 's \<Rightarrow> 's"
    and inv :: "'s \<Rightarrow> bool"
  assumes start_inv: "start s \<Longrightarrow> inv s"
    and handle_inv: "inv s \<Longrightarrow> inv (handle e s)"
begin

lemma fold_inv: "inv s \<Longrightarrow> inv (fold handle es s)"
  by (induction es arbitrary: s) (auto intro: handle_inv)

lemma run_inv: "start s \<Longrightarrow> inv (fold handle es s)"
  by (rule fold_inv [OF start_inv])

end

sublocale event_invariant \<subseteq> inductive_invariant start "\<lambda>s t. \<exists>e. t = handle e s" inv
  by unfold_locales (auto intro: start_inv handle_inv)

section \<open>Handles\<close>

text \<open>
  Handles numbered in the order they are made: every one is live or was released, and none was
  released twice.
\<close>

definition ledger :: "nat list \<Rightarrow> nat list \<Rightarrow> nat \<Rightarrow> bool" where
  "ledger live released made \<longleftrightarrow> distinct (released @ live) \<and> set (released @ live) = {..<made}"

lemma ledger_start [simp]: "ledger [] [] 0"
  by (simp add: ledger_def)

lemma ledger_make: "ledger live released n \<Longrightarrow> ledger (live @ [n]) released (Suc n)"
  by (auto simp: ledger_def lessThan_Suc)

lemma ledger_release: "ledger live released n \<Longrightarrow> h \<in> set live \<Longrightarrow> ledger (remove1 h live) (released @ [h]) n"
  by (auto simp: ledger_def set_remove1_eq distinct_remove1)

lemma ledger_release_all: "ledger live released n \<Longrightarrow> ledger [] (released @ live) n"
  by (simp add: ledger_def)

lemma ledger_stillborn: "ledger live released n \<Longrightarrow> ledger live (released @ [n]) (Suc n)"
  by (auto simp: ledger_def lessThan_Suc)

section \<open>Codecs\<close>

text \<open>
  An encoder that may refuse its argument and a decoder that may refuse its input. \<open>valid\<close> is the
  domain on which the encoder is specified.
\<close>

locale codec =
  fixes enc :: "'a \<Rightarrow> 'e + 'b"
    and dec :: "'b \<Rightarrow> 'f + 'a"
    and valid :: "'a \<Rightarrow> bool"
  assumes enc_total: "valid x \<Longrightarrow> \<exists>y. enc x = Inr y"
    and dec_enc: "valid x \<Longrightarrow> enc x = Inr y \<Longrightarrow> dec y = Inr x"
begin

lemma round_trip: "valid x \<Longrightarrow> bind_result (map_sum (\<lambda>_. e) id (enc x)) (\<lambda>y. map_sum (\<lambda>_. e) id (dec y)) = Inr x"
  by (cases "enc x") (auto dest: enc_total dec_enc)

lemma enc_inject: "valid x \<Longrightarrow> valid y \<Longrightarrow> enc x = enc y \<Longrightarrow> x = y"
  by (metis dec_enc enc_total sum.inject(2))

end

end
