(* ===== verification/Base64url.thy ===== *)
theory Base64url
  imports Prelude
begin

text \<open>
  The base64url codec of \<open>packages/auth/src/codec.ts\<close>, with the platform functions \<open>btoa\<close> and
  \<open>atob\<close> it calls written out from the WHATWG definition (forgiving base64: ASCII whitespace is
  removed, at most two trailing pad characters of a complete last group are removed, a remainder
  of one character or a foreign character is an error, superfluous low bits are discarded).
\<close>

section \<open>The standard alphabet\<close>

datatype codec_error =
    InvalidCharacterError  \<comment> \<open>the DOMException that btoa and atob throw\<close>
  | InvalidBase64Url       \<comment> \<open>the error of base64UrlToBytes itself\<close>

abbreviation PAD :: code_unit where "PAD \<equiv> 61"

definition b64_char :: "nat \<Rightarrow> code_unit" where
  "b64_char n =
     (if n < 26 then 65 + of_nat n
      else if n < 52 then 97 + of_nat (n - 26)
      else if n < 62 then 48 + of_nat (n - 52)
      else if n = 62 then 43 else 47)"

definition b64_index :: "code_unit \<Rightarrow> nat option" where
  "b64_index c =
     (if 65 \<le> c \<and> c \<le> 90 then Some (unat c - 65)
      else if 97 \<le> c \<and> c \<le> 122 then Some (unat c - 71)
      else if 48 \<le> c \<and> c \<le> 57 then Some (unat c + 4)
      else if c = 43 then Some 62
      else if c = 47 then Some 63
      else None)"

section \<open>btoa and atob\<close>

fun b64_groups :: "nat list \<Rightarrow> jsstring" where
  "b64_groups [] = []"
| "b64_groups [a] = [b64_char (a div 4), b64_char (a mod 4 * 16), PAD, PAD]"
| "b64_groups [a, b] =
     [b64_char (a div 4), b64_char (a mod 4 * 16 + b div 16), b64_char (b mod 16 * 4), PAD]"
| "b64_groups (a # b # c # rest) =
     b64_char (a div 4) # b64_char (a mod 4 * 16 + b div 16) #
     b64_char (b mod 16 * 4 + c div 64) # b64_char (c mod 64) # b64_groups rest"

definition btoa :: "jsstring \<Rightarrow> codec_error + jsstring" where
  "btoa binary =
     (if \<exists>u \<in> set binary. 255 < u then Inl InvalidCharacterError
      else Inr (b64_groups (map unat binary)))"

fun b64_bytes :: "nat list \<Rightarrow> nat list" where
  "b64_bytes (p # q # r # s # rest) =
     (p * 4 + q div 16) # (q mod 16 * 16 + r div 4) # (r mod 4 * 64 + s) # b64_bytes rest"
| "b64_bytes [p, q, r] = [p * 4 + q div 16, q mod 16 * 16 + r div 4]"
| "b64_bytes [p, q] = [p * 4 + q div 16]"
| "b64_bytes _ = []"

definition ascii_whitespace :: "code_unit \<Rightarrow> bool" where
  "ascii_whitespace c \<longleftrightarrow> c \<in> {9, 10, 12, 13, 32}"

definition strip_pad :: "jsstring \<Rightarrow> jsstring" where
  "strip_pad s =
     (if length s mod 4 \<noteq> 0 \<or> s = [] \<or> last s \<noteq> PAD then s
      else if last (butlast s) = PAD then butlast (butlast s) else butlast s)"

definition atob :: "jsstring \<Rightarrow> codec_error + jsstring" where
  "atob input =
     (let s = strip_pad (filter (\<lambda>c. \<not> ascii_whitespace c) input)
      in if length s mod 4 = 1 \<or> None \<in> set (map b64_index s) then Inl InvalidCharacterError
         else Inr (map of_nat (b64_bytes (map (the \<circ> b64_index) s))))"

section \<open>codec.ts\<close>

definition replaceAll_unit :: "code_unit \<Rightarrow> jsstring \<Rightarrow> jsstring \<Rightarrow> jsstring" where
  "replaceAll_unit c r s = concat (map (\<lambda>u. if u = c then r else [u]) s)"

definition url_safe :: "code_unit \<Rightarrow> bool" where
  "url_safe c \<longleftrightarrow>
     65 \<le> c \<and> c \<le> 90 \<or> 97 \<le> c \<and> c \<le> 122 \<or> 48 \<le> c \<and> c \<le> 57 \<or> c = 95 \<or> c = 45"

definition bytesToBase64Url :: "bytes \<Rightarrow> codec_error + jsstring" where
  "bytesToBase64Url bs =
     bind_result (btoa (map ucast bs)) (\<lambda>b64.
       Inr (replaceAll_unit PAD [] (replaceAll_unit 47 [95] (replaceAll_unit 43 [45] b64))))"

definition base64UrlToBytes :: "jsstring \<Rightarrow> codec_error + bytes" where
  "base64UrlToBytes s =
     (if \<not> list_all url_safe s then Inl InvalidBase64Url
      else
        let padLen = (4 - length s mod 4) mod 4;
            padded = replaceAll_unit 95 [47] (replaceAll_unit 45 [43] s) @ replicate padLen PAD
        in bind_result (atob padded) (\<lambda>binary. Inr (map ucast binary)))"

section \<open>The alphabet\<close>

text \<open>A finite check over the 64 digits, evaluated by the kernel.\<close>

definition url_char :: "nat \<Rightarrow> code_unit" where
  "url_char n = (if n = 62 then 45 else if n = 63 then 95 else b64_char n)"

definition url_std :: "code_unit \<Rightarrow> code_unit" where
  "url_std c = (if c = 45 then 43 else if c = 95 then 47 else c)"

definition url_digit :: "code_unit \<Rightarrow> nat" where
  "url_digit c = the (b64_index (url_std c))"

lemma digit_table:
  "list_all (\<lambda>n. b64_index (b64_char n) = Some n \<and> b64_char n \<noteq> PAD \<and> url_safe (url_char n) \<and>
     url_digit (url_char n) = n \<and>
     url_char n = (if b64_char n = 43 then 45 else if b64_char n = 47 then 95 else b64_char n)) [0..<64]"
  by code_simp

lemma digit_facts:
  assumes "n < 64"
  shows "b64_index (b64_char n) = Some n" and "b64_char n \<noteq> PAD" and "url_safe (url_char n)"
    and "url_digit (url_char n) = n"
    and "url_char n = (if b64_char n = 43 then 45 else if b64_char n = 47 then 95 else b64_char n)"
proof -
  have "n \<in> set [0..<64]" using assms by simp
  note table = bspec [OF digit_table [unfolded list_all_iff] this]
  from table show "b64_index (b64_char n) = Some n" by (elim conjE)
  from table show "b64_char n \<noteq> PAD" by (elim conjE)
  from table show "url_safe (url_char n)" by (elim conjE)
  from table show "url_digit (url_char n) = n" by (elim conjE)
  from table show
    "url_char n = (if b64_char n = 43 then 45 else if b64_char n = 47 then 95 else b64_char n)"
    by (elim conjE)
qed

lemma url_std_index:
  assumes "url_safe c"
  shows "b64_index (url_std c) = Some (url_digit c)" and "url_std c \<noteq> PAD"
    and "\<not> ascii_whitespace (url_std c)"
  using assms
  by (auto simp: url_safe_def url_std_def url_digit_def b64_index_def ascii_whitespace_def
      word_le_nat_alt split: if_splits)

section \<open>Encoding without padding\<close>

fun sextets :: "nat list \<Rightarrow> nat list" where
  "sextets [] = []"
| "sextets [a] = [a div 4, a mod 4 * 16]"
| "sextets [a, b] = [a div 4, a mod 4 * 16 + b div 16, b mod 16 * 4]"
| "sextets (a # b # c # rest) =
     a div 4 # (a mod 4 * 16 + b div 16) # (b mod 16 * 4 + c div 64) # c mod 64 # sextets rest"

lemma sextets_less: "(\<forall>x \<in> set xs. x < 256) \<Longrightarrow> d \<in> set (sextets xs) \<Longrightarrow> d < 64"
  by (induction xs rule: sextets.induct) auto

lemma b64_bytes_sextets: "(\<forall>x \<in> set xs. x < 256) \<Longrightarrow> b64_bytes (sextets xs) = xs"
proof (induction xs rule: sextets.induct)
  case (3 a b)
  then have "b div 16 < 16" by (simp add: less_mult_imp_div_less)
  then show ?case by simp
next
  case (4 a b c rest)
  then have "b div 16 < 16" and "c div 64 < 4"
    by (simp_all add: less_mult_imp_div_less)
  then have "(a mod 4 * 16 + b div 16) mod 16 * 16 + (b mod 16 * 4 + c div 64) div 4 = b"
    by simp
  moreover have "(b mod 16 * 4 + c div 64) mod 4 * 64 + c mod 64 = c"
    using \<open>c div 64 < 4\<close> by simp
  ultimately show ?case using 4 \<open>b div 16 < 16\<close> by simp
qed simp_all

lemma length_sextets_mod: "length (sextets xs) mod 4 \<noteq> 1"
  by (induction xs rule: sextets.induct) auto

lemma replaceAll_unit_single [simp]:
  "replaceAll_unit c [r] s = map (\<lambda>u. if u = c then r else u) s"
  by (induction s) (auto simp: replaceAll_unit_def)

lemma replaceAll_unit_drop [simp]: "replaceAll_unit c [] s = filter (\<lambda>u. u \<noteq> c) s"
  by (induction s) (auto simp: replaceAll_unit_def)

definition to_url :: "code_unit \<Rightarrow> code_unit" where
  "to_url u = (if u = 43 then 45 else if u = 47 then 95 else u)"

lemma to_url_facts:
  shows "n < 64 \<Longrightarrow> to_url (b64_char n) = url_char n" and "n < 64 \<Longrightarrow> url_char n \<noteq> PAD" and "to_url PAD = PAD"
  using digit_facts(2,5) [of n] by (auto simp: to_url_def)

lemma b64_groups_eq: "\<exists>k. b64_groups xs = map b64_char (sextets xs) @ replicate k PAD"
proof (induction xs rule: sextets.induct)
  case (2 a)
  have "b64_groups [a] = map b64_char (sextets [a]) @ replicate 2 PAD"
    by (simp add: numeral_2_eq_2)
  then show ?case ..
next
  case (3 a b)
  have "b64_groups [a, b] = map b64_char (sextets [a, b]) @ replicate 1 PAD" by simp
  then show ?case ..
qed auto

lemma url_of_digits:
  "\<forall>d \<in> set ds. d < 64 \<Longrightarrow>
    filter (\<lambda>u. u \<noteq> PAD) (map to_url (map b64_char ds @ replicate k PAD)) = map url_char ds"
  by (induction ds) (simp_all add: to_url_facts)

lemma url_of_b64_groups:
  assumes "\<forall>d \<in> set (sextets xs). d < 64"
  shows "filter (\<lambda>u. u \<noteq> PAD) (map to_url (b64_groups xs)) = map url_char (sextets xs)"
  using b64_groups_eq [of xs] url_of_digits [OF assms] by metis

lemma unat_unit_of_byte [simp]: "unat (ucast (b :: byte) :: code_unit) = unat b"
proof -
  have "unat b < 2 ^ 16" using unat_byte_less [of b] by simp
  then show ?thesis by (simp add: unsigned_ucast_eq take_bit_nat_eq_self del: power_numeral)
qed

lemma bytesToBase64Url_eq: "bytesToBase64Url bs = Inr (map url_char (sextets (map unat bs)))"
proof -
  have units: "map unat (map ucast bs :: jsstring) = map unat bs" by simp
  have "\<not> 255 < (ucast b :: code_unit)" for b :: byte
    using unat_byte_less [of b] by (simp add: word_less_nat_alt)
  then have "btoa (map ucast bs) = Inr (b64_groups (map unat bs))"
    by (simp add: btoa_def units del: map_map)
  moreover have "map (\<lambda>u. if u = 47 then 95 else u) (map (\<lambda>u. if u = 43 then 45 else u) s)
      = map to_url s" for s
    by (auto simp: to_url_def)
  moreover have "\<forall>d \<in> set (sextets (map unat bs)). d < 64"
    using sextets_less [of "map unat bs"] by (simp add: unat_byte_less)
  ultimately show ?thesis
    using url_of_b64_groups [of "map unat bs"] by (simp add: bytesToBase64Url_def del: map_map)
qed

section \<open>Decoding\<close>

lemma strip_pad_complete:
  "length (t @ [PAD, PAD]) mod 4 = 0 \<Longrightarrow> strip_pad (t @ [PAD, PAD]) = t"
  "length (t @ [PAD]) mod 4 = 0 \<Longrightarrow> t \<noteq> [] \<Longrightarrow> last t \<noteq> PAD \<Longrightarrow> strip_pad (t @ [PAD]) = t"
  "t = [] \<or> last t \<noteq> PAD \<Longrightarrow> strip_pad t = t"
  unfolding strip_pad_def by (auto simp: butlast_append simp del: length_append)

lemma strip_pad_padded:
  assumes "PAD \<notin> set t"
  shows "strip_pad (t @ replicate ((4 - length t mod 4) mod 4) PAD)
    = (if length t mod 4 = 1 then t @ [PAD] else t)"
proof -
  have pads: "replicate 3 PAD = [PAD, PAD, PAD]" "replicate 2 PAD = [PAD, PAD]"
    by (simp_all add: numeral_3_eq_3 numeral_2_eq_2)
  have last: "t = [] \<or> last t \<noteq> PAD"
    using assms last_in_set [of t] by metis
  consider "length t mod 4 = 0" | "length t mod 4 = 1" | "length t mod 4 = 2" | "length t mod 4 = 3"
    by linarith
  then show ?thesis
  proof cases
    case 1
    then show ?thesis using strip_pad_complete(3) [OF last] by simp
  next
    case 2
    then have "length ((t @ [PAD]) @ [PAD, PAD]) mod 4 = 0"
      unfolding length_append list.size by presburger
    from strip_pad_complete(1) [OF this] 2 show ?thesis by (simp add: pads)
  next
    case 3
    then have "length (t @ [PAD, PAD]) mod 4 = 0"
      unfolding length_append list.size by presburger
    from strip_pad_complete(1) [OF this] 3 show ?thesis by (simp add: pads)
  next
    case 4
    then have "length (t @ [PAD]) mod 4 = 0" unfolding length_append list.size by presburger
    from strip_pad_complete(2) [OF this] 4 last show ?thesis by (cases "t = []") simp_all
  qed
qed

text \<open>
  The behaviour of the decoder on every input: a foreign character is refused by the regular
  expression, a remainder of one character by \<open>atob\<close>, and everything else decodes.
\<close>

lemma base64UrlToBytes_eq:
  "base64UrlToBytes s =
     (if \<not> list_all url_safe s then Inl InvalidBase64Url
      else if length s mod 4 = 1 then Inl InvalidCharacterError
      else Inr (map of_nat (b64_bytes (map url_digit s))))"
proof (cases "list_all url_safe s")
  case safe: True
  let ?t = "map url_std s"
  let ?p = "?t @ replicate ((4 - length s mod 4) mod 4) PAD"
  have "\<not> ascii_whitespace PAD" by (simp add: ascii_whitespace_def)
  then have t: "PAD \<notin> set ?t" "filter (\<lambda>c. \<not> ascii_whitespace c) ?p = ?p"
    "map b64_index ?t = map (Some \<circ> url_digit) s"
    using safe url_std_index by (force simp: list_all_iff filter_id_conv)+
  have std: "map (\<lambda>u. if u = 95 then 47 else u) (map (\<lambda>u. if u = 45 then 43 else u) s) = ?t"
    by (auto simp: url_std_def)
  have "strip_pad ?p = (if length s mod 4 = 1 then ?t @ [PAD] else ?t)"
    using strip_pad_padded [OF t(1)] by simp
  moreover have "b64_index PAD = None" by (simp add: b64_index_def)
  moreover have "None \<notin> set (map b64_index ?t)" and "map (the \<circ> b64_index) ?t = map url_digit s"
    unfolding t(3) by (auto simp: url_digit_def)
  ultimately have atob: "atob ?p = (if length s mod 4 = 1 then Inl InvalidCharacterError
      else Inr (map of_nat (b64_bytes (map url_digit s))))"
    unfolding atob_def t(2) Let_def by (simp del: map_map)
  have "ucast (of_nat n :: code_unit) = (of_nat n :: byte)" for n
    by (simp add: unsigned_of_nat word_of_nat_eq_iff)
  then show ?thesis
    using safe std atob by (simp add: base64UrlToBytes_def Let_def comp_def del: map_map) simp
qed (simp add: base64UrlToBytes_def)

section \<open>The contract\<close>

interpretation b64url: codec bytesToBase64Url base64UrlToBytes "\<lambda>_. True"
proof unfold_locales
  fix bs :: bytes and s
  show "\<exists>y. bytesToBase64Url bs = Inr y" by (simp add: bytesToBase64Url_eq)
  assume "bytesToBase64Url bs = Inr s"
  then have s: "s = map url_char (sextets (map unat bs))" by (simp add: bytesToBase64Url_eq)
  have less: "\<forall>x \<in> set (map unat bs). x < 256" by (simp add: unat_byte_less)
  note digit = digit_facts(3,4) [OF sextets_less [OF less]]
  have "list_all url_safe s" and "map url_digit s = sextets (map unat bs)"
    using digit by (auto simp: s list_all_iff map_idI)
  then show "base64UrlToBytes s = Inr bs"
    using length_sextets_mod [of "map unat bs"] b64_bytes_sextets [OF less]
    by (simp add: base64UrlToBytes_eq s comp_def del: map_map) (simp add: comp_def)
qed

section \<open>Properties\<close>

lemma length_sextets: "length (sextets xs) = (4 * length xs + 2) div 3"
  by (induction xs rule: sextets.induct) simp_all

text \<open>
  The credential blob's byte codec never fails on bytes, emits only URL-safe characters without
  padding (four for every three bytes, rounded up), and decodes back to the same bytes.
\<close>

theorem base64url_round_trip:
  "\<exists>s. bytesToBase64Url bs = Inr s \<and> list_all url_safe s \<and>
     length s = (4 * length bs + 2) div 3 \<and> base64UrlToBytes s = Inr bs"
proof -
  obtain s where s: "bytesToBase64Url bs = Inr s" using b64url.enc_total by blast
  have "base64UrlToBytes s = Inr bs" using b64url.dec_enc [OF _ s] by simp
  moreover from this have "list_all url_safe s"
    by (auto simp: base64UrlToBytes_eq split: if_splits)
  moreover have "length s = (4 * length bs + 2) div 3"
    using s by (auto simp: bytesToBase64Url_eq length_sextets)
  ultimately show ?thesis using s by blast
qed

text \<open>
  The decoder throws exactly on a character outside the URL-safe alphabet (checked first, by its
  own message) and on a length that leaves one character over (refused by \<open>atob\<close>); it accepts
  every other string, the padded form included among the refused ones.
\<close>

theorem base64url_decode_errors:
  "(base64UrlToBytes s = Inl InvalidBase64Url \<longleftrightarrow> (\<exists>c \<in> set s. \<not> url_safe c)) \<and>
   (base64UrlToBytes s = Inl InvalidCharacterError \<longleftrightarrow> list_all url_safe s \<and> length s mod 4 = 1) \<and>
   ((\<exists>bs. base64UrlToBytes s = Inr bs) \<longleftrightarrow> list_all url_safe s \<and> length s mod 4 \<noteq> 1)"
  by (auto simp: base64UrlToBytes_eq list_all_iff)

end
