(* ===== verification/Utf8.thy ===== *)
theory Utf8
  imports Prelude
begin

text \<open>
  The platform text codec that \<open>row-codec.ts\<close>, \<open>note-codec.ts\<close> and the wasm string bridge use:
  \<open>new TextEncoder()\<close> and \<open>new TextDecoder("utf-8", { fatal: true })\<close>, from the WHATWG Encoding
  definition. The encoder reads UTF-16 code units as scalar values, replacing a lone surrogate by
  U+FFFD. The fatal decoder refuses every ill-formed sequence and, since \<open>ignoreBOM\<close> is left at
  its default, drops one leading byte order mark.
\<close>

section \<open>UTF-16 code units and scalar values\<close>

definition high_surrogate :: "code_unit \<Rightarrow> bool" where
  "high_surrogate u \<longleftrightarrow> 0xD800 \<le> unat u \<and> unat u < 0xDC00"

definition low_surrogate :: "code_unit \<Rightarrow> bool" where
  "low_surrogate u \<longleftrightarrow> 0xDC00 \<le> unat u \<and> unat u < 0xE000"

fun code_points :: "jsstring \<Rightarrow> nat list" where
  "code_points [] = []"
| "code_points [u] = [if high_surrogate u \<or> low_surrogate u then 0xFFFD else unat u]"
| "code_points (u # v # us) =
     (if high_surrogate u \<and> low_surrogate v
      then (0x10000 + (unat u - 0xD800) * 0x400 + (unat v - 0xDC00)) # code_points us
      else (if high_surrogate u \<or> low_surrogate u then 0xFFFD else unat u) # code_points (v # us))"

definition code_units :: "nat \<Rightarrow> jsstring" where
  "code_units n =
     (if n < 0x10000 then [of_nat n]
      else [of_nat (0xD800 + (n - 0x10000) div 0x400), of_nat (0xDC00 + (n - 0x10000) mod 0x400)])"

text \<open>\<open>String.prototype.isWellFormed\<close>: every surrogate is part of a pair.\<close>

fun well_formed :: "jsstring \<Rightarrow> bool" where
  "well_formed [] = True"
| "well_formed [u] = (\<not> high_surrogate u \<and> \<not> low_surrogate u)"
| "well_formed (u # v # us) =
     (if high_surrogate u \<and> low_surrogate v then well_formed us
      else \<not> high_surrogate u \<and> \<not> low_surrogate u \<and> well_formed (v # us))"

definition scalar :: "nat \<Rightarrow> bool" where
  "scalar n \<longleftrightarrow> n < 0xD800 \<or> 0xE000 \<le> n \<and> n < 0x110000"

section \<open>UTF-8\<close>

definition utf8_of_scalar :: "nat \<Rightarrow> nat list" where
  "utf8_of_scalar n =
     (if n < 0x80 then [n]
      else if n < 0x800 then [0xC0 + n div 0x40, 0x80 + n mod 0x40]
      else if n < 0x10000 then [0xE0 + n div 0x1000, 0x80 + n div 0x40 mod 0x40, 0x80 + n mod 0x40]
      else [0xF0 + n div 0x40000, 0x80 + n div 0x1000 mod 0x40, 0x80 + n div 0x40 mod 0x40,
            0x80 + n mod 0x40])"

definition cont :: "nat \<Rightarrow> bool" where
  "cont b \<longleftrightarrow> 0x80 \<le> b \<and> b < 0xC0"

fun utf8_scalars :: "nat list \<Rightarrow> nat list option" where
  "utf8_scalars [] = Some []"
| "utf8_scalars (a # bs) =
     (if a < 0x80 then map_option ((#) a) (utf8_scalars bs)
      else if 0xC2 \<le> a \<and> a < 0xE0 then
        (case bs of b # rest \<Rightarrow>
           if cont b then map_option ((#) ((a - 0xC0) * 0x40 + (b - 0x80))) (utf8_scalars rest)
           else None
         | _ \<Rightarrow> None)
      else if 0xE0 \<le> a \<and> a < 0xF0 then
        (case bs of b # c # rest \<Rightarrow>
           if cont b \<and> (a = 0xE0 \<longrightarrow> 0xA0 \<le> b) \<and> (a = 0xED \<longrightarrow> b < 0xA0) \<and> cont c
           then map_option ((#) ((a - 0xE0) * 0x1000 + (b - 0x80) * 0x40 + (c - 0x80)))
                  (utf8_scalars rest)
           else None
         | _ \<Rightarrow> None)
      else if 0xF0 \<le> a \<and> a < 0xF5 then
        (case bs of b # c # d # rest \<Rightarrow>
           if cont b \<and> (a = 0xF0 \<longrightarrow> 0x90 \<le> b) \<and> (a = 0xF4 \<longrightarrow> b < 0x90) \<and> cont c \<and> cont d
           then map_option ((#) ((a - 0xF0) * 0x40000 + (b - 0x80) * 0x1000 + (c - 0x80) * 0x40
                  + (d - 0x80))) (utf8_scalars rest)
           else None
         | _ \<Rightarrow> None)
      else None)"

definition text_encode :: "jsstring \<Rightarrow> bytes" where
  "text_encode s = map of_nat (concat (map utf8_of_scalar (code_points s)))"

definition strip_bom :: "bytes \<Rightarrow> bytes" where
  "strip_bom bs = (if take 3 bs = [0xEF, 0xBB, 0xBF] then drop 3 bs else bs)"

definition text_decode_fatal :: "bytes \<Rightarrow> jsstring option" where
  "text_decode_fatal bs =
     map_option (concat \<circ> map code_units) (utf8_scalars (map unat (strip_bom bs)))"

section \<open>Scalar values survive the byte encoding\<close>

declare utf8_scalars.simps(2) [simp del]

lemma sextet_digits:
  fixes n :: nat
  shows "n div 0x1000 * 0x1000 + n div 0x40 mod 0x40 * 0x40 + n mod 0x40 = n"
    and "n div 0x40000 * 0x40000 + n div 0x1000 mod 0x40 * 0x1000
      + n div 0x40 mod 0x40 * 0x40 + n mod 0x40 = n"
proof -
  define a b where "a = n div 0x40" and "b = n div 0x1000"
  have ab: "b = a div 0x40" "n div 0x40000 = b div 0x40"
    by (simp_all add: a_def b_def div_mult2_eq [symmetric])
  have "a * 0x40 + n mod 0x40 = n" "b * 0x40 + a mod 0x40 = a" "b div 0x40 * 0x40 + b mod 0x40 = b"
    unfolding ab(1) a_def by simp_all
  then show "n div 0x1000 * 0x1000 + n div 0x40 mod 0x40 * 0x40 + n mod 0x40 = n"
    and "n div 0x40000 * 0x40000 + n div 0x1000 mod 0x40 * 0x1000
      + n div 0x40 mod 0x40 * 0x40 + n mod 0x40 = n"
    unfolding ab(2) a_def [symmetric] b_def [symmetric] by linarith+
qed

lemma utf8_scalars_of_scalar:
  assumes "scalar n"
  shows "utf8_scalars (utf8_of_scalar n @ rest) = map_option ((#) n) (utf8_scalars rest)"
proof -
  have z: "n mod 0x40 < 0x40" "n div 0x40 mod 0x40 < 0x40" "n div 0x1000 mod 0x40 < 0x40" by simp_all
  have "n < 0x110000" using assms by (auto simp: scalar_def)
  then consider "n < 0x80" | "0x80 \<le> n" "n < 0x800" | "0x800 \<le> n" "n < 0x10000" | "0x10000 \<le> n" "n < 0x110000"
    by (meson not_less)
  then show ?thesis
  proof cases
    case 1
    then show ?thesis by (simp add: utf8_of_scalar_def utf8_scalars.simps(2))
  next
    case 2
    then have "2 \<le> n div 0x40" "n div 0x40 < 0x20" by (auto simp: less_mult_imp_div_less)
    with 2 show ?thesis
      by (simp add: utf8_of_scalar_def utf8_scalars.simps(2) [of "0xC0 + n div 0x40"] cont_def)
  next
    case 3
    define x y where "x = n div 0x1000" and "y = n div 0x40 mod 0x40"
    have digits: "x * 0x1000 + y * 0x40 + n mod 0x40 = n"
      unfolding x_def y_def by (rule sextet_digits(1))
    then have "x < 0x10" "x = 0 \<longrightarrow> 0x20 \<le> y" "x = 0xD \<longrightarrow> y < 0x20" "y < 0x40"
      using 3 assms z unfolding scalar_def y_def by linarith+
    then show ?thesis
      using 3 digits unfolding utf8_of_scalar_def x_def [symmetric] y_def [symmetric]
      by (simp add: utf8_scalars.simps(2) [of "0xE0 + x"] cont_def)
  next
    case 4
    define x y w where "x = n div 0x40000" and "y = n div 0x1000 mod 0x40"
      and "w = n div 0x40 mod 0x40"
    have digits: "x * 0x40000 + y * 0x1000 + w * 0x40 + n mod 0x40 = n"
      unfolding x_def y_def w_def by (rule sextet_digits(2))
    then have "x < 5" "x = 0 \<longrightarrow> 0x10 \<le> y" "x = 4 \<longrightarrow> y < 0x10" "y < 0x40" "w < 0x40"
      using 4 z unfolding y_def w_def by linarith+
    then show ?thesis
      using 4 digits unfolding utf8_of_scalar_def x_def [symmetric] y_def [symmetric] w_def [symmetric]
      by (simp add: utf8_scalars.simps(2) [of "0xF0 + x"] cont_def)
  qed
qed

lemma utf8_scalars_concat:
  "\<forall>n \<in> set ns. scalar n \<Longrightarrow> utf8_scalars (concat (map utf8_of_scalar ns)) = Some ns"
  by (induction ns) (simp_all add: utf8_scalars_of_scalar)

section \<open>Well-formed text round-trips\<close>

lemma code_points_scalar: "n \<in> set (code_points s) \<Longrightarrow> scalar n"
proof (induction s rule: code_points.induct)
  case (2 u)
  have "unat u < 2 ^ LENGTH(16)" by (rule unsigned_less)
  with 2 show ?case
    by (auto simp: scalar_def high_surrogate_def low_surrogate_def split: if_splits)
next
  case (3 u v us)
  have "unat u < 2 ^ LENGTH(16)" by (rule unsigned_less)
  with 3 show ?case
    by (auto simp: scalar_def high_surrogate_def low_surrogate_def split: if_splits)
qed simp

lemma code_units_code_points:
  "well_formed s \<Longrightarrow> concat (map code_units (code_points s)) = s"
proof (induction s rule: code_points.induct)
  case (2 u)
  have "unat u < 2 ^ LENGTH(16)" by (rule unsigned_less)
  with 2 show ?case by (simp add: code_units_def)
next
  case (3 u v us)
  have u: "unat u < 2 ^ LENGTH(16)" by (rule unsigned_less)
  show ?case
  proof (cases "high_surrogate u \<and> low_surrogate v")
    case True
    then obtain x y where x: "unat u = 0xD800 + x" and y: "unat v = 0xDC00 + y" "y < 0x400"
      by (auto simp: high_surrogate_def low_surrogate_def le_iff_add)
    have "u = of_nat (0xD800 + x)" "v = of_nat (0xDC00 + y)"
      by (simp_all flip: x y(1))
    then have "code_units (0x10000 + (unat u - 0xD800) * 0x400 + (unat v - 0xDC00)) = [u, v]"
      using x y by (simp add: code_units_def)
    with True 3 show ?thesis by simp
  next
    case False
    with 3 u show ?thesis by (auto simp: code_units_def split: if_splits)
  qed
qed simp

lemma utf8_of_scalar_byte: "scalar n \<Longrightarrow> b \<in> set (utf8_of_scalar n) \<Longrightarrow> b < 256"
  by (auto simp: utf8_of_scalar_def scalar_def less_mult_imp_div_less split: if_splits)

lemma unat_text_encode: "map unat (text_encode s) = concat (map utf8_of_scalar (code_points s))"
proof -
  have "\<forall>b \<in> set (concat (map utf8_of_scalar (code_points s))). b < 256"
    using code_points_scalar utf8_of_scalar_byte by fastforce
  then have "map (unat \<circ> (of_nat :: nat \<Rightarrow> byte)) (concat (map utf8_of_scalar (code_points s)))
      = concat (map utf8_of_scalar (code_points s))"
    by (intro map_idI) (auto simp: unsigned_of_nat take_bit_nat_eq_self)
  then show ?thesis by (simp add: text_encode_def)
qed

text \<open>The encoding starts with the bytes of a byte order mark exactly when the text starts with U+FEFF.\<close>

lemma bom_scalar:
  assumes "scalar n"
  shows "take 3 (utf8_of_scalar n @ rest) = [0xEF, 0xBB, 0xBF] \<longleftrightarrow> n = 0xFEFF"
proof -
  have "n < 0x110000" using assms by (auto simp: scalar_def)
  then consider "n < 0x80" | "0x80 \<le> n" "n < 0x800" | "0x800 \<le> n" "n < 0x10000" | "0x10000 \<le> n"
    by (meson not_less)
  then show ?thesis
  proof cases
    case 1
    then show ?thesis by (simp add: utf8_of_scalar_def numeral_3_eq_3)
  next
    case 2
    then have "n div 0x40 < 0x20" by (simp add: less_mult_imp_div_less)
    with 2 show ?thesis by (simp add: utf8_of_scalar_def numeral_3_eq_3)
  next
    case 3
    then have "take 3 (utf8_of_scalar n @ rest) =
        [0xE0 + n div 0x1000, 0x80 + n div 0x40 mod 0x40, 0x80 + n mod 0x40]"
      by (simp add: utf8_of_scalar_def)
    moreover have "n div 0x1000 = 0xF \<and> n div 0x40 mod 0x40 = 0x3B \<and> n mod 0x40 = 0x3F
        \<longleftrightarrow> n = 0xFEFF"
      using sextet_digits(1) [of n] by auto
    ultimately show ?thesis by simp
  next
    case 4
    then show ?thesis by (simp add: utf8_of_scalar_def numeral_3_eq_3)
  qed
qed

definition starts_with_bom :: "jsstring \<Rightarrow> bool" where
  "starts_with_bom s \<longleftrightarrow> take 1 s = [0xFEFF]"

lemma map_unat_strip_bom:
  "map unat (strip_bom bs) =
     (if take 3 (map unat bs) = [0xEF, 0xBB, 0xBF] then drop 3 (map unat bs) else map unat bs)"
proof -
  have "take 3 (map unat bs) = [0xEF, 0xBB, 0xBF] \<longleftrightarrow> take 3 bs = [0xEF, 0xBB, 0xBF]"
    using map_unat_inject [of "take 3 bs" "[0xEF, 0xBB, 0xBF]"] by (simp add: take_map)
  then show ?thesis by (simp add: strip_bom_def drop_map)
qed

lemma text_decode_text_encode:
  "text_decode_fatal (text_encode s) =
     Some (concat (map code_units
       (case code_points s of [] \<Rightarrow> [] | n # ns \<Rightarrow> if n = 0xFEFF then ns else n # ns)))"
proof (cases "code_points s")
  case Nil
  then show ?thesis by (simp add: text_decode_fatal_def text_encode_def strip_bom_def)
next
  case (Cons n ns)
  have scalars: "scalar n" "\<forall>m \<in> set ns. scalar m"
    using code_points_scalar [of _ s] Cons by auto
  have bytes: "map unat (text_encode s) = utf8_of_scalar n @ concat (map utf8_of_scalar ns)"
    by (simp add: unat_text_encode Cons)
  have "map unat (strip_bom (text_encode s)) =
      concat (map utf8_of_scalar (if n = 0xFEFF then ns else n # ns))"
    unfolding map_unat_strip_bom bytes bom_scalar [OF scalars(1)]
    by (simp add: utf8_of_scalar_def)
  moreover have "utf8_scalars \<dots> = Some (if n = 0xFEFF then ns else n # ns)"
    using scalars by (intro utf8_scalars_concat) auto
  ultimately show ?thesis by (simp add: text_decode_fatal_def Cons)
qed

lemma text_round_trip:
  assumes "well_formed s" and "\<not> starts_with_bom s"
  shows "text_decode_fatal (text_encode s) = Some s"
proof (cases "code_points s")
  case Nil
  then have "concat (map code_units (code_points s)) = []" by simp
  with code_units_code_points [OF assms(1)] Nil show ?thesis
    by (simp add: text_decode_text_encode)
next
  case (Cons n ns)
  have s: "s = code_units n @ concat (map code_units ns)"
    using code_units_code_points [OF assms(1)] Cons by simp
  have "n \<noteq> 0xFEFF"
    using assms(2) s by (auto simp: code_units_def starts_with_bom_def)
  with s Cons show ?thesis by (simp add: text_decode_text_encode)
qed

section \<open>ASCII text\<close>

lemma ascii_well_formed: "\<forall>c \<in> set s. unat c < 0x80 \<Longrightarrow> well_formed s"
  by (induction s rule: well_formed.induct) (auto simp: high_surrogate_def low_surrogate_def)

lemma code_points_ascii:
  "\<forall>n \<in> set ns. n < 0x80 \<Longrightarrow> code_points (map of_nat ns) = ns"
proof (induction ns rule: induct_list012)
  case (3 x y zs)
  then show ?case
    by (simp add: high_surrogate_def low_surrogate_def unsigned_of_nat take_bit_nat_eq_self)
qed (auto simp: high_surrogate_def low_surrogate_def unsigned_of_nat take_bit_nat_eq_self)

lemma text_encode_ascii:
  assumes "\<forall>c \<in> set s. unat c < 0x80"
  shows "text_encode s = map ucast s"
proof -
  have "map of_nat (map unat s) = s" by (simp add: map_idI)
  then have "code_points s = map unat s" using code_points_ascii [of "map unat s"] assms by simp
  moreover have "concat (map utf8_of_scalar (map unat s)) = map unat s"
    using assms by (induction s) (simp_all add: utf8_of_scalar_def)
  ultimately show ?thesis by (simp add: text_encode_def of_nat_unat)
qed

end
