(* ===== verification/Row_Id.thy ===== *)
theory Row_Id
  imports Utf8
begin

unbundle bit_operations_syntax

text \<open>
  Row ids (\<open>packages/storage/src/id.ts\<close> over \<open>crates/repo/src/id.rs\<close>): 16 bytes written as 26
  Crockford base-32 digits. The Rust loops run on 32-bit words that overflow on purpose: after four
  bytes the high bits of \<open>value\<close> are shifted out, and only its low \<open>bits\<close> bits are ever read again.
  The proofs carry the numeral value of what has been written so far; the wrapped high bits drop out
  of the invariant by \<open>mod\<close>.
\<close>

section \<open>The codec as written\<close>

datatype row_id_error = WrongRowIdLength nat nat | InvalidRowIdChar nat

definition CROCKFORD :: "nat list" where
  "CROCKFORD = map of_char ''0123456789ABCDEFGHJKMNPQRSTVWXYZ''"

definition ROW_ID_BYTES :: nat where "ROW_ID_BYTES = 16"
definition ROW_ID_CHARS :: nat where "ROW_ID_CHARS = 26"

text \<open>\<open>while bits >= 5 { bits -= 5; out.push(CROCKFORD[(value >> bits) & 31]) }\<close>, the digits kept as indices.\<close>

fun drain_digits :: "32 word \<Rightarrow> nat \<Rightarrow> nat list \<Rightarrow> nat list \<times> nat" where
  "drain_digits value bits out =
     (if 5 \<le> bits
      then drain_digits value (bits - 5) (out @ [unat (drop_bit (bits - 5) value AND 0x1F)])
      else (out, bits))"

declare drain_digits.simps [simp del]

definition encode_byte :: "nat list \<times> nat \<times> 32 word \<Rightarrow> byte \<Rightarrow> nat list \<times> nat \<times> 32 word" where
  "encode_byte st byte =
     (case st of (out, bits, value) \<Rightarrow>
        let value = push_bit 8 value OR ucast byte;
            (out, bits) = drain_digits value (bits + 8) out
        in (out, bits, value))"

definition encode_digits :: "bytes \<Rightarrow> nat list" where
  "encode_digits bs =
     (case foldl encode_byte ([], 0, 0) bs of (out, bits, value) \<Rightarrow>
        if 0 < bits then out @ [unat (push_bit (5 - bits) value AND 0x1F)] else out)"

definition row_encode :: "bytes \<Rightarrow> row_id_error + nat list" where
  "row_encode bs =
     (if length bs \<noteq> ROW_ID_BYTES then Inl (WrongRowIdLength ROW_ID_BYTES (length bs))
      else Inr (map ((!) CROCKFORD) (encode_digits bs)))"

definition to_ascii_uppercase :: "nat \<Rightarrow> nat" where
  "to_ascii_uppercase c = (if 0x61 \<le> c \<and> c \<le> 0x7A then c - 0x20 else c)"

fun position :: "nat \<Rightarrow> nat list \<Rightarrow> nat option" where
  "position c [] = None"
| "position c (x # xs) = (if x = c then Some 0 else map_option Suc (position c xs))"

definition decode_digit :: "bytes \<times> nat \<times> 32 word \<Rightarrow> nat \<Rightarrow> bytes \<times> nat \<times> 32 word" where
  "decode_digit st idx =
     (case st of (out, bits, value) \<Rightarrow>
        let value = push_bit 5 value OR of_nat idx; bits = bits + 5
        in if 8 \<le> bits then (out @ [ucast (drop_bit (bits - 8) value AND 0xFF)], bits - 8, value)
           else (out, bits, value))"

fun decode_loop :: "bytes \<times> nat \<times> 32 word \<Rightarrow> nat list \<Rightarrow> row_id_error + bytes" where
  "decode_loop st [] = Inr (fst st)"
| "decode_loop st (ch # chs) =
     (case position (to_ascii_uppercase ch) CROCKFORD of
        None \<Rightarrow> Inl (InvalidRowIdChar ch)
      | Some idx \<Rightarrow> decode_loop (decode_digit st idx) chs)"

definition row_decode :: "nat list \<Rightarrow> row_id_error + bytes" where
  "row_decode chars =
     (if length chars \<noteq> ROW_ID_CHARS then Inl (WrongRowIdLength ROW_ID_CHARS (length chars))
      else decode_loop ([], 0, 0) chars)"

text \<open>
  The wrappers of \<open>id.ts\<close>. A string crosses the wasm boundary as UTF-8, so the Rust side sees its
  scalar values; the random source is the argument of \<open>generateRowId\<close>.
\<close>

definition encodeRowId :: "bytes \<Rightarrow> row_id_error + jsstring" where
  "encodeRowId bs = bind_result (row_encode bs) (\<lambda>chars. Inr (concat (map code_units chars)))"

definition decodeRowId :: "jsstring \<Rightarrow> row_id_error + bytes" where
  "decodeRowId s = row_decode (code_points s)"

definition generateRowId :: "bytes \<Rightarrow> row_id_error + jsstring" where
  "generateRowId random = encodeRowId (take ROW_ID_BYTES random)"

section \<open>The words as numbers\<close>

lemma push_bit_or_nat:
  fixes x w :: nat
  assumes "w < 2 ^ k"
  shows "push_bit k x OR w = x * 2 ^ k + w"
proof -
  have w: "take_bit k w = w" using assms by (simp add: take_bit_nat_eq_self)
  have "push_bit k x AND w = 0"
    by (subst w [symmetric], rule bit_eqI) (auto simp: bit_and_iff bit_push_bit_iff bit_take_bit_iff)
  then show ?thesis by (simp add: push_bit_eq_mult flip: disjunctive_add_eq_or)
qed

lemma unat_shift_or:
  fixes v w :: "32 word"
  assumes w: "unat w < 2 ^ k" and "k + b \<le> 32"
  shows "unat (push_bit k v OR w) mod 2 ^ (k + b) = unat v mod 2 ^ b * 2 ^ k + unat w"
proof -
  have "take_bit (k + b) (unat w) = unat w"
    using w by (intro take_bit_nat_eq_self) (simp add: power_add order.strict_trans2)
  then have "take_bit (k + b) (unat (push_bit k v OR w)) = push_bit k (take_bit b (unat v)) OR unat w"
    using assms(2)
    by (simp add: unsigned_or_eq unsigned_push_bit_eq take_bit_push_bit min_absorb1 le_diff_conv2)
  also have "\<dots> = take_bit b (unat v) * 2 ^ k + unat w" by (rule push_bit_or_nat [OF w])
  finally show ?thesis by (simp add: take_bit_eq_mod)
qed

lemma unat_and_mask: "unat (v AND 0x1F) = unat v mod 32" "unat (v AND 0xFF) = unat v mod 256"
  for v :: "32 word"
proof -
  have take: "unat (take_bit n v) = unat v mod 2 ^ n" for n
    by (simp only: unsigned_take_bit_eq take_bit_eq_mod [where 'a = nat])
  have "(0x1F :: 32 word) = mask 5" "(0xFF :: 32 word) = mask 8"
    by (simp_all add: mask_eq_exp_minus_1)
  then show "unat (v AND 0x1F) = unat v mod 32" "unat (v AND 0xFF) = unat v mod 256"
    using take [of 5] take [of 8] by (simp_all add: take_bit_eq_mask)
qed

lemma unat_drop_bit_div: "unat (drop_bit n v) = unat v div 2 ^ n" for v :: "32 word"
  by (simp only: unsigned_drop_bit_eq drop_bit_eq_div [where 'a = nat] take_bit_nat_eq_self [OF unsigned_less])

section \<open>Encoding\<close>

text \<open>\<open>out\<close> and the low \<open>bits\<close> bits of \<open>val\<close> spell the number \<open>N\<close> in \<open>len\<close> bits.\<close>

definition spells :: "nat \<Rightarrow> nat \<Rightarrow> nat \<Rightarrow> nat \<Rightarrow> nat list \<Rightarrow> nat \<Rightarrow> 32 word \<Rightarrow> bool" where
  "spells width N len base out bits val \<longleftrightarrow>
     horner base out * 2 ^ bits + unat val mod 2 ^ bits = N \<and>
     width * length out + bits = len \<and> (\<forall>d \<in> set out. d < base)"

lemma spells_emit:
  assumes "spells w N t (2 ^ w) out (bits + w) val"
  shows "spells w N t (2 ^ w) (out @ [unat val div 2 ^ bits mod 2 ^ w]) bits val"
proof -
  have "unat val mod 2 ^ (bits + w) =
      unat val div 2 ^ bits mod 2 ^ w * 2 ^ bits + unat val mod 2 ^ bits"
    by (simp add: power_add mod_mult2_eq mult.commute)
  with assms show ?thesis by (auto simp: spells_def algebra_simps power_add)
qed

lemma spells_shift:
  assumes "spells w N t base out bits val" and "unat d < 2 ^ k" and "k + bits \<le> 32"
  shows "spells w (N * 2 ^ k + unat d) (t + k) base out (bits + k) (push_bit k val OR d)"
proof -
  have "unat (push_bit k val OR d) mod 2 ^ (bits + k) = unat val mod 2 ^ bits * 2 ^ k + unat d"
    using unat_shift_or [OF assms(2,3)] by (simp add: add.commute)
  with assms(1) show ?thesis by (auto simp: spells_def algebra_simps power_add)
qed

lemma spells_drain:
  assumes "spells 5 N t 32 out bits val" and "drain_digits val bits out = (out', bits')"
  shows "spells 5 N t 32 out' bits' val \<and> bits' < 5"
  using assms
proof (induction val bits out rule: drain_digits.induct)
  case (1 val bits out)
  show ?case
  proof (cases "5 \<le> bits")
    case True
    then have "spells 5 N t 32 (out @ [unat val div 2 ^ (bits - 5) mod 32]) (bits - 5) val"
      using spells_emit [of 5 N t out "bits - 5" val] 1(2) by simp
    with 1 True show ?thesis
      by (simp add: drain_digits.simps [of val bits] unat_and_mask unat_drop_bit_div)
  next
    case False
    with 1(2,3) show ?thesis by (simp add: drain_digits.simps)
  qed
qed

lemma spells_encode_byte:
  assumes "spells 5 N t 32 out bits val" and "bits < 5"
    and "encode_byte (out, bits, val) x = (out', bits', val')"
  shows "spells 5 (N * 256 + unat x) (t + 8) 32 out' bits' val' \<and> bits' < 5"
proof -
  define v where "v = push_bit 8 val OR ucast x"
  have "unat (ucast x :: 32 word) = unat x"
    using unat_byte_less [of x] by (simp add: unsigned_ucast_eq take_bit_nat_eq_self)
  then have "spells 5 (N * 256 + unat x) (t + 8) 32 out (bits + 8) v"
    using spells_shift [OF assms(1), of "ucast x" 8] assms(2) unat_byte_less [of x]
    by (simp add: v_def)
  then show ?thesis
    using assms(3) spells_drain [of _ _ out "bits + 8" v]
    by (auto simp: encode_byte_def Let_def v_def [symmetric] split: prod.splits)
qed

lemma spells_encode:
  assumes "foldl encode_byte ([], 0, 0) bs = (out, bits, val)"
  shows "spells 5 (horner 256 (map unat bs)) (8 * length bs) 32 out bits val \<and> bits < 5"
  using assms
proof (induction bs arbitrary: out bits val rule: rev_induct)
  case Nil
  then show ?case by (simp add: spells_def)
next
  case (snoc x bs)
  obtain o1 b1 v1 where "foldl encode_byte ([], 0, 0) bs = (o1, b1, v1)" by (metis prod_cases3)
  with snoc show ?case
    using spells_encode_byte [of "horner 256 (map unat bs)" "8 * length bs" o1 b1 v1 x out bits val]
    by (simp add: add.commute)
qed

lemma encode_digits_spec:
  assumes "length bs = 16"
  shows "horner 32 (encode_digits bs) = horner 256 (map unat bs) * 4"
    and "length (encode_digits bs) = 26" and "\<forall>d \<in> set (encode_digits bs). d < 32"
proof -
  obtain out bits val where fold: "foldl encode_byte ([], 0, 0) bs = (out, bits, val)"
    by (metis prod_cases3)
  have sp: "spells 5 (horner 256 (map unat bs)) 128 32 out bits val" "bits < 5"
    using spells_encode [OF fold] assms by simp_all
  then have len: "5 * length out + bits = 128" by (simp add: spells_def)
  with sp(2) have b: "bits = 3" "length out = 25" by presburger+
  have "unat (push_bit 2 val AND 0x1F) = unat val mod 8 * 4"
    using unat_shift_or [of 0 2 3 val] by (simp add: unat_and_mask)
  then have "encode_digits bs = out @ [unat val mod 8 * 4]"
    using fold b by (simp add: encode_digits_def)
  with sp b show "horner 32 (encode_digits bs) = horner 256 (map unat bs) * 4"
    and "length (encode_digits bs) = 26" and "\<forall>d \<in> set (encode_digits bs). d < 32"
    by (auto simp: spells_def)
qed

section \<open>Decoding\<close>

lemma spells_decode_digit:
  assumes "spells 8 N t 256 (map unat out) bits val" and "bits < 8" and "d < 32"
    and "decode_digit (out, bits, val) d = (out', bits', val')"
  shows "spells 8 (N * 32 + d) (t + 5) 256 (map unat out') bits' val' \<and> bits' < 8"
proof -
  define v where "v = push_bit 5 val OR of_nat d"
  have d: "unat (of_nat d :: 32 word) = d"
    using assms(3) by (simp add: unsigned_of_nat take_bit_nat_eq_self)
  then have sp: "spells 8 (N * 32 + d) (t + 5) 256 (map unat out) (bits + 5) v"
    using spells_shift [OF assms(1), of "of_nat d" 5] assms(2,3) by (simp add: v_def)
  have eq: "decode_digit (out, bits, val) d =
      (if 8 \<le> bits + 5 then (out @ [ucast (drop_bit (bits + 5 - 8) v AND 0xFF)], bits + 5 - 8, v)
       else (out, bits + 5, v))"
    by (simp add: decode_digit_def v_def)
  show ?thesis
  proof (cases "8 \<le> bits + 5")
    case True
    let ?b = "drop_bit (bits + 5 - 8) v AND 0xFF"
    have "unat (ucast ?b :: byte) = unat v div 2 ^ (bits + 5 - 8) mod 256"
      by (simp add: unsigned_ucast_eq take_bit_nat_eq_self unat_and_mask unat_drop_bit_div)
    then have "spells 8 (N * 32 + d) (t + 5) 256 (map unat (out @ [ucast ?b])) (bits + 5 - 8) v"
      using spells_emit [of 8 "N * 32 + d" "t + 5" "map unat out" "bits + 5 - 8" v] sp True
      by (simp add: add.commute)
    with True assms(2,4) show ?thesis by (auto simp: eq)
  next
    case False
    with sp assms(4) show ?thesis by (auto simp: eq)
  qed
qed

lemma spells_decode:
  assumes "foldl decode_digit ([], 0, 0) ds = (out, bits, val)" and "\<forall>d \<in> set ds. d < 32"
  shows "spells 8 (horner 32 ds) (5 * length ds) 256 (map unat out) bits val \<and> bits < 8"
  using assms
proof (induction ds arbitrary: out bits val rule: rev_induct)
  case Nil
  then show ?case by (simp add: spells_def)
next
  case (snoc d ds)
  obtain o1 b1 v1 where "foldl decode_digit ([], 0, 0) ds = (o1, b1, v1)" by (metis prod_cases3)
  with snoc show ?case
    using spells_decode_digit [of "horner 32 ds" "5 * length ds" o1 b1 v1 d out bits val]
    by (simp add: add.commute)
qed

lemma decode_digits_spec:
  assumes "length ds = 26" and "\<forall>d \<in> set ds. d < 32"
  shows "horner 256 (map unat (fst (foldl decode_digit ([], 0, 0) ds))) = horner 32 ds div 4"
    and "length (fst (foldl decode_digit ([], 0, 0) ds)) = 16"
proof -
  obtain out bits val where fold: "foldl decode_digit ([], 0, 0) ds = (out, bits, val)"
    by (metis prod_cases3)
  have sp: "spells 8 (horner 32 ds) 130 256 (map unat out) bits val" "bits < 8"
    using spells_decode [OF fold assms(2)] assms(1) by simp_all
  then have "8 * length out + bits = 130" by (simp add: spells_def)
  with sp(2) have b: "bits = 2" "length out = 16" by presburger+
  with sp have "horner 256 (map unat out) * 4 + unat val mod 4 = horner 32 ds"
    by (simp add: spells_def)
  then show "horner 256 (map unat (fst (foldl decode_digit ([], 0, 0) ds))) = horner 32 ds div 4"
    unfolding fold by simp
  show "length (fst (foldl decode_digit ([], 0, 0) ds)) = 16" by (simp add: fold b)
qed

text \<open>The alphabet lookup; the digit of a character is case-insensitive.\<close>

definition crockford_digit :: "nat \<Rightarrow> nat option" where
  "crockford_digit ch = position (to_ascii_uppercase ch) CROCKFORD"

lemma position_less: "position c xs = Some i \<Longrightarrow> i < length xs"
  by (induction xs arbitrary: i) (auto split: if_splits)

lemma crockford_digit_less: "crockford_digit ch = Some d \<Longrightarrow> d < 32"
  using position_less [of _ CROCKFORD] by (fastforce simp: crockford_digit_def CROCKFORD_def)

lemma decode_loop_eq:
  "decode_loop st chs =
     (case find (\<lambda>ch. crockford_digit ch = None) chs of
        Some ch \<Rightarrow> Inl (InvalidRowIdChar ch)
      | None \<Rightarrow> Inr (fst (foldl decode_digit st (map (the \<circ> crockford_digit) chs))))"
  by (induction st chs rule: decode_loop.induct)
    (auto simp: crockford_digit_def split: option.splits)

lemma crockford_table:
  assumes "d < 32"
  shows "crockford_digit (CROCKFORD ! d) = Some d" and "CROCKFORD ! d < 0x80"
proof -
  have "list_all (\<lambda>d. crockford_digit (CROCKFORD ! d) = Some d \<and> CROCKFORD ! d < 0x80) [0..<32]"
    by code_simp
  then show "crockford_digit (CROCKFORD ! d) = Some d" and "CROCKFORD ! d < 0x80"
    using assms by (auto simp: list_all_iff)
qed

lemma crockford_units:
  "\<forall>d \<in> set ds. d < 32 \<Longrightarrow>
     concat (map code_units (map ((!) CROCKFORD) ds)) = map of_nat (map ((!) CROCKFORD) ds)"
  by (induction ds) (auto simp: code_units_def dest: crockford_table(2))

lemma encodeRowId_eq:
  assumes "length bs = 16"
  shows "encodeRowId bs = Inr (map of_nat (map ((!) CROCKFORD) (encode_digits bs)))"
  using crockford_units [OF encode_digits_spec(3) [OF assms]] assms
  by (simp add: encodeRowId_def row_encode_def ROW_ID_BYTES_def)

lemma decode_encodeRowId:
  assumes "length bs = 16" and "encodeRowId bs = Inr s"
  shows "decodeRowId s = Inr bs"
proof -
  let ?ds = "encode_digits bs" and ?cs = "map ((!) CROCKFORD) (encode_digits bs)"
  note ds = encode_digits_spec [OF assms(1)]
  have s: "s = map of_nat ?cs"
    using assms by (simp add: encodeRowId_eq)
  have chars: "code_points s = ?cs"
    unfolding s using ds(3) crockford_table(2) by (intro code_points_ascii) auto
  have "find (\<lambda>ch. crockford_digit ch = None) ?cs = None"
    using ds(3) crockford_table(1) by (auto simp: find_None_iff)
  moreover have "map (the \<circ> crockford_digit) ?cs = ?ds"
    using ds(3) crockford_table(1) by (auto intro: map_idI)
  ultimately have "decodeRowId s = Inr (fst (foldl decode_digit ([], 0, 0) ?ds))"
    using ds(2) by (simp add: decodeRowId_def row_decode_def chars ROW_ID_CHARS_def decode_loop_eq)
  moreover have "map unat (fst (foldl decode_digit ([], 0, 0) ?ds)) = map unat bs"
    using decode_digits_spec [OF ds(2,3)] ds(1) assms(1) unat_byte_less
    by (intro horner_inject [where b = 256]) auto
  ultimately show ?thesis by (simp add: map_unat_inject)
qed

interpretation row_id: codec encodeRowId decodeRowId "\<lambda>bs. length bs = 16"
proof (standard, goal_cases)
  case (1 bs)
  then show ?case by (simp add: encodeRowId_eq)
next
  case (2 bs s)
  then show ?case by (rule decode_encodeRowId)
qed

lemma row_id_alphabet:
  assumes len: "length bs = 16" and enc: "encodeRowId bs = Inr s"
  shows "\<forall>c \<in> set s. unat c \<in> set CROCKFORD"
proof
  fix c
  assume "c \<in> set s"
  then have "c \<in> (\<lambda>d. of_nat (CROCKFORD ! d)) ` set (encode_digits bs)"
    using enc by (auto simp: encodeRowId_eq [OF len])
  then obtain d where d: "d < 32" "c = of_nat (CROCKFORD ! d)"
    using encode_digits_spec(3) [OF len] by blast
  then have "unat c = CROCKFORD ! d"
    using crockford_table(2) [OF d(1)] by (simp add: unsigned_of_nat take_bit_nat_eq_self)
  moreover have "length CROCKFORD = 32" by (simp add: CROCKFORD_def)
  ultimately show "unat c \<in> set CROCKFORD" using d(1) by simp
qed

section \<open>Properties\<close>

text \<open>
  C16: every 16-byte row id is encoded, as 26 upper-case Crockford characters, and the decoder returns
  exactly the same bytes.
\<close>

theorem row_id_round_trip:
  assumes "length bs = ROW_ID_BYTES"
  shows "\<exists>s. encodeRowId bs = Inr s \<and> length s = ROW_ID_CHARS \<and>
    (\<forall>c \<in> set s. unat c \<in> set CROCKFORD) \<and> decodeRowId s = Inr bs"
proof -
  have len: "length bs = 16" using assms by (simp add: ROW_ID_BYTES_def)
  obtain s where enc: "encodeRowId bs = Inr s" using row_id.enc_total [OF len] by blast
  moreover have "length s = ROW_ID_CHARS"
    using enc encode_digits_spec(2) [OF len] by (auto simp: encodeRowId_eq [OF len] ROW_ID_CHARS_def)
  ultimately show ?thesis
    using row_id_alphabet [OF len enc] row_id.dec_enc [OF len enc] by blast
qed

theorem row_id_round_trip_witness:
  "\<exists>s. encodeRowId (replicate 16 0xFF) = Inr s \<and> length s = ROW_ID_CHARS \<and>
    (\<forall>c \<in> set s. unat c \<in> set CROCKFORD) \<and> decodeRowId s = Inr (replicate 16 0xFF)"
  by (rule row_id_round_trip) (simp add: ROW_ID_BYTES_def)

text \<open>
  The decoder on every string. It counts characters, not code units; the first character outside
  the alphabet (after ASCII upper-casing) is the one reported; otherwise the result is the unique
  16-byte string whose big-endian value is the base-32 value of the id without its last two bits.
\<close>

theorem decodeRowId_spec:
  "decodeRowId s =
     (if length (code_points s) \<noteq> 26 then Inl (WrongRowIdLength 26 (length (code_points s)))
      else case find (\<lambda>ch. crockford_digit ch = None) (code_points s) of
        Some ch \<Rightarrow> Inl (InvalidRowIdChar ch)
      | None \<Rightarrow> Inr (THE bs. length bs = 16 \<and>
          horner 256 (map unat bs) = horner 32 (map (the \<circ> crockford_digit) (code_points s)) div 4))"
proof (cases "length (code_points s) = 26 \<and> find (\<lambda>ch. crockford_digit ch = None) (code_points s) = None")
  case True
  let ?ds = "map (the \<circ> crockford_digit) (code_points s)"
  let ?bs = "fst (foldl decode_digit ([], 0, 0) ?ds)"
  have "\<forall>d \<in> set ?ds. d < 32"
    using True crockford_digit_less by (force simp: find_None_iff)
  with True have bs: "length ?bs = 16" "horner 256 (map unat ?bs) = horner 32 ?ds div 4"
    using decode_digits_spec [of ?ds] by simp_all
  have "(THE bs. length bs = 16 \<and> horner 256 (map unat bs) = horner 32 ?ds div 4) = ?bs"
  proof (rule the_equality)
    fix cs :: bytes
    assume cs: "length cs = 16 \<and> horner 256 (map unat cs) = horner 32 ?ds div 4"
    then have "map unat cs = map unat ?bs"
      using bs unat_byte_less by (intro horner_inject [where b = 256]) auto
    then show "cs = ?bs" by (simp only: map_unat_inject)
  qed (use bs in simp)
  with True show ?thesis by (simp add: decodeRowId_def row_decode_def ROW_ID_CHARS_def decode_loop_eq)
qed (auto simp: decodeRowId_def row_decode_def ROW_ID_CHARS_def decode_loop_eq Let_def split: option.splits)

end
