(* ===== verification/Js_Text.thy ===== *)
theory Js_Text
  imports Prelude
begin

text \<open>
  The string operations of JavaScript that the program uses: decimal conversion of integers
  (template literals and \<open>String(n)\<close>), \<open>Number.parseInt(s, 10)\<close>, \<open>split\<close> on a one-character
  separator, \<open>includes\<close> and the removal of white space. Integers are exact: the conversions are those
  of the language for every integer a JavaScript number represents exactly (\<open>safe_integer\<close>).
\<close>

section \<open>Integers\<close>

definition safe_integer :: "int \<Rightarrow> bool" where
  "safe_integer n \<longleftrightarrow> \<bar>n\<bar> \<le> 2 ^ 53 - 1"

abbreviation zero_unit :: code_unit where "zero_unit \<equiv> 48"
abbreviation minus_unit :: code_unit where "minus_unit \<equiv> 45"
abbreviation plus_unit :: code_unit where "plus_unit \<equiv> 43"

fun decimal_digits :: "nat \<Rightarrow> nat list" where
  "decimal_digits n = (if n < 10 then [n] else decimal_digits (n div 10) @ [n mod 10])"

declare decimal_digits.simps [simp del]

definition show_nat :: "nat \<Rightarrow> jsstring" where
  "show_nat n = map (\<lambda>d. 48 + of_nat d) (decimal_digits n)"

definition show_int :: "int \<Rightarrow> jsstring" where
  "show_int n = (if n < 0 then minus_unit # show_nat (nat (- n)) else show_nat (nat n))"

definition is_digit :: "code_unit \<Rightarrow> bool" where
  "is_digit c \<longleftrightarrow> 48 \<le> c \<and> c \<le> 57"

definition digit_value :: "code_unit \<Rightarrow> nat" where
  "digit_value c = unat c - 48"

text \<open>The white space that \<open>trim\<close> and \<open>parseInt\<close> skip, and that \<open>\s\<close> matches.\<close>

definition js_space :: "code_unit \<Rightarrow> bool" where
  "js_space c \<longleftrightarrow>
     9 \<le> c \<and> c \<le> 13 \<or> c \<in> {0x20, 0xA0, 0x1680, 0x2028, 0x2029, 0x202F, 0x205F, 0x3000, 0xFEFF} \<or>
     0x2000 \<le> c \<and> c \<le> 0x200A"

text \<open>\<open>Number.parseInt(s, 10)\<close>; \<open>None\<close> is \<open>NaN\<close>.\<close>

definition parse_nat :: "jsstring \<Rightarrow> int option" where
  "parse_nat s =
     (let ds = takeWhile is_digit s
      in if ds = [] then None else Some (int (horner 10 (map digit_value ds))))"

definition parseInt :: "jsstring \<Rightarrow> int option" where
  "parseInt s =
     (case dropWhile js_space s of
        [] \<Rightarrow> None
      | c # cs \<Rightarrow>
          if c = minus_unit then map_option uminus (parse_nat cs)
          else if c = plus_unit then parse_nat cs
          else parse_nat (c # cs))"

section \<open>Splitting and searching\<close>

text \<open>\<open>s.split(sep)\<close> for a separator of one code unit: always at least one part.\<close>

fun split_unit :: "code_unit \<Rightarrow> jsstring \<Rightarrow> jsstring list" where
  "split_unit sep [] = [[]]"
| "split_unit sep (c # cs) =
     (if c = sep then [] # split_unit sep cs
      else case split_unit sep cs of p # ps \<Rightarrow> (c # p) # ps | [] \<Rightarrow> [[c]])"

fun starts_with :: "jsstring \<Rightarrow> jsstring \<Rightarrow> bool" where
  "starts_with [] s = True"
| "starts_with (p # ps) [] = False"
| "starts_with (p # ps) (c # cs) = (p = c \<and> starts_with ps cs)"

fun js_includes :: "jsstring \<Rightarrow> jsstring \<Rightarrow> bool" where
  "js_includes [] pat = (pat = [])"
| "js_includes (c # cs) pat = (starts_with pat (c # cs) \<or> js_includes cs pat)"

definition trim :: "jsstring \<Rightarrow> jsstring" where
  "trim s = rev (dropWhile js_space (rev (dropWhile js_space s)))"

section \<open>Printing and parsing integers\<close>

lemma decimal_digits_less: "d \<in> set (decimal_digits n) \<Longrightarrow> d < 10"
proof (induction n rule: decimal_digits.induct)
  case (1 n)
  then show ?case by (cases "n < 10") (auto simp: decimal_digits.simps [of n])
qed

lemma decimal_digits_not_Nil [simp]: "decimal_digits n \<noteq> []"
  by (subst decimal_digits.simps) simp

lemma horner_decimal_digits: "horner 10 (decimal_digits n) = n"
proof (induction n rule: decimal_digits.induct)
  case (1 n)
  then show ?case
    using horner_snoc [of 10 "[]" n] by (cases "n < 10") (simp_all add: decimal_digits.simps [of n])
qed

lemma unat_digit_unit:
  assumes "d < 10"
  shows "unat (48 + of_nat d :: code_unit) = 48 + d"
proof -
  have "48 + of_nat d = (of_nat (48 + d) :: code_unit)" by simp
  then show ?thesis using assms by (simp only: unsigned_of_nat) (simp add: take_bit_nat_eq_self)
qed

lemma digit_unit:
  assumes "d < 10"
  shows "is_digit (48 + of_nat d)" and "digit_value (48 + of_nat d) = d"
  using unat_digit_unit [OF assms] assms
  by (simp_all add: is_digit_def digit_value_def word_le_nat_alt)

lemma show_nat_digits: "c \<in> set (show_nat n) \<Longrightarrow> is_digit c"
  using decimal_digits_less digit_unit(1) by (auto simp: show_nat_def)

lemma digit_values_show_nat: "map digit_value (show_nat n) = decimal_digits n"
  using decimal_digits_less digit_unit(2) by (auto simp: show_nat_def intro!: map_idI)

lemma show_nat_not_Nil [simp]: "show_nat n \<noteq> []"
  by (simp add: show_nat_def)

lemma parse_show_nat:
  assumes "rest = [] \<or> \<not> is_digit (hd rest)"
  shows "parse_nat (show_nat n @ rest) = Some (int n)"
proof -
  have "takeWhile is_digit (show_nat n @ rest) = show_nat n"
    using assms show_nat_digits by (cases rest) (auto simp: takeWhile_append2)
  then show ?thesis by (simp add: parse_nat_def digit_values_show_nat horner_decimal_digits)
qed

lemma digit_not_special:
  assumes "is_digit c"
  shows "\<not> js_space c" and "c \<noteq> minus_unit" and "c \<noteq> plus_unit"
  using assms by (auto simp: is_digit_def js_space_def word_le_nat_alt word_unat_eq_iff)

lemma parseInt_show_int: "parseInt (show_int n) = Some n"
proof (cases "n < 0")
  case True
  have "\<not> js_space minus_unit" by (simp add: js_space_def)
  then show ?thesis
    using True parse_show_nat [of "[]" "nat (- n)"] by (simp add: parseInt_def show_int_def)
next
  case False
  obtain c cs where s: "show_nat (nat n) = c # cs" by (meson show_nat_not_Nil neq_Nil_conv)
  then have "is_digit c" using show_nat_digits by (metis list.set_intros(1))
  with s False digit_not_special [of c] show ?thesis
    using parse_show_nat [of "[]" "nat n"] by (simp add: parseInt_def show_int_def)
qed

lemma show_int_units: "c \<in> set (show_int n) \<Longrightarrow> is_digit c \<or> c = minus_unit"
  using show_nat_digits by (auto simp: show_int_def split: if_splits)

lemma show_int_not_Nil [simp]: "show_int n \<noteq> []"
  by (simp add: show_int_def)

section \<open>Splitting\<close>

lemma starts_with_append [simp]: "starts_with p (p @ s)"
  by (induction p) simp_all

lemma split_unit_no_sep: "sep \<notin> set s \<Longrightarrow> split_unit sep s = [s]"
  by (induction s) auto

lemma split_unit_append_sep:
  "sep \<notin> set s \<Longrightarrow> split_unit sep (s @ sep # t) = s # split_unit sep t"
  by (induction s) auto

lemma includes_iff: "js_includes s pat \<longleftrightarrow> (\<exists>xs ys. s = xs @ pat @ ys)"
proof -
  have starts: "starts_with p s \<longleftrightarrow> (\<exists>ys. s = p @ ys)" for p s
    by (induction p s rule: starts_with.induct) auto
  show ?thesis
  proof (induction s)
    case (Cons c cs)
    have "(\<exists>xs ys. c # cs = xs @ pat @ ys) \<longleftrightarrow>
        (\<exists>ys. c # cs = pat @ ys) \<or> (\<exists>xs ys. cs = xs @ pat @ ys)"
      by (metis append_Cons append_Nil list.inject neq_Nil_conv)
    with Cons starts [of pat "c # cs"] show ?case by simp
  qed auto
qed

end
