(* ===== verification/Note_Table.thy ===== *)
theory Note_Table
  imports Row_Id Js_Text "HOL-Library.List_Lexorder" "HOL-Library.Product_Lexorder"
begin

text \<open>
  The encrypted-row repository of the worker (\<open>packages/storage/src/note-repository.ts\<close>) over the
  \<open>notes\<close> table. The table is the list of its rows; each SQL statement of the source is one function
  on it with the statement's meaning: \<open>INSERT ... ON CONFLICT(id) DO UPDATE\<close>, \<open>UPDATE\<close>, \<open>DELETE\<close>
  and the two \<open>SELECT\<close>s. A BLOB is ordered by its bytes, a shorter one before its extensions, which
  is the lexicographic order of byte lists. An \<open>updated_day\<close> is an integer.
\<close>

section \<open>Rows\<close>

record encrypted_note_row =
  row_id :: jsstring
  row_updatedDay :: int
  row_archived :: bool
  row_titleNonce :: bytes
  row_titleCiphertext :: bytes
  row_bodyNonce :: bytes
  row_bodyCiphertext :: bytes

text \<open>A row as SQLite holds it: the columns of \<open>NOTE_COLUMNS\<close>.\<close>

record db_row =
  db_id :: bytes
  updated_day :: int
  db_archived :: int
  title_nonce :: bytes
  title_ciphertext :: bytes
  body_nonce :: bytes
  body_ciphertext :: bytes

type_synonym note_table = "db_row list"

datatype repository_error =
    RowIdError row_id_error
  | MalformedCursor jsstring

definition lift_row_id :: "row_id_error + 'a \<Rightarrow> repository_error + 'a" where
  "lift_row_id r = (case r of Inl e \<Rightarrow> Inl (RowIdError e) | Inr x \<Rightarrow> Inr x)"

lemma lift_row_id_simps [simp]:
  "lift_row_id (Inl e) = Inl (RowIdError e)" "lift_row_id (Inr x) = Inr x"
  by (simp_all add: lift_row_id_def)

section \<open>The SQL statements\<close>

definition upsert_sql :: "db_row \<Rightarrow> note_table \<Rightarrow> note_table" where
  "upsert_sql r t =
     (if \<exists>q \<in> set t. db_id q = db_id r then map (\<lambda>q. if db_id q = db_id r then r else q) t
      else t @ [r])"

definition archive_sql :: "bytes \<Rightarrow> note_table \<Rightarrow> note_table" where
  "archive_sql i t = map (\<lambda>q. if db_id q = i then q\<lparr>db_archived := 1\<rparr> else q) t"

definition delete_sql :: "bytes \<Rightarrow> note_table \<Rightarrow> note_table" where
  "delete_sql i t = filter (\<lambda>q. db_id q \<noteq> i) t"

definition select_by_id_sql :: "bytes \<Rightarrow> note_table \<Rightarrow> db_row list" where
  "select_by_id_sql i t = filter (\<lambda>q. db_id q = i) t"

definition note_key :: "db_row \<Rightarrow> int \<times> bytes" where
  "note_key r = (updated_day r, db_id r)"

text \<open>\<open>ORDER BY updated_day DESC, id DESC\<close>\<close>

definition order_desc :: "db_row list \<Rightarrow> db_row list" where
  "order_desc rs = rev (sort_key note_key rs)"

text \<open>The cursor clause with its binds; a \<open>NaN\<close> day is bound as \<open>NULL\<close>, which no comparison satisfies.\<close>

datatype cursor_clause = NoCursor | After "int option" bytes

fun cursor_holds :: "cursor_clause \<Rightarrow> db_row \<Rightarrow> bool" where
  "cursor_holds NoCursor r = True"
| "cursor_holds (After None i) r = False"
| "cursor_holds (After (Some day) i) r =
     (updated_day r < day \<or> (updated_day r = day \<and> db_id r < i))"

definition select_page_sql :: "bool \<Rightarrow> cursor_clause \<Rightarrow> nat \<Rightarrow> note_table \<Rightarrow> db_row list" where
  "select_page_sql includeArchived c n t =
     take n (order_desc (filter (\<lambda>r. (includeArchived \<or> db_archived r = 0) \<and> cursor_holds c r) t))"

section \<open>NoteRepositorySql\<close>

definition cursorWhere :: "jsstring option \<Rightarrow> repository_error + cursor_clause" where
  "cursorWhere cursor =
     (case cursor of
        None \<Rightarrow> Inr NoCursor
      | Some [] \<Rightarrow> Inr NoCursor
      | Some c \<Rightarrow>
          (case split_unit 58 c of
             dayStr # lastId # _ \<Rightarrow>
               if dayStr = [] \<or> lastId = [] then Inl (MalformedCursor c)
               else bind_result (lift_row_id (decodeRowId lastId)) (\<lambda>i. Inr (After (parseInt dayStr) i))
           | _ \<Rightarrow> Inl (MalformedCursor c)))"

definition decodeRow :: "db_row \<Rightarrow> repository_error + encrypted_note_row" where
  "decodeRow r =
     bind_result (lift_row_id (encodeRowId (db_id r))) (\<lambda>i. Inr
       \<lparr>row_id = i, row_updatedDay = updated_day r, row_archived = (db_archived r = 1),
        row_titleNonce = title_nonce r, row_titleCiphertext = title_ciphertext r,
        row_bodyNonce = body_nonce r, row_bodyCiphertext = body_ciphertext r\<rparr>)"

definition clamp_limit :: "int \<Rightarrow> int" where
  "clamp_limit limit = max 1 (min limit 200)"

record list_page =
  page_rows :: "encrypted_note_row list"
  page_nextCursor :: "jsstring option"

definition repo_list :: "int \<Rightarrow> jsstring option \<Rightarrow> bool \<Rightarrow> note_table \<Rightarrow> repository_error + list_page" where
  "repo_list limit cursor includeArchived t =
     (let n = nat (clamp_limit limit) in
      bind_result (cursorWhere cursor) (\<lambda>clause.
        let raw = select_page_sql includeArchived clause (n + 1) t in
        bind_result (map_result decodeRow (take n raw)) (\<lambda>rows.
          let overflow = n < length raw in
          Inr \<lparr>page_rows = rows,
               page_nextCursor =
                 (if overflow \<and> rows \<noteq> []
                  then Some (show_int (row_updatedDay (last rows)) @ 58 # row_id (last rows))
                  else None)\<rparr>)))"

definition repo_upsert ::
  "encrypted_note_row \<Rightarrow> note_table \<Rightarrow> repository_error + note_table \<times> encrypted_note_row" where
  "repo_upsert input t =
     bind_result (lift_row_id (decodeRowId (row_id input))) (\<lambda>i.
       Inr (upsert_sql
         \<lparr>db_id = i, updated_day = row_updatedDay input,
          db_archived = (if row_archived input then 1 else 0),
          title_nonce = row_titleNonce input, title_ciphertext = row_titleCiphertext input,
          body_nonce = row_bodyNonce input, body_ciphertext = row_bodyCiphertext input\<rparr> t, input))"

definition repo_archive :: "jsstring \<Rightarrow> note_table \<Rightarrow> repository_error + note_table" where
  "repo_archive s t =
     bind_result (lift_row_id (decodeRowId s)) (\<lambda>i. Inr (archive_sql i t))"

definition repo_delete :: "jsstring \<Rightarrow> note_table \<Rightarrow> repository_error + note_table" where
  "repo_delete s t =
     bind_result (lift_row_id (decodeRowId s)) (\<lambda>i. Inr (delete_sql i t))"

definition repo_get :: "jsstring \<Rightarrow> note_table \<Rightarrow> repository_error + encrypted_note_row option" where
  "repo_get s t =
     bind_result (lift_row_id (decodeRowId s)) (\<lambda>i.
       case select_by_id_sql i t of
         [] \<Rightarrow> Inr None
       | r # _ \<Rightarrow> bind_result (decodeRow r) (\<lambda>row. Inr (Some row)))"

section \<open>The table invariant\<close>

definition db_row_ok :: "db_row \<Rightarrow> bool" where
  "db_row_ok r \<longleftrightarrow> length (db_id r) = 16 \<and> db_archived r \<in> {0, 1}"

definition table_inv :: "note_table \<Rightarrow> bool" where
  "table_inv t \<longleftrightarrow> distinct (map db_id t) \<and> list_all db_row_ok t"

lemma decodeRowId_length: "decodeRowId s = Inr bs \<Longrightarrow> length bs = 16"
proof -
  assume dec: "decodeRowId s = Inr bs"
  let ?ds = "map (the \<circ> crockford_digit) (code_points s)"
  from dec have len: "length (code_points s) = 26"
    and none: "find (\<lambda>ch. crockford_digit ch = None) (code_points s) = None"
    and bs: "bs = fst (foldl decode_digit ([], 0, 0) ?ds)"
    by (auto simp: decodeRowId_def row_decode_def decode_loop_eq ROW_ID_CHARS_def
        split: if_splits option.splits)
  have "\<forall>d \<in> set ?ds. d < 32"
    using none crockford_digit_less by (force simp: find_None_iff)
  then show ?thesis using decode_digits_spec(2) [of ?ds] len bs by simp
qed

lemma upsert_sql_inv:
  assumes "table_inv t" and "db_row_ok r"
  shows "table_inv (upsert_sql r t)"
proof -
  have "map db_id (map (\<lambda>q. if db_id q = db_id r then r else q) t) = map db_id t" by auto
  with assms show ?thesis
    by (auto simp: table_inv_def upsert_sql_def list_all_iff simp del: map_map)
qed

lemma archive_sql_inv: "table_inv t \<Longrightarrow> table_inv (archive_sql i t)"
proof -
  have "map db_id (archive_sql i t) = map db_id t" by (simp add: archive_sql_def)
  then show "table_inv t \<Longrightarrow> table_inv (archive_sql i t)"
    by (auto simp: table_inv_def archive_sql_def list_all_iff db_row_ok_def simp del: map_map)
qed

lemma delete_sql_inv: "table_inv t \<Longrightarrow> table_inv (delete_sql i t)"
  by (auto simp: table_inv_def delete_sql_def list_all_iff distinct_map inj_on_filter_key_eq
      intro: inj_on_subset)

section \<open>The table as a finite map\<close>

text \<open>
  What the repository promises of its writes, independent of the row list: a store of rows under
  keys in which \<open>put\<close> overwrites, \<open>archive\<close> flags an existing row and \<open>remove\<close> drops it. The
  locale's lemma is the simulation of any sequence of writes.
\<close>

datatype ('row, 'k) row_write = Put 'row | Archive 'k | Remove 'k

fun spec_write :: "('row \<Rightarrow> 'k) \<Rightarrow> ('row \<Rightarrow> 'row) \<Rightarrow> ('row, 'k) row_write
    \<Rightarrow> ('k \<Rightarrow> 'row option) \<Rightarrow> 'k \<Rightarrow> 'row option" where
  "spec_write key flag (Put r) m = m(key r \<mapsto> r)"
| "spec_write key flag (Archive k) m = m(k := map_option flag (m k))"
| "spec_write key flag (Remove k) m = m(k := None)"

fun run_write :: "('row \<Rightarrow> 't \<Rightarrow> 't) \<Rightarrow> ('k \<Rightarrow> 't \<Rightarrow> 't) \<Rightarrow> ('k \<Rightarrow> 't \<Rightarrow> 't) \<Rightarrow> ('row, 'k) row_write
    \<Rightarrow> 't \<Rightarrow> 't" where
  "run_write put archive remove (Put r) t = put r t"
| "run_write put archive remove (Archive k) t = archive k t"
| "run_write put archive remove (Remove k) t = remove k t"

fun write_ok :: "('row \<Rightarrow> bool) \<Rightarrow> ('row, 'k) row_write \<Rightarrow> bool" where
  "write_ok row_ok (Put r) = row_ok r"
| "write_ok row_ok _ = True"

locale row_store =
  fixes key :: "'row \<Rightarrow> 'k"
    and flag :: "'row \<Rightarrow> 'row"
    and row_ok :: "'row \<Rightarrow> bool"
    and inv :: "'t \<Rightarrow> bool"
    and lookup :: "'t \<Rightarrow> 'k \<Rightarrow> 'row option"
    and put :: "'row \<Rightarrow> 't \<Rightarrow> 't"
    and archive :: "'k \<Rightarrow> 't \<Rightarrow> 't"
    and remove :: "'k \<Rightarrow> 't \<Rightarrow> 't"
  assumes lookup_put: "inv t \<Longrightarrow> lookup (put r t) = (lookup t)(key r \<mapsto> r)"
    and lookup_archive: "inv t \<Longrightarrow> lookup (archive k t) = (lookup t)(k := map_option flag (lookup t k))"
    and lookup_remove: "inv t \<Longrightarrow> lookup (remove k t) = (lookup t)(k := None)"
    and inv_put: "inv t \<Longrightarrow> row_ok r \<Longrightarrow> inv (put r t)"
    and inv_archive: "inv t \<Longrightarrow> inv (archive k t)"
    and inv_remove: "inv t \<Longrightarrow> inv (remove k t)"
begin

lemma write_refines:
  assumes "inv t" and "write_ok row_ok w"
  shows "inv (run_write put archive remove w t)"
    and "lookup (run_write put archive remove w t) = spec_write key flag w (lookup t)"
  using assms
  by (cases w; simp add: lookup_put lookup_archive lookup_remove inv_put inv_archive inv_remove)+

lemma writes_refine:
  assumes "inv t" and "list_all (write_ok row_ok) ws"
  shows "inv (fold (run_write put archive remove) ws t) \<and>
    lookup (fold (run_write put archive remove) ws t) = fold (spec_write key flag) ws (lookup t)"
  using assms by (induction ws arbitrary: t) (simp_all add: write_refines)

end

definition table_lookup :: "note_table \<Rightarrow> bytes \<Rightarrow> db_row option" where
  "table_lookup t i = find (\<lambda>r. db_id r = i) t"

definition archived_flag :: "db_row \<Rightarrow> db_row" where
  "archived_flag r = r\<lparr>db_archived := 1\<rparr>"

lemma table_lookup_Some:
  assumes "distinct (map db_id t)"
  shows "table_lookup t i = Some r \<longleftrightarrow> r \<in> set t \<and> db_id r = i"
  using assms unfolding table_lookup_def by (induction t) auto

lemma table_lookup_None: "table_lookup t i = None \<longleftrightarrow> (\<forall>r \<in> set t. db_id r \<noteq> i)"
  by (auto simp: table_lookup_def find_None_iff)

lemma table_lookup_key: "table_lookup t i = Some r \<Longrightarrow> db_id r = i \<and> r \<in> set t"
  unfolding table_lookup_def by (induction t) (auto split: if_splits)

lemma table_lookup_map:
  "(\<And>r. db_id (f r) = db_id r) \<Longrightarrow> table_lookup (map f t) i = map_option f (table_lookup t i)"
  unfolding table_lookup_def by (induction t) auto

lemma table_lookup_upsert: "table_lookup (upsert_sql r t) = (table_lookup t)(db_id r \<mapsto> r)"
proof
  fix i
  show "table_lookup (upsert_sql r t) i = ((table_lookup t)(db_id r \<mapsto> r)) i"
  proof (cases "\<exists>q \<in> set t. db_id q = db_id r")
    case True
    then have "table_lookup (upsert_sql r t) i =
        map_option (\<lambda>q. if db_id q = db_id r then r else q) (table_lookup t i)"
      by (simp add: upsert_sql_def table_lookup_map)
    moreover have "table_lookup t (db_id r) \<noteq> None" using True by (auto simp: table_lookup_None)
    ultimately show ?thesis
      by (cases "table_lookup t i") (auto dest: table_lookup_key)
  next
    case False
    have "table_lookup (t @ [r]) i =
        (case table_lookup t i of None \<Rightarrow> if db_id r = i then Some r else None | Some x \<Rightarrow> Some x)"
      unfolding table_lookup_def by (induction t) auto
    with False show ?thesis
      by (cases "table_lookup t i") (auto simp: upsert_sql_def dest: table_lookup_key)
  qed
qed

lemma table_lookup_archive:
  "table_lookup (archive_sql k t) = (table_lookup t)(k := map_option archived_flag (table_lookup t k))"
proof
  fix i
  have "table_lookup (archive_sql k t) i =
      map_option (\<lambda>q. if db_id q = k then q\<lparr>db_archived := 1\<rparr> else q) (table_lookup t i)"
    unfolding archive_sql_def by (rule table_lookup_map) simp
  then show "table_lookup (archive_sql k t) i =
      ((table_lookup t)(k := map_option archived_flag (table_lookup t k))) i"
    by (cases "table_lookup t i") (auto simp: archived_flag_def dest: table_lookup_key)
qed

lemma table_lookup_delete: "table_lookup (delete_sql k t) = (table_lookup t)(k := None)"
proof
  fix i
  show "table_lookup (delete_sql k t) i = ((table_lookup t)(k := None)) i"
    unfolding table_lookup_def delete_sql_def by (induction t) auto
qed

interpretation note_rows: row_store db_id archived_flag db_row_ok table_inv table_lookup
  upsert_sql archive_sql delete_sql
  by unfold_locales
    (simp_all add: table_lookup_upsert table_lookup_archive table_lookup_delete
      upsert_sql_inv archive_sql_inv delete_sql_inv)

section \<open>Ordering and cursors\<close>

lemma order_desc_filter: "order_desc (filter P rs) = filter P (order_desc rs)"
  by (simp add: order_desc_def filter_sort [symmetric] rev_filter)

lemma set_order_desc [simp]: "set (order_desc rs) = set rs"
  by (simp add: order_desc_def)

lemma length_order_desc [simp]: "length (order_desc rs) = length rs"
  by (simp add: order_desc_def)

text \<open>A list in strictly descending key order: what follows position \<open>k\<close> is what is below its key.\<close>

definition descending :: "db_row list \<Rightarrow> bool" where
  "descending rs \<longleftrightarrow> sorted_wrt (\<lambda>a b. note_key b < note_key a) rs"

lemma descending_order_desc:
  assumes "distinct (map db_id rs)"
  shows "descending (order_desc rs)"
proof -
  let ?s = "sort_key note_key rs"
  have "distinct (map db_id ?s)" using assms
    by (simp add: distinct_map)
  then have "distinct (map note_key ?s)"
    by (simp add: distinct_map inj_on_def note_key_def)
  then have "sorted_wrt (<) (map note_key ?s)"
    using sorted_sort_key [of note_key rs] by (simp add: strict_sorted_iff)
  then show ?thesis
    by (simp add: descending_def order_desc_def sorted_wrt_rev sorted_wrt_map)
qed

lemma descending_filter_below:
  assumes "descending rs" and "k < length rs"
  shows "filter (\<lambda>r. note_key r < note_key (rs ! k)) rs = drop (Suc k) rs"
  using assms
proof (induction rs arbitrary: k)
  case (Cons r rs)
  show ?case
  proof (cases k)
    case 0
    with Cons.prems show ?thesis by (auto simp: descending_def filter_id_conv)
  next
    case (Suc j)
    then have "rs ! j \<in> set rs" using Cons.prems(2) by simp
    then have "\<not> note_key r < note_key (rs ! j)"
      using Cons.prems(1) by (auto simp: descending_def dest: order.asym)
    with Suc Cons show ?thesis by (simp add: descending_def)
  qed
qed simp

definition visible :: "bool \<Rightarrow> note_table \<Rightarrow> db_row list" where
  "visible includeArchived t = order_desc (filter (\<lambda>r. includeArchived \<or> db_archived r = 0) t)"

lemma cursor_holds_key: "cursor_holds (After (Some (updated_day q)) (db_id q)) r \<longleftrightarrow> note_key r < note_key q"
  by (auto simp: note_key_def)

lemma select_page_sql_visible:
  "select_page_sql inc NoCursor n t = take n (visible inc t)"
  "distinct (map db_id t) \<Longrightarrow> k < length (visible inc t) \<Longrightarrow> q = visible inc t ! k \<Longrightarrow>
   select_page_sql inc (After (Some (updated_day q)) (db_id q)) n t =
     take n (drop (Suc k) (visible inc t))"
proof -
  show "select_page_sql inc NoCursor n t = take n (visible inc t)"
    by (simp add: select_page_sql_def visible_def)
  assume "distinct (map db_id t)" and k: "k < length (visible inc t)" and q: "q = visible inc t ! k"
  then have "descending (visible inc t)"
    unfolding visible_def by (intro descending_order_desc) (simp add: distinct_map inj_on_filter_key_eq inj_on_def)
  from descending_filter_below [OF this k]
  show "select_page_sql inc (After (Some (updated_day q)) (db_id q)) n t =
      take n (drop (Suc k) (visible inc t))"
    unfolding select_page_sql_def cursor_holds_key q [symmetric]
    by (simp add: visible_def order_desc_filter)
qed

section \<open>Pages\<close>

text \<open>A stored row and the cursor that names it, on rows whose ids have their 16 bytes.\<close>

definition row_of :: "db_row \<Rightarrow> encrypted_note_row" where
  "row_of r =
     \<lparr>row_id = map of_nat (map ((!) CROCKFORD) (encode_digits (db_id r))),
      row_updatedDay = updated_day r, row_archived = (db_archived r = 1),
      row_titleNonce = title_nonce r, row_titleCiphertext = title_ciphertext r,
      row_bodyNonce = body_nonce r, row_bodyCiphertext = body_ciphertext r\<rparr>"

definition cursor_of :: "db_row \<Rightarrow> jsstring" where
  "cursor_of r = show_int (updated_day r) @ 58 # row_id (row_of r)"

lemma decodeRow_row_of: "length (db_id r) = 16 \<Longrightarrow> decodeRow r = Inr (row_of r)"
  by (simp add: decodeRow_def encodeRowId_eq row_of_def)

lemma row_id_facts:
  assumes "length (db_id r) = 16"
  shows "decodeRowId (row_id (row_of r)) = Inr (db_id r)" and "58 \<notin> set (row_id (row_of r))"
    and "row_id (row_of r) \<noteq> []"
proof -
  have enc: "encodeRowId (db_id r) = Inr (row_id (row_of r))"
    using assms by (simp add: encodeRowId_eq row_of_def)
  then show dec: "decodeRowId (row_id (row_of r)) = Inr (db_id r)"
    by (rule row_id.dec_enc [OF assms])
  have units: "\<forall>c \<in> set (row_id (row_of r)). unat c \<in> set CROCKFORD"
    using row_id_alphabet [OF assms enc] .
  show "58 \<notin> set (row_id (row_of r))"
  proof
    assume "58 \<in> set (row_id (row_of r))"
    with units have "unat (58 :: code_unit) \<in> set CROCKFORD" by blast
    then show False by (simp add: CROCKFORD_def)
  qed
  show "row_id (row_of r) \<noteq> []"
    using dec by (auto simp: decodeRowId_def row_decode_def ROW_ID_CHARS_def)
qed

lemma cursorWhere_cursor_of:
  assumes "length (db_id r) = 16"
  shows "cursorWhere (Some (cursor_of r)) = Inr (After (Some (updated_day r)) (db_id r))"
proof -
  note facts = row_id_facts [OF assms]
  have "58 \<notin> set (show_int (updated_day r))"
    using show_int_units [of 58] by (auto simp: is_digit_def word_le_nat_alt)
  then have "split_unit 58 (cursor_of r) = [show_int (updated_day r), row_id (row_of r)]"
    using facts(2) by (simp add: cursor_of_def split_unit_append_sep split_unit_no_sep)
  moreover obtain c cs where "cursor_of r = c # cs"
    by (cases "cursor_of r") (simp_all add: cursor_of_def)
  ultimately show ?thesis
    using facts by (simp add: cursorWhere_def parseInt_show_int)
qed

definition page_from :: "nat \<Rightarrow> nat \<Rightarrow> db_row list \<Rightarrow> list_page" where
  "page_from n k rs =
     \<lparr>page_rows = map row_of (take n (drop k rs)),
      page_nextCursor = (if k + n < length rs then Some (cursor_of (rs ! (k + n - 1))) else None)\<rparr>"

lemma repo_list_select:
  assumes "table_inv t" and "cursorWhere cursor = Inr clause" and "n = nat (clamp_limit limit)"
    and "select_page_sql inc clause (n + 1) t = take (n + 1) (drop k (visible inc t))"
  shows "repo_list limit cursor inc t = Inr (page_from n k (visible inc t))"
proof -
  let ?S = "drop k (visible inc t)"
  have n: "0 < n" using assms(3) by (simp add: clamp_limit_def)
  have "length (db_id r) = 16" if "r \<in> set (visible inc t)" for r
    using that assms(1) by (auto simp: visible_def table_inv_def list_all_iff db_row_ok_def)
  then have dec: "map_result decodeRow (take n ?S) = Inr (map row_of (take n ?S))"
    by (intro map_result_Inr decodeRow_row_of) (meson in_set_dropD in_set_takeD)
  have last: "last (map row_of (take n ?S)) = row_of (visible inc t ! (k + n - 1))" if "k + n < length (visible inc t)"
    using that n by (simp add: last_conv_nth last_map nth_append add.commute)
  have "take n (take (n + 1) ?S) = take n ?S" by simp
  moreover have "n < length (take (n + 1) ?S) \<longleftrightarrow> k + n < length (visible inc t)"
    by (auto simp: min_def)
  ultimately show ?thesis
    unfolding repo_list_def Let_def assms(2,4) assms(3) [symmetric] bind_result_simps
    using dec last n by (auto simp: page_from_def cursor_of_def row_of_def)
qed

text \<open>
  The contract a client that pages through the store relies on: the pages of one state are
  consecutive slices of one list, named by the cursors the pages return.
\<close>

locale paged_source =
  fixes page :: "'t \<Rightarrow> jsstring option \<Rightarrow> 'e + 'a list \<times> jsstring option"
    and all :: "'t \<Rightarrow> 'a list"
    and cursor :: "'t \<Rightarrow> nat \<Rightarrow> jsstring"
    and size :: nat
    and inv :: "'t \<Rightarrow> bool"
  assumes size_pos: "0 < size"
    and cursor_truthy: "cursor t k \<noteq> []"
    and first_page: "inv t \<Longrightarrow>
      page t None = Inr (take size (all t), if size < length (all t) then Some (cursor t size) else None)"
    and next_page: "inv t \<Longrightarrow> 0 < k \<Longrightarrow> k < length (all t) \<Longrightarrow>
      page t (Some (cursor t k)) =
        Inr (take size (drop k (all t)),
             if k + size < length (all t) then Some (cursor t (k + size)) else None)"

definition repo_page :: "int \<Rightarrow> bool \<Rightarrow> note_table \<Rightarrow> jsstring option
    \<Rightarrow> repository_error + encrypted_note_row list \<times> jsstring option" where
  "repo_page limit inc t cursor =
     bind_result (repo_list limit cursor inc t) (\<lambda>p. Inr (page_rows p, page_nextCursor p))"

lemma repo_list_first:
  "table_inv t \<Longrightarrow>
     repo_list limit None inc t = Inr (page_from (nat (clamp_limit limit)) 0 (visible inc t))"
  by (rule repo_list_select [where clause = NoCursor])
    (simp_all add: cursorWhere_def select_page_sql_visible)

lemma repo_list_next:
  assumes "table_inv t" and "k < length (visible inc t)"
  shows "repo_list limit (Some (cursor_of (visible inc t ! k))) inc t =
    Inr (page_from (nat (clamp_limit limit)) (Suc k) (visible inc t))"
proof -
  let ?q = "visible inc t ! k"
  have "?q \<in> set (visible inc t)" using assms(2) by simp
  then have "length (db_id ?q) = 16"
    using assms(1) by (auto simp: visible_def table_inv_def list_all_iff db_row_ok_def)
  moreover have "distinct (map db_id t)" using assms(1) by (simp add: table_inv_def)
  ultimately show ?thesis
    using assms select_page_sql_visible(2) [OF _ assms(2) refl]
    by (intro repo_list_select [where clause = "After (Some (updated_day ?q)) (db_id ?q)"])
      (simp_all add: cursorWhere_cursor_of)
qed

lemma cursor_of_not_Nil [simp]: "cursor_of r \<noteq> []"
  by (simp add: cursor_of_def)

interpretation note_pages: paged_source "repo_page 200 inc" "\<lambda>t. map row_of (visible inc t)"
  "\<lambda>t k. cursor_of (visible inc t ! (k - 1))" 200 table_inv
  for inc
proof (unfold_locales, goal_cases)
  case (3 t)
  then show ?case
    by (simp add: repo_page_def repo_list_first clamp_limit_def page_from_def take_map)
next
  case (4 t k)
  then have "k - 1 < length (visible inc t)" "Suc (k - 1) = k" by simp_all
  with 4 show ?case
    using repo_list_next [of t "k - 1" inc 200]
    by (simp add: repo_page_def clamp_limit_def page_from_def take_map drop_map)
qed simp_all

section \<open>Writes as the worker receives them\<close>

datatype note_write = WUpsert encrypted_note_row | WArchive jsstring | WDelete jsstring

text \<open>A write that throws leaves the table as it was.\<close>

fun apply_write :: "note_write \<Rightarrow> note_table \<Rightarrow> note_table" where
  "apply_write (WUpsert row) t = (case repo_upsert row t of Inl _ \<Rightarrow> t | Inr (t', _) \<Rightarrow> t')"
| "apply_write (WArchive i) t = (case repo_archive i t of Inl _ \<Rightarrow> t | Inr t' \<Rightarrow> t')"
| "apply_write (WDelete i) t = (case repo_delete i t of Inl _ \<Rightarrow> t | Inr t' \<Rightarrow> t')"

definition stored_row :: "encrypted_note_row \<Rightarrow> bytes \<Rightarrow> db_row" where
  "stored_row row i =
     \<lparr>db_id = i, updated_day = row_updatedDay row,
      db_archived = (if row_archived row then 1 else 0),
      title_nonce = row_titleNonce row, title_ciphertext = row_titleCiphertext row,
      body_nonce = row_bodyNonce row, body_ciphertext = row_bodyCiphertext row\<rparr>"

fun write_command :: "note_write \<Rightarrow> (db_row, bytes) row_write option" where
  "write_command (WUpsert row) =
     (case decodeRowId (row_id row) of Inl _ \<Rightarrow> None | Inr i \<Rightarrow> Some (Put (stored_row row i)))"
| "write_command (WArchive s) = (case decodeRowId s of Inl _ \<Rightarrow> None | Inr i \<Rightarrow> Some (Archive i))"
| "write_command (WDelete s) = (case decodeRowId s of Inl _ \<Rightarrow> None | Inr i \<Rightarrow> Some (Remove i))"

lemma apply_write_command:
  "apply_write w t =
     (case write_command w of None \<Rightarrow> t
      | Some c \<Rightarrow> run_write upsert_sql archive_sql delete_sql c t)"
  by (cases w)
    (auto simp: repo_upsert_def repo_archive_def repo_delete_def stored_row_def split: sum.splits)

lemma write_command_ok: "write_command w = Some c \<Longrightarrow> write_ok db_row_ok c"
  by (cases w) (auto simp: db_row_ok_def stored_row_def dest: decodeRowId_length split: sum.splits)

lemma fold_apply_write:
  "fold apply_write ws t =
     fold (run_write upsert_sql archive_sql delete_sql) (List.map_filter write_command ws) t"
  by (induction ws arbitrary: t)
    (simp_all add: map_filter_simps apply_write_command split: option.splits)

lemma map_filter_write_ok: "list_all (write_ok db_row_ok) (List.map_filter write_command ws)"
  by (induction ws) (auto simp: map_filter_simps write_command_ok split: option.splits)

lemma repo_get_lookup:
  assumes "table_inv t"
  shows "repo_get s t =
    bind_result (lift_row_id (decodeRowId s)) (\<lambda>i. Inr (map_option row_of (table_lookup t i)))"
proof -
  have "(case select_by_id_sql i t of [] \<Rightarrow> Inr None | r # _ \<Rightarrow> bind_result (decodeRow r) (\<lambda>row. Inr (Some row)))
      = (Inr (map_option row_of (table_lookup t i)) :: repository_error + _)" for i
    using assms unfolding select_by_id_sql_def table_lookup_def
    by (induction t) (auto simp: table_inv_def db_row_ok_def decodeRow_row_of)
  then show ?thesis by (simp add: repo_get_def)
qed

lemma row_of_stored_row:
  "encodeRowId i = Inr (row_id row) \<Longrightarrow> length i = 16 \<Longrightarrow> row_of (stored_row row i) = row"
  by (simp add: row_of_def stored_row_def encodeRowId_eq)

lemma repo_upsert_get:
  assumes "table_inv t" and "length i = ROW_ID_BYTES" and "encodeRowId i = Inr (row_id row)"
  shows "\<exists>t'. repo_upsert row t = Inr (t', row) \<and> table_inv t' \<and>
    repo_get (row_id row) t' = Inr (Some row) \<and>
    (\<forall>s j. decodeRowId s = Inr j \<longrightarrow> j \<noteq> i \<longrightarrow> repo_get s t' = repo_get s t)"
proof -
  have len: "length i = 16" using assms(2) by (simp add: ROW_ID_BYTES_def)
  then have dec: "decodeRowId (row_id row) = Inr i" using assms(3) by (rule row_id.dec_enc)
  let ?t = "upsert_sql (stored_row row i) t"
  have inv: "table_inv ?t"
    using assms(1) len by (intro upsert_sql_inv) (simp_all add: db_row_ok_def stored_row_def)
  have "repo_upsert row t = Inr (?t, row)" by (simp add: repo_upsert_def dec stored_row_def)
  moreover have "repo_get (row_id row) ?t = Inr (Some row)"
    using row_of_stored_row [OF assms(3) len]
    by (simp add: repo_get_lookup [OF inv] dec table_lookup_upsert) (simp add: stored_row_def)
  moreover have "repo_get s ?t = repo_get s t" if "decodeRowId s = Inr j" "j \<noteq> i" for s j
    using that by (simp add: repo_get_lookup [OF inv] repo_get_lookup [OF assms(1)]
        table_lookup_upsert) (simp add: stored_row_def)
  ultimately show ?thesis using inv by blast
qed

section \<open>Properties\<close>

text \<open>
  C3: refinement of the repository to a finite map. Whatever sequence of upserts, archives and deletes
  the worker receives on a fresh table, with valid and invalid ids in any order, the row ids stay
  unique and well formed, and the table holds exactly the rows the same sequence leaves in the
  abstract map, where a write with an invalid id does nothing.
\<close>

theorem note_writes_refine:
  "table_inv (fold apply_write ws []) \<and>
   table_lookup (fold apply_write ws []) =
     fold (spec_write db_id archived_flag) (List.map_filter write_command ws) Map.empty"
proof -
  have "table_lookup [] = Map.empty" by (auto simp: table_lookup_def)
  moreover have "table_inv []" by (simp add: table_inv_def)
  ultimately show ?thesis
    using note_rows.writes_refine [OF _ map_filter_write_ok, of "[]" ws]
    by (simp add: fold_apply_write)
qed

text \<open>
  Reading back a write. Upserting a row under a canonical id succeeds and returns the row; a get
  of that id then returns exactly the row written, and a get of any other id is unaffected.
\<close>

theorem upsert_then_get:
  assumes "table_inv t" and "length i = ROW_ID_BYTES" and "encodeRowId i = Inr (row_id row)"
  shows "\<exists>t'. repo_upsert row t = Inr (t', row) \<and> table_inv t' \<and>
    repo_get (row_id row) t' = Inr (Some row) \<and>
    (\<forall>s j. decodeRowId s = Inr j \<longrightarrow> j \<noteq> i \<longrightarrow> repo_get s t' = repo_get s t)"
  using repo_upsert_get [OF assms] .

definition sample_row :: encrypted_note_row where
  "sample_row =
     \<lparr>row_id = js ''00000000000000000000000000'', row_updatedDay = 20000, row_archived = False,
      row_titleNonce = [1], row_titleCiphertext = [2], row_bodyNonce = [3], row_bodyCiphertext = [4]\<rparr>"

definition sample_table :: note_table where
  "sample_table = [stored_row sample_row (replicate 16 7), stored_row sample_row (replicate 16 9)]"

lemma sample_table_inv: "table_inv sample_table"
  by (simp add: sample_table_def table_inv_def db_row_ok_def stored_row_def)

theorem upsert_then_get_witness:
  "\<exists>t'. repo_upsert sample_row sample_table = Inr (t', sample_row) \<and> table_inv t' \<and>
    repo_get (row_id sample_row) t' = Inr (Some sample_row) \<and>
    (\<forall>s j. decodeRowId s = Inr j \<longrightarrow> j \<noteq> replicate 16 0 \<longrightarrow>
       repo_get s t' = repo_get s sample_table)"
proof (rule upsert_then_get)
  show "encodeRowId (replicate 16 0) = Inr (row_id sample_row)"
    by (subst encodeRowId_eq) (simp, code_simp)
qed (simp_all add: sample_table_inv ROW_ID_BYTES_def)

text \<open>
  C5: paging is exact. With \<open>n\<close> the requested limit clamped to 1..200, the first page is the first
  \<open>n\<close> visible rows in descending (day, id) order, the page at the cursor of any row is the \<open>n\<close>
  rows that follow it, and a next cursor, which names the last row of the page, is present exactly
  when rows remain: no row is skipped or repeated.
\<close>

theorem list_pages_exact:
  assumes "table_inv t" and "n = nat (clamp_limit limit)"
  shows "descending (visible inc t) \<and>
    set (visible inc t) = {r \<in> set t. inc \<or> db_archived r = 0} \<and>
    repo_list limit None inc t = Inr (page_from n 0 (visible inc t)) \<and>
    (\<forall>k < length (visible inc t).
       repo_list limit (Some (cursor_of (visible inc t ! k))) inc t =
         Inr (page_from n (Suc k) (visible inc t)))"
proof -
  have "descending (visible inc t)"
    using assms(1) unfolding visible_def table_inv_def
    by (intro descending_order_desc) (simp add: distinct_map inj_on_def)
  moreover have "set (visible inc t) = {r \<in> set t. inc \<or> db_archived r = 0}"
    by (auto simp: visible_def)
  ultimately show ?thesis using assms by (simp add: repo_list_first repo_list_next)
qed

theorem list_pages_exact_witness:
  "repo_list 1 None True sample_table = Inr (page_from 1 0 (visible True sample_table)) \<and>
   length (visible True sample_table) = 2 \<and>
   repo_list 1 (Some (cursor_of (visible True sample_table ! 0))) True sample_table =
     Inr (page_from 1 1 (visible True sample_table))"
proof -
  have "length (visible True sample_table) = 2" by (simp add: visible_def sample_table_def)
  then show ?thesis
    using list_pages_exact [OF sample_table_inv, of 1 1 True] by (simp add: clamp_limit_def)
qed

text \<open>
  What is wrong with an id and with a cursor, said without the loops that find it out: an id has 26
  characters, each of them a Crockford digit in either case; a cursor has a day before its first colon and
  an id from there up to the next one.
\<close>

definition id_complaint :: "jsstring \<Rightarrow> row_id_error option" where
  "id_complaint s =
     (let chars = code_points s
      in if length chars \<noteq> 26 then Some (WrongRowIdLength 26 (length chars))
         else map_option InvalidRowIdChar (find (\<lambda>ch. to_ascii_uppercase ch \<notin> set CROCKFORD) chars))"

definition cursor_complaint :: "jsstring \<Rightarrow> repository_error option" where
  "cursor_complaint c =
     (let day = takeWhile (\<lambda>u. u \<noteq> 58) c;
          lastId = takeWhile (\<lambda>u. u \<noteq> 58) (drop (Suc (length day)) c)
      in if day = [] \<or> lastId = [] then Some (MalformedCursor c)
         else map_option RowIdError (id_complaint lastId))"

lemma position_None: "position c xs = None \<longleftrightarrow> c \<notin> set xs"
  by (induction xs) auto

lemma decodeRowId_complaint:
  "decodeRowId s = Inl e \<longleftrightarrow> id_complaint s = Some e"
  by (auto simp: decodeRowId_def row_decode_def decode_loop_eq id_complaint_def ROW_ID_CHARS_def
      crockford_digit_def position_None Let_def split: option.splits)

lemma split_unit_found:
  assumes "sep \<in> set s"
  shows "split_unit sep s =
    takeWhile (\<lambda>u. u \<noteq> sep) s # split_unit sep (drop (Suc (length (takeWhile (\<lambda>u. u \<noteq> sep) s))) s)"
proof -
  obtain xs ys where s: "s = xs @ sep # ys" "sep \<notin> set xs" using assms by (meson split_list_first)
  then have "takeWhile (\<lambda>u. u \<noteq> sep) s = xs" unfolding s(1) by (subst takeWhile_append2) auto
  with s show ?thesis by (simp add: split_unit_append_sep)
qed

lemma split_unit_head: "\<exists>ps. split_unit sep s = takeWhile (\<lambda>u. u \<noteq> sep) s # ps"
proof (cases "sep \<in> set s")
  case False
  then have all: "takeWhile (\<lambda>u. u \<noteq> sep) s = s" by (subst takeWhile_eq_all_conv) auto
  show ?thesis unfolding all split_unit_no_sep [OF False] by blast
next
  case True
  show ?thesis by (rule exI, rule split_unit_found [OF True])
qed

lemma bind_id_fails: "bind_result (lift_row_id r) (\<lambda>i. Inr (f i)) = Inl e \<longleftrightarrow> lift_row_id r = Inl e"
  by (cases "lift_row_id r") simp_all

lemma cursorWhere_complaint:
  assumes "c \<noteq> []"
  shows "cursorWhere (Some c) = Inl e \<longleftrightarrow> cursor_complaint c = Some e"
proof -
  define day where "day = takeWhile (\<lambda>u. u \<noteq> 58) c"
  define rest where "rest = drop (Suc (length day)) c"
  define lastId where "lastId = takeWhile (\<lambda>u. u \<noteq> 58) rest"
  have complaint: "cursor_complaint c =
      (if day = [] \<or> lastId = [] then Some (MalformedCursor c) else map_option RowIdError (id_complaint lastId))"
    by (simp add: cursor_complaint_def Let_def day_def rest_def lastId_def)
  have parse: "cursorWhere (Some c) =
      (case split_unit 58 c of
         dayStr # lastId # _ \<Rightarrow>
           if dayStr = [] \<or> lastId = [] then Inl (MalformedCursor c)
           else bind_result (lift_row_id (decodeRowId lastId)) (\<lambda>i. Inr (After (parseInt dayStr) i))
       | _ \<Rightarrow> Inl (MalformedCursor c))"
  proof -
    obtain u us where c: "c = u # us" using assms by (cases c) auto
    show ?thesis unfolding c by (simp add: cursorWhere_def del: split_unit.simps)
  qed
  show ?thesis
  proof (cases "58 \<in> set c")
    case True
    obtain ps where "split_unit 58 rest = lastId # ps" unfolding lastId_def by (rule exE [OF split_unit_head])
    then have "split_unit 58 c = day # lastId # ps"
      unfolding rest_def day_def using split_unit_found [OF True] by simp
    then have "cursorWhere (Some c) =
        (if day = [] \<or> lastId = [] then Inl (MalformedCursor c)
         else bind_result (lift_row_id (decodeRowId lastId)) (\<lambda>i. Inr (After (parseInt day) i)))"
      by (simp add: parse)
    moreover have "lift_row_id (decodeRowId lastId) = Inl e \<longleftrightarrow> map_option RowIdError (id_complaint lastId) = Some e"
      using decodeRowId_complaint [of lastId] by (cases "decodeRowId lastId") auto
    ultimately show ?thesis by (simp add: complaint bind_id_fails)
  next
    case False
    then have "day = c" unfolding day_def by (subst takeWhile_eq_all_conv) auto
    moreover from this have "lastId = []" by (simp add: lastId_def rest_def)
    ultimately show ?thesis using False by (simp add: parse complaint split_unit_no_sep)
  qed
qed

text \<open>
  C40: every way the repository's calls can fail, and what they throw. On a well-formed table a get, an
  archive, a delete and an upsert throw exactly when the id is not 26 Crockford digits, with its length or
  its first bad character; a list throws exactly when it has a cursor and that has no day before its first
  colon or no id after it, with the cursor, or when its id is not one, with the id's error.
\<close>

theorem repository_errors:
  assumes "table_inv t"
  shows "(repo_get s t = Inl e \<longleftrightarrow> map_option RowIdError (id_complaint s) = Some e) \<and>
    (repo_archive s t = Inl e \<longleftrightarrow> map_option RowIdError (id_complaint s) = Some e) \<and>
    (repo_delete s t = Inl e \<longleftrightarrow> map_option RowIdError (id_complaint s) = Some e) \<and>
    (repo_upsert row t = Inl e \<longleftrightarrow> map_option RowIdError (id_complaint (row_id row)) = Some e) \<and>
    (repo_list limit cursor inc t = Inl e \<longleftrightarrow>
       (\<exists>c. cursor = Some c \<and> c \<noteq> [] \<and> cursor_complaint c = Some e))"
proof -
  have "length (db_id r) = 16" if "r \<in> set (select_page_sql inc c m t)" for r c m
    using assms in_set_takeD [OF that [unfolded select_page_sql_def]]
    by (auto simp: table_inv_def list_all_iff db_row_ok_def)
  then have dec: "map_result decodeRow (take n (select_page_sql inc c m t)) =
      Inr (map row_of (take n (select_page_sql inc c m t)))" for n c m
    by (intro map_result_Inr decodeRow_row_of) (meson in_set_takeD)
  have list: "repo_list limit cursor inc t = Inl e \<longleftrightarrow> cursorWhere cursor = Inl e"
    by (cases "cursorWhere cursor") (simp_all add: repo_list_def Let_def dec)
  have clause: "cursorWhere cursor = Inl e \<longleftrightarrow> (\<exists>c. cursor = Some c \<and> c \<noteq> [] \<and> cursor_complaint c = Some e)"
  proof (cases cursor)
    case (Some c)
    show ?thesis
    proof (cases "c = []")
      case False
      with Some cursorWhere_complaint [OF False, of e] show ?thesis by simp
    qed (simp add: Some cursorWhere_def)
  qed (simp add: cursorWhere_def)
  have id: "lift_row_id (decodeRowId s) = Inl e \<longleftrightarrow> map_option RowIdError (id_complaint s) = Some e" for s
    using decodeRowId_complaint [of s] by (cases "decodeRowId s") auto
  show ?thesis
    unfolding repo_get_lookup [OF assms] repo_archive_def repo_delete_def repo_upsert_def bind_id_fails list clause id
    by simp
qed

theorem repository_errors_witness:
  "repo_get (js ''short'') sample_table = Inl (RowIdError (WrongRowIdLength 26 5)) \<and>
   repo_list 1 (Some (js ''20000'')) True sample_table = Inl (MalformedCursor (js ''20000''))"
proof -
  have "id_complaint (js ''short'') = Some (WrongRowIdLength 26 5)"
    by (simp add: id_complaint_def high_surrogate_def low_surrogate_def)
  moreover have "cursor_complaint (js ''20000'') = Some (MalformedCursor (js ''20000''))"
    by (simp add: cursor_complaint_def)
  ultimately show ?thesis
    using repository_errors [OF sample_table_inv, of "js ''short''" _ _ 1 "Some (js ''20000'')" True] by simp
qed

end
