(* ===== verification/Rpc.thy ===== *)
theory Rpc
  imports Note_Table
begin

text \<open>
  The request/response channel between the page and the storage worker
  (\<open>packages/storage/src/rpc.ts\<close>): the wire types and the page-side \<open>WorkerClient\<close>. A promise is
  identified by the request id it waits for; \<open>wc_promises\<close> lists the promises \<open>send\<close> handed out and
  \<open>wc_settled\<close> their outcomes. A promise settles at most once: the first outcome stays.
\<close>

section \<open>The wire types\<close>

datatype worker_request =
    RBootstrap
  | RPing
  | RListNotes int "jsstring option" bool
  | RUpsertNote encrypted_note_row
  | RGetNote jsstring
  | RArchiveNote jsstring
  | RDeleteNote jsstring
  | RClose

datatype worker_response =
    SBootstrap int
  | SPing
  | SListNotes "encrypted_note_row list" "jsstring option"
  | SUpsertNote encrypted_note_row
  | SGetNote "encrypted_note_row option"
  | SArchiveNote
  | SDeleteNote
  | SClose

datatype message_kind =
  KBootstrap | KPing | KListNotes | KUpsertNote | KGetNote | KArchiveNote | KDeleteNote | KClose

fun request_kind :: "worker_request \<Rightarrow> message_kind" where
  "request_kind RBootstrap = KBootstrap"
| "request_kind RPing = KPing"
| "request_kind (RListNotes _ _ _) = KListNotes"
| "request_kind (RUpsertNote _) = KUpsertNote"
| "request_kind (RGetNote _) = KGetNote"
| "request_kind (RArchiveNote _) = KArchiveNote"
| "request_kind (RDeleteNote _) = KDeleteNote"
| "request_kind RClose = KClose"

fun response_kind :: "worker_response \<Rightarrow> message_kind" where
  "response_kind (SBootstrap _) = KBootstrap"
| "response_kind SPing = KPing"
| "response_kind (SListNotes _ _) = KListNotes"
| "response_kind (SUpsertNote _) = KUpsertNote"
| "response_kind (SGetNote _) = KGetNote"
| "response_kind SArchiveNote = KArchiveNote"
| "response_kind SDeleteNote = KDeleteNote"
| "response_kind SClose = KClose"

text \<open>The message of an error: the text of one raised in this code, or the error it reports.\<close>

datatype error_text =
    Text jsstring
  | OfRepository repository_error
  | OfOpen jsstring

record client_envelope =
  ce_id :: int
  ce_request :: worker_request

datatype server_envelope =
    Response int worker_response
  | Failure int error_text

definition respond :: "int \<Rightarrow> worker_response \<Rightarrow> server_envelope" where
  "respond i r = Response i r"

definition fail :: "int \<Rightarrow> error_text \<Rightarrow> server_envelope" where
  "fail i m = Failure i m"

fun envelope_id :: "server_envelope \<Rightarrow> int" where
  "envelope_id (Response i _) = i"
| "envelope_id (Failure i _) = i"

type_synonym tx_applied = "jsstring list"

section \<open>WorkerClient\<close>

datatype outcome = Resolved worker_response | Rejected error_text

record worker_client =
  wc_pending :: "int list"
  wc_nextId :: int
  wc_attached :: bool
  wc_promises :: "(int \<times> message_kind) list"
  wc_settled :: "int \<Rightarrow> outcome option"

definition wc_new :: worker_client where
  "wc_new = \<lparr>wc_pending = [], wc_nextId = 1, wc_attached = True, wc_promises = [],
     wc_settled = Map.empty\<rparr>"

definition settle :: "int \<Rightarrow> outcome \<Rightarrow> worker_client \<Rightarrow> worker_client" where
  "settle i v c =
     (if wc_settled c i = None then c\<lparr>wc_settled := (wc_settled c)(i \<mapsto> v)\<rparr> else c)"

definition rejectAll :: "error_text \<Rightarrow> worker_client \<Rightarrow> worker_client" where
  "rejectAll reason c = (fold (\<lambda>i. settle i (Rejected reason)) (wc_pending c) c)\<lparr>wc_pending := []\<rparr>"

definition wc_onError :: "worker_client \<Rightarrow> worker_client" where
  "wc_onError c =
     (if wc_attached c then rejectAll (Text (js ''storage worker error'')) c else c)"

fun wc_onMessage :: "server_envelope \<Rightarrow> worker_client \<Rightarrow> worker_client" where
  "wc_onMessage env c =
     (if wc_attached c \<and> envelope_id env \<in> set (wc_pending c) then
        settle (envelope_id env)
          (case env of Response _ r \<Rightarrow> Resolved r | Failure _ m \<Rightarrow> Rejected m)
          (c\<lparr>wc_pending := removeAll (envelope_id env) (wc_pending c)\<rparr>)
      else c)"

text \<open>
  The synchronous part of \<open>send\<close>. When \<open>postMessage\<close> throws (with the given message), the promise
  executor's exception rejects the promise and the map entry stays behind.
\<close>

definition wc_send ::
  "worker_request \<Rightarrow> error_text option \<Rightarrow> worker_client \<Rightarrow> worker_client \<times> client_envelope" where
  "wc_send request post_error c =
     (let i = wc_nextId c;
          c' = c\<lparr>wc_nextId := i + 1, wc_promises := wc_promises c @ [(i, request_kind request)],
                 wc_pending := wc_pending c @ [i]\<rparr>
      in (case post_error of None \<Rightarrow> c' | Some m \<Rightarrow> settle i (Rejected m) c',
          \<lparr>ce_id = i, ce_request = request\<rparr>))"

text \<open>What the caller of \<open>send\<close> sees once the promise has settled.\<close>

datatype send_error = SendRejected error_text | WrongKind message_kind message_kind

fun send_result :: "message_kind \<Rightarrow> outcome \<Rightarrow> send_error + worker_response" where
  "send_result k (Resolved r) =
     (if response_kind r \<noteq> k then Inl (WrongKind (response_kind r) k) else Inr r)"
| "send_result k (Rejected m) = Inl (SendRejected m)"

definition wc_terminate :: "worker_client \<Rightarrow> worker_client \<times> client_envelope" where
  "wc_terminate c =
     (let i = wc_nextId c
      in (rejectAll (Text (js ''storage worker terminated''))
            (c\<lparr>wc_nextId := i + 1, wc_attached := False\<rparr>),
          \<lparr>ce_id = i, ce_request = RClose\<rparr>))"

section \<open>Runs of a client\<close>

inductive wc_step :: "worker_client \<Rightarrow> worker_client \<Rightarrow> bool" where
  step_send: "wc_step c (fst (wc_send request post_error c))"
| step_message: "wc_step c (wc_onMessage env c)"
| step_error: "wc_step c (wc_onError c)"
| step_terminate: "wc_step c (fst (wc_terminate c))"

inductive_cases wc_stepE: "wc_step c c'"

definition wc_inv :: "worker_client \<Rightarrow> bool" where
  "wc_inv c \<longleftrightarrow>
     distinct (map fst (wc_promises c)) \<and>
     (\<forall>i \<in> fst ` set (wc_promises c). 1 \<le> i \<and> i < wc_nextId c) \<and>
     set (wc_pending c) \<subseteq> fst ` set (wc_promises c) \<and>
     dom (wc_settled c) \<subseteq> fst ` set (wc_promises c) \<and>
     (\<forall>i \<in> fst ` set (wc_promises c). i \<in> set (wc_pending c) \<or> i \<in> dom (wc_settled c)) \<and>
     1 \<le> wc_nextId c"

lemma settle_fields [simp]:
  "wc_pending (settle i v c) = wc_pending c" "wc_nextId (settle i v c) = wc_nextId c"
  "wc_attached (settle i v c) = wc_attached c" "wc_promises (settle i v c) = wc_promises c"
  "dom (wc_settled (settle i v c)) = insert i (dom (wc_settled c))"
  by (auto simp: settle_def)

lemma fold_settle_fields [simp]:
  "wc_pending (fold (\<lambda>i. settle i v) is c) = wc_pending c"
  "wc_nextId (fold (\<lambda>i. settle i v) is c) = wc_nextId c"
  "wc_attached (fold (\<lambda>i. settle i v) is c) = wc_attached c"
  "wc_promises (fold (\<lambda>i. settle i v) is c) = wc_promises c"
  "dom (wc_settled (fold (\<lambda>i. settle i v) is c)) = set is \<union> dom (wc_settled c)"
  by (induction "is" arbitrary: c) auto

lemma rejectAll_inv: "wc_inv c \<Longrightarrow> wc_inv (rejectAll m c)"
  by (auto simp: wc_inv_def rejectAll_def)

lemma wc_send_inv: "wc_inv c \<Longrightarrow> wc_inv (fst (wc_send request e c))"
  by (cases e) (force simp: wc_inv_def wc_send_def Let_def)+

lemma wc_onMessage_inv: "wc_inv c \<Longrightarrow> wc_inv (wc_onMessage env c)"
  by (auto simp: wc_inv_def)

lemma wc_onError_inv: "wc_inv c \<Longrightarrow> wc_inv (wc_onError c)"
  by (simp add: wc_onError_def rejectAll_inv)

lemma wc_terminate_inv: "wc_inv c \<Longrightarrow> wc_inv (fst (wc_terminate c))"
proof -
  assume "wc_inv c"
  then have "wc_inv (c\<lparr>wc_nextId := wc_nextId c + 1, wc_attached := False\<rparr>)"
    by (fastforce simp: wc_inv_def)
  then show ?thesis by (simp add: wc_terminate_def Let_def rejectAll_inv)
qed

interpretation rpc_client: inductive_invariant "\<lambda>c. c = wc_new" wc_step wc_inv
proof (unfold_locales, goal_cases)
  case (1 c)
  then show ?case by (simp add: wc_inv_def wc_new_def)
next
  case (2 c c')
  from 2(2,1) show ?case
    by cases (simp_all add: wc_send_inv wc_onError_inv wc_terminate_inv wc_onMessage_inv del: wc_onMessage.simps)
qed

section \<open>Settlement\<close>

lemma settle_mono: "wc_settled c i = Some v \<Longrightarrow> wc_settled (settle j w c) i = Some v"
  by (auto simp: settle_def)

lemma fold_settle_mono: "wc_settled c i = Some v \<Longrightarrow> wc_settled (fold (\<lambda>j. settle j w) is c) i = Some v"
  by (induction "is" arbitrary: c) (simp_all add: settle_mono)

lemma wc_step_mono:
  assumes "wc_step c c'" and "wc_settled c i = Some v"
  shows "wc_settled c' i = Some v"
  using assms
  by cases
    (simp_all add: wc_send_def wc_onError_def wc_terminate_def rejectAll_def Let_def
      fold_settle_mono settle_mono split: option.splits)

text \<open>
  C10: request/response integrity of the page-side client in every reachable state. Request ids are
  unique, every promise handed out is still registered or already settled (none is forgotten), a
  step never changes the outcome of a settled promise, and a response that arrives for a registered,
  unsettled request settles that request with that response and no other.
\<close>

theorem rpc_settles_once:
  assumes "reach (\<lambda>c. c = wc_new) wc_step c"
  shows "distinct (map fst (wc_promises c)) \<and>
    (\<forall>i \<in> fst ` set (wc_promises c). i \<in> set (wc_pending c) \<or> wc_settled c i \<noteq> None) \<and>
    (\<forall>c' i v. wc_step c c' \<longrightarrow> wc_settled c i = Some v \<longrightarrow> wc_settled c' i = Some v) \<and>
    (\<forall>i r. wc_attached c \<longrightarrow> i \<in> set (wc_pending c) \<longrightarrow> wc_settled c i = None \<longrightarrow>
       wc_settled (wc_onMessage (Response i r) c) = (wc_settled c)(i \<mapsto> Resolved r))"
proof -
  have "wc_inv c" using assms by (rule rpc_client.reach_inv)
  moreover have "wc_settled (wc_onMessage (Response i r) c) = (wc_settled c)(i \<mapsto> Resolved r)"
    if "wc_attached c" "i \<in> set (wc_pending c)" "wc_settled c i = None" for i r
    using that by (simp add: settle_def)
  ultimately show ?thesis
    using wc_step_mono [of c] by (auto simp: wc_inv_def dom_def simp del: wc_onMessage.simps)
qed

theorem rpc_settles_once_witness:
  "wc_settled (wc_onMessage (Response 1 SPing) (fst (wc_send RPing None wc_new))) =
     (wc_settled (fst (wc_send RPing None wc_new)))(1 \<mapsto> Resolved SPing)"
proof -
  have "reach (\<lambda>c. c = wc_new) wc_step (fst (wc_send RPing None wc_new))"
    by (rule reach_step [OF reach_init [of _ wc_new]], rule refl, rule step_send)
  from rpc_settles_once [OF this] show ?thesis
    by (simp add: wc_send_def wc_new_def)
qed

lemma fold_settle_rejects:
  "i \<in> set is \<Longrightarrow> wc_settled c i = None \<Longrightarrow> wc_settled (fold (\<lambda>j. settle j w) is c) i = Some w"
proof (induction "is" arbitrary: c)
  case (Cons j js)
  have "wc_settled (settle j w c) i = (if j = i then Some w else None)"
    using Cons.prems(2) by (simp add: settle_def)
  with Cons show ?case by (cases "j = i") (simp_all add: fold_settle_mono)
qed simp

lemma rejectAll_settles:
  assumes "wc_inv c" and "i \<in> fst ` set (wc_promises c)"
  shows "wc_settled (rejectAll m c) i =
    (case wc_settled c i of Some v \<Rightarrow> Some v | None \<Rightarrow> Some (Rejected m))"
proof (cases "wc_settled c i")
  case None
  with assms have "i \<in> set (wc_pending c)" by (fastforce simp: wc_inv_def)
  with None show ?thesis by (simp add: rejectAll_def fold_settle_rejects)
qed (simp add: rejectAll_def fold_settle_mono)

text \<open>
  C13: no promise is stranded. An error event of the transport, while the client is attached, and
  \<open>terminate\<close> at any time leave no request registered: every promise handed out before has settled,
  and each one that was still open is rejected with the event's own message.
\<close>

theorem rpc_no_stranded_promise:
  assumes "reach (\<lambda>c. c = wc_new) wc_step c" and "i \<in> fst ` set (wc_promises c)"
  shows "(wc_attached c \<longrightarrow>
      wc_pending (wc_onError c) = [] \<and>
      wc_settled (wc_onError c) i =
        (case wc_settled c i of Some v \<Rightarrow> Some v
         | None \<Rightarrow> Some (Rejected (Text (js ''storage worker error''))))) \<and>
    wc_pending (fst (wc_terminate c)) = [] \<and>
    wc_settled (fst (wc_terminate c)) i =
      (case wc_settled c i of Some v \<Rightarrow> Some v
       | None \<Rightarrow> Some (Rejected (Text (js ''storage worker terminated''))))"
proof -
  have inv: "wc_inv c" using assms(1) by (rule rpc_client.reach_inv)
  let ?c = "c\<lparr>wc_nextId := wc_nextId c + 1, wc_attached := False\<rparr>"
  have "wc_inv ?c" using inv by (fastforce simp: wc_inv_def)
  then show ?thesis
    using inv assms(2) rejectAll_settles [of c i] rejectAll_settles [of ?c i]
    by (simp add: wc_onError_def wc_terminate_def Let_def del: js_Cons) (simp add: rejectAll_def)
qed

theorem rpc_no_stranded_promise_witness:
  "wc_settled (wc_onError (fst (wc_send RBootstrap None wc_new))) 1 =
     Some (Rejected (Text (js ''storage worker error'')))"
proof -
  have "reach (\<lambda>c. c = wc_new) wc_step (fst (wc_send RBootstrap None wc_new))"
    by (rule reach_step [OF reach_init [of _ wc_new]], rule refl, rule step_send)
  from rpc_no_stranded_promise [OF this, of 1] show ?thesis
    by (simp add: wc_send_def wc_new_def del: js_Cons)
qed

end
