(* ===== verification/Migrations.thy ===== *)
theory Migrations
  imports Note_Table
begin

text \<open>
  Opening the database: the forward-only migration runner (\<open>packages/storage/src/migrations.ts\<close>),
  the migration list of \<open>crates/repo/src/migrations.rs\<close> and the opener of
  \<open>packages/storage/src/database.ts\<close>. A SQLite handle is its content with, inside a transaction, the
  content to return to on rollback. Every \<open>exec\<close> may throw: the argument \<open>fault\<close> decides it for the
  n-th statement. A single statement that throws changes nothing; a migration script, which holds
  several, may have run in part, and \<open>torn\<close> is whatever content it then leaves.
\<close>

section \<open>A SQLite handle\<close>

datatype sql_value =
    SqlNumber int | SqlReal | SqlBigint int | SqlText jsstring | SqlBlob bytes | SqlNull

record sqlite_content =
  schema_meta :: "(jsstring \<Rightarrow> sql_value option) option"
  notes_table :: "note_table option"

record sqlite_db =
  content :: sqlite_content
  txn :: "sqlite_content option"
  execs :: nat

definition durable :: "sqlite_db \<Rightarrow> sqlite_content" where
  "durable db = (case txn db of Some s \<Rightarrow> s | None \<Rightarrow> content db)"

datatype migration_error =
    SqlFailure
  | CorruptVersion sql_value
  | UnknownSchemaVersion int int

record migration =
  from_version :: int
  to_version :: int
  up_sql :: "sqlite_content \<Rightarrow> sqlite_content"

text \<open>\<open>CREATE TABLE IF NOT EXISTS\<close> for both tables of \<open>SCHEMA_SQL\<close>; the index holds no data.\<close>

definition schema_sql_effect :: "sqlite_content \<Rightarrow> sqlite_content" where
  "schema_sql_effect c =
     c\<lparr>schema_meta := (case schema_meta c of None \<Rightarrow> Some Map.empty | Some m \<Rightarrow> Some m),
       notes_table := (case notes_table c of None \<Rightarrow> Some [] | Some t \<Rightarrow> Some t)\<rparr>"

definition SCHEMA_VERSION :: int where "SCHEMA_VERSION = 1"

definition MIGRATIONS :: "migration list" where
  "MIGRATIONS = [\<lparr>from_version = 0, to_version = 1, up_sql = schema_sql_effect\<rparr>]"

definition pending :: "int \<Rightarrow> migration_error + migration list" where
  "pending current =
     (if current = SCHEMA_VERSION then Inr []
      else case dropWhile (\<lambda>m. from_version m \<noteq> current) MIGRATIONS of
        [] \<Rightarrow> Inl (UnknownSchemaVersion current SCHEMA_VERSION)
      | ms \<Rightarrow> Inr ms)"

text \<open>A number crosses the wasm boundary to a \<open>u32\<close> parameter modulo 2 to the 32.\<close>

definition pendingMigrations :: "int \<Rightarrow> migration_error + migration list" where
  "pendingMigrations n = pending (n mod 2 ^ 32)"

section \<open>readInstalledVersion\<close>

definition version_key :: jsstring where "version_key = js ''version''"

definition digits_only :: "jsstring \<Rightarrow> bool" where
  "digits_only s \<longleftrightarrow> s \<noteq> [] \<and> list_all is_digit s"

text \<open>
  \<open>Number\<close> of an integer is the nearest double, the even one of two that are as near; \<open>ulp\<close> is the distance of
  doubles around \<open>n\<close>. What it makes \<open>Infinity\<close> is a multiple of 2 to the 32 here, so that the wasm boundary
  reads 0 in both cases.
\<close>

fun ulp :: "nat \<Rightarrow> nat" where
  "ulp n = (if n < 2 ^ 53 then 1 else 2 * ulp (n div 2))"

declare ulp.simps [simp del]

definition js_Number :: "nat \<Rightarrow> int" where
  "js_Number n =
     (let u = ulp n; q = n div u; r = n mod u
      in int (u * (if 2 * r < u \<or> 2 * r = u \<and> even q then q else q + 1)))"

fun version_of_value :: "sql_value \<Rightarrow> migration_error + int" where
  "version_of_value (SqlNumber n) = (if 0 \<le> n then Inr n else Inl (CorruptVersion (SqlNumber n)))"
| "version_of_value (SqlBigint n) = (if 0 \<le> n then Inr (js_Number (nat n)) else Inl (CorruptVersion (SqlBigint n)))"
| "version_of_value (SqlText s) =
     (if digits_only s then Inr (js_Number (horner 10 (map digit_value s))) else Inl (CorruptVersion (SqlText s)))"
| "version_of_value v = Inl (CorruptVersion v)"

definition readInstalledVersion :: "sqlite_content \<Rightarrow> migration_error + int" where
  "readInstalledVersion c =
     (case schema_meta c of
        None \<Rightarrow> Inr 0
      | Some m \<Rightarrow> (case m version_key of None \<Rightarrow> Inr 0 | Some v \<Rightarrow> version_of_value v))"

section \<open>applyMigrations\<close>

datatype statement = Begin | Up migration | Stamp int | Commit | Rollback

fun run_statement :: "statement \<Rightarrow> sqlite_db \<Rightarrow> sqlite_db option" where
  "run_statement Begin db = (if txn db = None then Some (db\<lparr>txn := Some (content db)\<rparr>) else None)"
| "run_statement (Up m) db = Some (db\<lparr>content := up_sql m (content db)\<rparr>)"
| "run_statement (Stamp n) db =
     (case schema_meta (content db) of
        None \<Rightarrow> None
      | Some meta \<Rightarrow> Some (db\<lparr>content := (content db)
          \<lparr>schema_meta := Some (meta(version_key \<mapsto> SqlText (show_int n)))\<rparr>\<rparr>))"
| "run_statement Commit db = (if txn db = None then None else Some (db\<lparr>txn := None\<rparr>))"
| "run_statement Rollback db =
     (case txn db of None \<Rightarrow> None | Some s \<Rightarrow> Some (db\<lparr>content := s, txn := None\<rparr>))"

fun torn_by :: "(sqlite_content \<Rightarrow> sqlite_content) \<Rightarrow> statement \<Rightarrow> sqlite_db \<Rightarrow> sqlite_db" where
  "torn_by torn (Up m) db = db\<lparr>content := torn (content db)\<rparr>"
| "torn_by torn _ db = db"

type_synonym faults = "(nat \<Rightarrow> bool) \<times> (sqlite_content \<Rightarrow> sqlite_content)"

definition exec :: "faults \<Rightarrow> statement \<Rightarrow> sqlite_db \<Rightarrow> bool \<times> sqlite_db" where
  "exec fault st db =
     (let db' = db\<lparr>execs := execs db + 1\<rparr>
      in if fst fault (execs db) then (False, torn_by (snd fault) st db')
         else case run_statement st db' of None \<Rightarrow> (False, db') | Some db'' \<Rightarrow> (True, db''))"

text \<open>One migration: \<open>BEGIN\<close>, then the guarded body, with the best-effort rollback.\<close>

definition run_migration :: "faults \<Rightarrow> migration \<Rightarrow> sqlite_db \<Rightarrow> bool \<times> sqlite_db" where
  "run_migration fault m db =
     (case exec fault Begin db of
        (False, db) \<Rightarrow> (False, db)
      | (True, db) \<Rightarrow>
          (let (ok, db) =
             (case exec fault (Up m) db of
                (False, db) \<Rightarrow> (False, db)
              | (True, db) \<Rightarrow>
                  (case exec fault (Stamp (to_version m)) db of
                     (False, db) \<Rightarrow> (False, db)
                   | (True, db) \<Rightarrow> exec fault Commit db))
           in if ok then (True, db) else (False, snd (exec fault Rollback db))))"

fun run_migrations :: "faults \<Rightarrow> migration list \<Rightarrow> sqlite_db \<Rightarrow> bool \<times> sqlite_db" where
  "run_migrations fault [] db = (True, db)"
| "run_migrations fault (m # ms) db =
     (case run_migration fault m db of
        (True, db) \<Rightarrow> run_migrations fault ms db
      | (False, db) \<Rightarrow> (False, db))"

text \<open>The result carries how many wasm \<open>Migration\<close> proxies the outer \<open>finally\<close> has freed.\<close>

definition applyMigrations ::
  "faults \<Rightarrow> sqlite_db \<Rightarrow> (migration_error + unit) \<times> nat \<times> sqlite_db" where
  "applyMigrations fault db =
     (case bind_result (readInstalledVersion (content db)) pendingMigrations of
        Inl e \<Rightarrow> (Inl e, 0, db)
      | Inr ms \<Rightarrow>
          (case run_migrations fault ms db of (ok, db) \<Rightarrow>
             (if ok then Inr () else Inl SqlFailure, length ms, db)))"

text \<open>
  \<open>openOpfsDatabase\<close> and \<open>openInMemoryDatabase\<close>: the library opens the file (\<open>opened\<close> is what it
  finds there, or its error) and the migrations run before the handle is returned.
\<close>

datatype open_error = OpenFailed jsstring | MigrationFailed migration_error

definition openDatabase :: "faults \<Rightarrow> jsstring + sqlite_content \<Rightarrow> open_error + sqlite_db" where
  "openDatabase fault opened =
     (case opened of
        Inl e \<Rightarrow> Inl (OpenFailed e)
      | Inr c \<Rightarrow>
          (case applyMigrations fault \<lparr>content = c, txn = None, execs = 0\<rparr> of
             (Inl e, _, _) \<Rightarrow> Inl (MigrationFailed e)
           | (Inr _, _, db) \<Rightarrow> Inr db))"

section \<open>Atomicity\<close>

definition migrated :: "migration \<Rightarrow> sqlite_content \<Rightarrow> sqlite_content" where
  "migrated m c =
     (let c' = up_sql m c
      in c'\<lparr>schema_meta :=
        map_option (\<lambda>meta. meta(version_key \<mapsto> SqlText (show_int (to_version m)))) (schema_meta c')\<rparr>)"

lemma durable_simps [simp]:
  "txn db = None \<Longrightarrow> durable db = content db"
  "txn db = Some s \<Longrightarrow> durable db = s"
  by (simp_all add: durable_def)

lemma rollback_durable:
  "txn db = Some s \<Longrightarrow> durable (snd (exec fault Rollback db)) = s"
  by (simp add: exec_def Let_def)

lemma run_migration_atomic:
  assumes "txn db = None" and "run_migration fault m db = (ok, db')"
  shows "ok \<Longrightarrow> txn db' = None \<and> content db' = migrated m (content db)"
    and "\<not> ok \<Longrightarrow> durable db' = content db"
  using assms
  by (auto simp: run_migration_def exec_def Let_def migrated_def split: if_splits option.splits)

lemma run_migrations_atomic:
  assumes "txn db = None" and "run_migrations fault ms db = (ok, db')"
  shows "\<exists>k \<le> length ms. durable db' = fold migrated (take k ms) (content db) \<and>
    (ok \<longrightarrow> k = length ms \<and> txn db' = None)"
  using assms
proof (induction ms arbitrary: db)
  case (Cons m ms)
  obtain o1 d1 where one: "run_migration fault m db = (o1, d1)" by fastforce
  note atomic = run_migration_atomic [OF Cons.prems(1) one]
  show ?case
  proof (cases o1)
    case True
    then have "\<exists>k \<le> length ms. durable db' = fold migrated (take k ms) (content d1) \<and>
        (ok \<longrightarrow> k = length ms \<and> txn db' = None)"
      using Cons.IH [of d1] Cons.prems(2) atomic(1) one by simp
    then obtain k where "k \<le> length ms" "durable db' = fold migrated (take k ms) (content d1)"
      "ok \<longrightarrow> k = length ms \<and> txn db' = None" by blast
    with True atomic(1) show ?thesis by (intro exI [of _ "Suc k"]) simp
  next
    case False
    with Cons.prems(2) one atomic(2) show ?thesis by (intro exI [of _ 0]) auto
  qed
qed simp

text \<open>A transaction stays open only if the last statement that was tried, the rollback, failed.\<close>

lemma run_migration_closes:
  assumes "txn db = None" and "run_migration fault m db = (ok, db')"
  shows "txn db' = None \<or> \<not> ok \<and> fst fault (execs db' - 1)"
  using assms
  by (auto simp: run_migration_def exec_def Let_def split: if_splits option.splits)

lemma run_migrations_closes:
  assumes "txn db = None" and "run_migrations fault ms db = (ok, db')"
  shows "txn db' = None \<or> fst fault (execs db' - 1)"
  using assms
proof (induction ms arbitrary: db)
  case (Cons m ms)
  obtain o1 d1 where one: "run_migration fault m db = (o1, d1)" by fastforce
  note closes = run_migration_closes [OF Cons.prems(1) one] and atomic = run_migration_atomic(1) [OF Cons.prems(1) one]
  show ?case using Cons.IH [of d1] Cons.prems(2) closes atomic one by (cases o1) auto
qed simp

section \<open>The installed version\<close>

lemma js_Number_exact: "n < 2 ^ 53 \<Longrightarrow> js_Number n = int n"
  by (simp add: js_Number_def ulp.simps)

text \<open>Above, neighbouring versions are read as one: the wasm boundary then takes this one for 0.\<close>

lemma js_Number_rounds: "js_Number (2 ^ 53 + 1) = 2 ^ 53"
proof -
  have "ulp (2 ^ 53 + 1) = 2" by (subst ulp.simps, subst ulp.simps) simp
  then show ?thesis by (simp add: js_Number_def Let_def)
qed

lemma version_of_show:
  assumes "0 \<le> n" and "n < 2 ^ 53"
  shows "version_of_value (SqlText (show_int n)) = Inr n"
proof -
  have "show_int n = show_nat (nat n)" using assms by (simp add: show_int_def)
  moreover have "digits_only (show_nat (nat n))"
    using show_nat_digits by (auto simp: digits_only_def list_all_iff)
  ultimately show ?thesis
    using assms by (simp add: digit_values_show_nat horner_decimal_digits js_Number_exact nat_less_iff)
qed

lemma pending_cases:
  "pending v = (if v = 1 then Inr [] else if v = 0 then Inr MIGRATIONS
     else Inl (UnknownSchemaVersion v 1))"
  by (simp add: pending_def SCHEMA_VERSION_def MIGRATIONS_def)

lemma readInstalledVersion_migrated:
  "readInstalledVersion (migrated (hd MIGRATIONS) c) = Inr 1"
  using version_of_show [of 1]
  by (simp add: readInstalledVersion_def migrated_def MIGRATIONS_def schema_sql_effect_def
      split: option.splits)

lemma applyMigrations_current:
  assumes "readInstalledVersion (content db) = Inr v" and "v mod 2 ^ 32 = SCHEMA_VERSION"
  shows "applyMigrations fault db = (Inr (), 0, db)"
  using assms by (simp add: applyMigrations_def pendingMigrations_def pending_def)

section \<open>Properties\<close>

text \<open>
  C12: migrations are atomic and leak nothing, whatever statements fail. What survives a crash or a
  rollback is the result of running some prefix of the pending migrations, each with its version
  stamp, even when the rollback itself fails; success means all of them ran, and no transaction is left
  open unless the rollback itself was the statement that failed; every migration proxy is freed; and when the installed version is unreadable or unknown the
  error is returned and the database is untouched.
\<close>

theorem migrations_atomic:
  assumes "txn db = None" and "applyMigrations fault db = (res, freed, db')"
  shows "case bind_result (readInstalledVersion (content db)) pendingMigrations of
      Inl e \<Rightarrow> res = Inl e \<and> db' = db
    | Inr ms \<Rightarrow> freed = length ms \<and>
        (\<exists>k \<le> length ms. durable db' = fold migrated (take k ms) (content db) \<and>
           (res = Inr () \<longrightarrow> k = length ms \<and> txn db' = None)) \<and>
        (txn db' = None \<or> fst fault (execs db' - 1))"
proof (cases "bind_result (readInstalledVersion (content db)) pendingMigrations")
  case (Inl e)
  with assms(2) show ?thesis by (simp add: applyMigrations_def)
next
  case (Inr ms)
  obtain ok d where run: "run_migrations fault ms db = (ok, d)" by fastforce
  with Inr assms(2) have "freed = length ms" "db' = d" "res = Inr () \<longleftrightarrow> ok"
    by (auto simp: applyMigrations_def split: if_splits)
  with run_migrations_atomic [OF assms(1) run] run_migrations_closes [OF assms(1) run] Inr show ?thesis by simp
qed

definition fresh_db :: sqlite_db where
  "fresh_db = \<lparr>content = \<lparr>schema_meta = None, notes_table = None\<rparr>, txn = None, execs = 0\<rparr>"

text \<open>The stamp of the first migration fails: the run is rolled back to the empty database.\<close>

theorem migrations_atomic_witness:
  "\<exists>res freed db'. applyMigrations (\<lambda>n. n = 2, \<lambda>c. c) fresh_db = (res, freed, db') \<and>
     res = Inl SqlFailure \<and> freed = 1 \<and> durable db' = content fresh_db"
proof -
  obtain res freed db' where run: "applyMigrations (\<lambda>n. n = 2, \<lambda>c. c) fresh_db = (res, freed, db')"
    using prod_cases3 by blast
  have pend: "bind_result (readInstalledVersion (content fresh_db)) pendingMigrations = Inr MIGRATIONS"
    by (simp add: fresh_db_def readInstalledVersion_def pendingMigrations_def pending_cases)
  then have res: "res = Inl SqlFailure" "durable db' = content fresh_db"
    using run by (auto simp: applyMigrations_def fresh_db_def MIGRATIONS_def run_migration_def exec_def
        schema_sql_effect_def split: if_splits)
  have "txn fresh_db = None" by (simp add: fresh_db_def)
  from migrations_atomic [OF this run] pend res run show ?thesis by (simp add: MIGRATIONS_def)
qed

text \<open>
  A database that opens is at the current schema version, outside any transaction, and opening it
  again runs nothing. A fresh database opens, with both tables created, whenever no statement fails;
  a database whose version is neither 0 nor current (modulo the 32-bit parameter of the wasm
  function) is refused.
\<close>

theorem open_reaches_current_version:
  "(openDatabase fault (Inr c) = Inr db \<longrightarrow>
      (\<exists>v. readInstalledVersion (content db) = Inr v \<and> v mod 2 ^ 32 = SCHEMA_VERSION) \<and>
      txn db = None \<and> (\<forall>fault'. applyMigrations fault' db = (Inr (), 0, db))) \<and>
   (schema_meta c = None \<longrightarrow> fst fault = (\<lambda>_. False) \<longrightarrow>
      (\<exists>db. openDatabase fault (Inr c) = Inr db \<and> schema_meta (content db) \<noteq> None \<and>
        notes_table (content db) \<noteq> None)) \<and>
   (readInstalledVersion c = Inr v \<longrightarrow> v mod 2 ^ 32 \<notin> {0, SCHEMA_VERSION} \<longrightarrow>
      openDatabase fault (Inr c) = Inl (MigrationFailed (UnknownSchemaVersion (v mod 2 ^ 32) SCHEMA_VERSION)))"
proof (intro conjI impI)
  let ?d = "\<lparr>content = c, txn = None, execs = 0\<rparr>"
  assume "openDatabase fault (Inr c) = Inr db"
  then obtain n where run: "applyMigrations fault ?d = (Inr (), n, db)"
    by (auto simp: openDatabase_def split: prod.splits sum.splits)
  then obtain v where v: "readInstalledVersion c = Inr v" and kn: "v mod 2 ^ 32 \<in> {0, 1}"
    by (auto simp: applyMigrations_def bind_result_def pendingMigrations_def pending_cases
        split: sum.splits if_splits)
  have "(\<exists>v. readInstalledVersion (content db) = Inr v \<and> v mod 2 ^ 32 = SCHEMA_VERSION) \<and> txn db = None"
  proof (cases "v mod 2 ^ 32 = 1")
    case True
    with applyMigrations_current [of ?d v fault] run v show ?thesis by (auto simp: SCHEMA_VERSION_def)
  next
    case False
    with kn v have "bind_result (readInstalledVersion (content ?d)) pendingMigrations = Inr MIGRATIONS"
      by (simp add: pendingMigrations_def pending_cases)
    with run obtain ok where "run_migrations fault MIGRATIONS ?d = (True, db)"
      by (auto simp: applyMigrations_def split: prod.splits if_splits)
    from run_migrations_atomic [OF _ this] have "content db = migrated (hd MIGRATIONS) c" "txn db = None"
      by (auto simp: MIGRATIONS_def)
    then show ?thesis by (simp add: readInstalledVersion_migrated SCHEMA_VERSION_def)
  qed
  then show "(\<exists>v. readInstalledVersion (content db) = Inr v \<and> v mod 2 ^ 32 = SCHEMA_VERSION)"
    and "txn db = None" and "\<forall>fault'. applyMigrations fault' db = (Inr (), 0, db)"
    using applyMigrations_current by auto
next
  assume "schema_meta c = None" and "fst fault = (\<lambda>_. False)"
  then show "\<exists>db. openDatabase fault (Inr c) = Inr db \<and> schema_meta (content db) \<noteq> None \<and>
        notes_table (content db) \<noteq> None"
    by (simp add: openDatabase_def applyMigrations_def readInstalledVersion_def
        pendingMigrations_def pending_cases MIGRATIONS_def run_migration_def exec_def
        schema_sql_effect_def split: option.splits)
next
  assume "readInstalledVersion c = Inr v" and "v mod 2 ^ 32 \<notin> {0, SCHEMA_VERSION}"
  then show "openDatabase fault (Inr c) =
      Inl (MigrationFailed (UnknownSchemaVersion (v mod 2 ^ 32) SCHEMA_VERSION))"
    by (simp add: openDatabase_def applyMigrations_def pendingMigrations_def pending_cases SCHEMA_VERSION_def)
qed

theorem open_reaches_current_version_witness:
  "\<exists>db. openDatabase (\<lambda>_. False, \<lambda>c. c) (Inr (content fresh_db)) = Inr db \<and>
     schema_meta (content db) \<noteq> None \<and> notes_table (content db) \<noteq> None"
  using open_reaches_current_version [of "(\<lambda>_. False, \<lambda>c. c)" "content fresh_db" fresh_db 0]
  by (simp add: fresh_db_def)

end
