(* ===== verification/Worker.thy ===== *)
theory Worker
  imports Rpc Migrations "HOL-Library.Multiset"
begin

text \<open>
  The storage worker: the dispatcher of \<open>worker-handlers.ts\<close>, the message loop of \<open>connection.ts\<close>
  and the two entries \<open>db-worker.ts\<close> (one connection) and \<open>db-shared-worker.ts\<close> (one per tab). The
  database is opened by the first request that needs it; a request that arrives meanwhile starts an
  opening of its own and is parked until it ends. Writes are broadcast as \<open>tx-applied\<close> on the
  channel of \<open>multi-tab.ts\<close>. All openings are of the one OPFS file, whose rows are \<open>sw_table\<close>.
\<close>

section \<open>The handlers\<close>

definition lift_repository :: "repository_error + 'a \<Rightarrow> error_text + 'a" where
  "lift_repository r = (case r of Inl e \<Rightarrow> Inl (OfRepository e) | Inr x \<Rightarrow> Inr x)"

lemma lift_repository_simps [simp]:
  "lift_repository (Inl e) = Inl (OfRepository e)" "lift_repository (Inr x) = Inr x"
  by (simp_all add: lift_repository_def)

type_synonym handled = "note_table \<times> tx_applied list \<times> (error_text + worker_response)"

definition needs_db :: "worker_request \<Rightarrow> bool" where
  "needs_db req \<longleftrightarrow> req \<noteq> RPing \<and> req \<noteq> RClose"

fun handle :: "worker_request \<Rightarrow> note_table \<Rightarrow> handled" where
  "handle RPing t = (t, [], Inr SPing)"
| "handle RBootstrap t = (t, [], Inr (SBootstrap SCHEMA_VERSION))"
| "handle (RListNotes limit cursor includeArchived) t =
     (t, [], bind_result (lift_repository (repo_list limit cursor includeArchived t))
        (\<lambda>page. Inr (SListNotes (page_rows page) (page_nextCursor page))))"
| "handle (RUpsertNote row) t =
     (case repo_upsert row t of
        Inl e \<Rightarrow> (t, [], Inl (OfRepository e))
      | Inr (t', r) \<Rightarrow> (t', [[row_id r]], Inr (SUpsertNote r)))"
| "handle (RGetNote i) t =
     (t, [], bind_result (lift_repository (repo_get i t)) (\<lambda>r. Inr (SGetNote r)))"
| "handle (RArchiveNote i) t =
     (case repo_archive i t of
        Inl e \<Rightarrow> (t, [], Inl (OfRepository e))
      | Inr t' \<Rightarrow> (t', [[i]], Inr SArchiveNote))"
| "handle (RDeleteNote i) t =
     (case repo_delete i t of
        Inl e \<Rightarrow> (t, [], Inl (OfRepository e))
      | Inr t' \<Rightarrow> (t', [[i]], Inr SDeleteNote))"
| "handle RClose t = (t, [], Inr SClose)"

section \<open>Connections\<close>

record storage_worker =
  sw_opened :: bool
  sw_table :: note_table
  sw_parked :: "(nat \<times> int \<times> worker_request) list"
  sw_ports :: "nat list"
  sw_out :: "(nat \<times> server_envelope) list"
  sw_tx :: "tx_applied list"
  sw_received :: "(nat \<times> int) list"

definition sw_new :: "note_table \<Rightarrow> storage_worker" where
  "sw_new t = \<lparr>sw_opened = False, sw_table = t, sw_parked = [], sw_ports = [], sw_out = [],
     sw_tx = [], sw_received = []\<rparr>"

text \<open>\<open>new Connection(port, dispatch)\<close>; a dedicated worker connects once, to \<open>self\<close>.\<close>

definition sw_connect :: "nat \<Rightarrow> storage_worker \<Rightarrow> storage_worker" where
  "sw_connect p w =
     (if p \<in> set (sw_ports w) \<or> p \<in> fst ` set (sw_received w) then w
      else w\<lparr>sw_ports := sw_ports w @ [p]\<rparr>)"

text \<open>A post on a closed port goes nowhere.\<close>

definition sw_post :: "nat \<Rightarrow> server_envelope \<Rightarrow> storage_worker \<Rightarrow> storage_worker" where
  "sw_post p env w = (if p \<in> set (sw_ports w) then w\<lparr>sw_out := sw_out w @ [(p, env)]\<rparr> else w)"

definition sw_dispose :: "nat \<Rightarrow> storage_worker \<Rightarrow> storage_worker" where
  "sw_dispose p w = w\<lparr>sw_ports := removeAll p (sw_ports w)\<rparr>"

text \<open>The continuation of \<open>dispatch(request)\<close>: respond and dispose on close, or report the error.\<close>

definition sw_settle ::
  "nat \<Rightarrow> int \<Rightarrow> worker_request \<Rightarrow> error_text + worker_response \<Rightarrow> storage_worker \<Rightarrow> storage_worker" where
  "sw_settle p i req result w =
     (case result of
        Inr r \<Rightarrow>
          (let w' = sw_post p (respond i r) w
           in if request_kind req = KClose then sw_dispose p w' else w')
      | Inl m \<Rightarrow> sw_post p (fail i m) w)"

definition sw_run :: "nat \<Rightarrow> int \<Rightarrow> worker_request \<Rightarrow> storage_worker \<Rightarrow> storage_worker" where
  "sw_run p i req w =
     (case handle req (sw_table w) of (t, tx, result) \<Rightarrow>
        sw_settle p i req result (w\<lparr>sw_table := t, sw_tx := sw_tx w @ tx\<rparr>))"

definition sw_receive :: "nat \<Rightarrow> client_envelope \<Rightarrow> storage_worker \<Rightarrow> storage_worker" where
  "sw_receive p env w =
     (if p \<notin> set (sw_ports w) then w
      else
        let i = ce_id env; req = ce_request env;
            w' = w\<lparr>sw_received := sw_received w @ [(p, i)]\<rparr>
        in if needs_db req \<and> \<not> sw_opened w'
           then w'\<lparr>sw_parked := sw_parked w' @ [(p, i, req)]\<rparr>
           else sw_run p i req w')"

text \<open>The opening started for the n-th parked request ends, with an error or with the database.\<close>

definition sw_open_done :: "nat \<Rightarrow> jsstring option \<Rightarrow> storage_worker \<Rightarrow> storage_worker" where
  "sw_open_done n err w =
     (if length (sw_parked w) \<le> n then w
      else
        case sw_parked w ! n of (p, i, req) \<Rightarrow>
          let w' = w\<lparr>sw_parked := take n (sw_parked w) @ drop (Suc n) (sw_parked w)\<rparr>
          in case err of
               Some e \<Rightarrow> sw_settle p i req (Inl (OfOpen e)) w'
             | None \<Rightarrow> sw_run p i req (w'\<lparr>sw_opened := True\<rparr>))"

inductive sw_step :: "storage_worker \<Rightarrow> storage_worker \<Rightarrow> bool" where
  sw_step_connect: "sw_step w (sw_connect p w)"
| sw_step_receive: "sw_step w (sw_receive p env w)"
| sw_step_open: "sw_step w (sw_open_done n err w)"

section \<open>The handlers' contract\<close>

definition is_write :: "worker_request \<Rightarrow> bool" where
  "is_write req \<longleftrightarrow> request_kind req \<in> {KUpsertNote, KArchiveNote, KDeleteNote}"

fun write_of :: "worker_request \<Rightarrow> note_write option" where
  "write_of (RUpsertNote row) = Some (WUpsert row)"
| "write_of (RArchiveNote i) = Some (WArchive i)"
| "write_of (RDeleteNote i) = Some (WDelete i)"
| "write_of _ = None"

lemma handle_apply_write:
  "fst (handle req t) = (case write_of req of None \<Rightarrow> t | Some w \<Rightarrow> apply_write w t)"
  by (cases req) (auto split: sum.splits)

lemma apply_write_inv: "table_inv t \<Longrightarrow> table_inv (apply_write w t)"
  by (simp add: apply_write_command write_command_ok note_rows.write_refines(1) split: option.splits)

lemma handle_inv: "table_inv t \<Longrightarrow> table_inv (fst (handle req t))"
  by (simp add: handle_apply_write apply_write_inv split: option.splits)

lemma handle_kind:
  "snd (snd (handle req t)) = Inr r \<Longrightarrow> response_kind r = request_kind req"
  by (cases req) (auto simp: bind_result_def split: sum.splits)

lemma handle_tx:
  "fst (snd (handle req t)) \<noteq> [] \<longleftrightarrow> is_write req \<and> (\<exists>r. snd (snd (handle req t)) = Inr r)"
  by (cases req) (auto simp: is_write_def split: sum.splits)

lemma handle_unchanged: "fst (snd (handle req t)) = [] \<Longrightarrow> fst (handle req t) = t"
  by (cases req) (auto split: sum.splits)

section \<open>Every request is answered once\<close>

definition posted_ids :: "nat \<Rightarrow> storage_worker \<Rightarrow> int multiset" where
  "posted_ids p w = mset (map (\<lambda>(_, env). envelope_id env) (filter (\<lambda>(q, _). q = p) (sw_out w)))"

definition parked_ids :: "nat \<Rightarrow> storage_worker \<Rightarrow> int multiset" where
  "parked_ids p w = mset (map (\<lambda>(_, i, _). i) (filter (\<lambda>(q, _). q = p) (sw_parked w)))"

definition received_ids :: "nat \<Rightarrow> storage_worker \<Rightarrow> int multiset" where
  "received_ids p w = mset (map snd (filter (\<lambda>(q, _). q = p) (sw_received w)))"

definition sw_inv :: "storage_worker \<Rightarrow> bool" where
  "sw_inv w \<longleftrightarrow>
     table_inv (sw_table w) \<and>
     (\<forall>(p, i, req) \<in> set (sw_parked w). request_kind req \<noteq> KClose \<and> p \<in> fst ` set (sw_received w)) \<and>
     (\<forall>(p, env) \<in> set (sw_out w). p \<in> fst ` set (sw_received w)) \<and>
     (\<forall>p \<in> set (sw_ports w). received_ids p w = posted_ids p w + parked_ids p w)"

lemmas sw_ids_defs = posted_ids_def parked_ids_def received_ids_def

lemma sw_ids_update [simp]:
  "posted_ids p (w\<lparr>sw_ports := ps\<rparr>) = posted_ids p w"
  "parked_ids p (w\<lparr>sw_ports := ps\<rparr>) = parked_ids p w"
  "received_ids p (w\<lparr>sw_ports := ps\<rparr>) = received_ids p w"
  "posted_ids p (w\<lparr>sw_parked := xs\<rparr>) = posted_ids p w"
  "received_ids p (w\<lparr>sw_parked := xs\<rparr>) = received_ids p w"
  "posted_ids p (w\<lparr>sw_opened := b\<rparr>) = posted_ids p w"
  "parked_ids p (w\<lparr>sw_opened := b\<rparr>) = parked_ids p w"
  "received_ids p (w\<lparr>sw_opened := b\<rparr>) = received_ids p w"
  by (simp_all add: sw_ids_defs)

lemma sw_settle_fields [simp]:
  "sw_parked (sw_settle p i req result w) = sw_parked w"
  "sw_table (sw_settle p i req result w) = sw_table w"
  "sw_received (sw_settle p i req result w) = sw_received w"
  "sw_tx (sw_settle p i req result w) = sw_tx w"
  by (simp_all add: sw_settle_def sw_post_def sw_dispose_def Let_def split: sum.splits)

text \<open>A request taken out of the received ones and not yet answered is answered by \<open>sw_settle\<close>.\<close>

definition owed :: "nat \<Rightarrow> int \<Rightarrow> storage_worker \<Rightarrow> bool" where
  "owed p i w \<longleftrightarrow>
     table_inv (sw_table w) \<and> p \<in> fst ` set (sw_received w) \<and>
     (\<forall>(p, i, req) \<in> set (sw_parked w). request_kind req \<noteq> KClose \<and> p \<in> fst ` set (sw_received w)) \<and>
     (\<forall>(p, env) \<in> set (sw_out w). p \<in> fst ` set (sw_received w)) \<and>
     (\<forall>q \<in> set (sw_ports w). received_ids q w =
        posted_ids q w + parked_ids q w + (if q = p then {#i#} else {#}))"

lemma sw_post_owed:
  assumes "owed p i w" and "envelope_id env = i"
  shows "sw_inv (sw_post p env w)"
  using assms by (auto simp: owed_def sw_inv_def sw_post_def sw_ids_defs)

lemma sw_dispose_inv: "sw_inv w \<Longrightarrow> sw_inv (sw_dispose p w)"
  by (simp add: sw_inv_def sw_dispose_def sw_ids_defs)

lemma sw_settle_owed: "owed p i w \<Longrightarrow> sw_inv (sw_settle p i req result w)"
  by (simp add: sw_settle_def Let_def sw_post_owed sw_dispose_inv respond_def fail_def
      split: sum.splits)

lemma sw_run_owed: "owed p i w \<Longrightarrow> sw_inv (sw_run p i req w)"
proof -
  assume owed: "owed p i w"
  obtain t tx result where h: "handle req (sw_table w) = (t, tx, result)" using prod_cases3 by blast
  have "table_inv t" using handle_inv [of "sw_table w" req] owed h by (simp add: owed_def)
  with owed have "owed p i (w\<lparr>sw_table := t, sw_tx := sw_tx w @ tx\<rparr>)"
    by (simp add: owed_def sw_ids_defs)
  with h show ?thesis by (simp add: sw_run_def sw_settle_owed)
qed

lemma sw_connect_inv: "sw_inv w \<Longrightarrow> sw_inv (sw_connect p w)"
proof -
  assume inv: "sw_inv w"
  have "posted_ids p w = {#}" "parked_ids p w = {#}" "received_ids p w = {#}"
    if "p \<notin> fst ` set (sw_received w)"
    using inv that by (force simp: sw_inv_def sw_ids_defs filter_empty_conv)+
  with inv show ?thesis by (simp add: sw_connect_def sw_inv_def)
qed

lemma sw_receive_inv: "sw_inv w \<Longrightarrow> sw_inv (sw_receive p env w)"
proof -
  assume inv: "sw_inv w"
  let ?w = "w\<lparr>sw_received := sw_received w @ [(p, ce_id env)]\<rparr>"
  show ?thesis
  proof (cases "p \<in> set (sw_ports w)")
    case True
    with inv have owed: "owed p (ce_id env) ?w"
      by (auto simp: sw_inv_def owed_def sw_ids_defs)
    show ?thesis
    proof (cases "needs_db (ce_request env) \<and> \<not> sw_opened w")
      case park: True
      then have "request_kind (ce_request env) \<noteq> KClose" by (cases "ce_request env") (auto simp: needs_db_def)
      with park True owed show ?thesis
        by (auto simp: sw_receive_def Let_def owed_def sw_inv_def sw_ids_defs)
    next
      case False
      with True sw_run_owed [OF owed] show ?thesis by (auto simp: sw_receive_def Let_def)
    qed
  qed (use inv in \<open>simp add: sw_receive_def\<close>)
qed

lemma sw_open_done_inv: "sw_inv w \<Longrightarrow> sw_inv (sw_open_done n err w)"
proof (cases "n < length (sw_parked w)")
  case True
  assume inv: "sw_inv w"
  obtain p i req where nth: "sw_parked w ! n = (p, i, req)" using prod_cases3 by blast
  let ?w = "w\<lparr>sw_parked := take n (sw_parked w) @ drop (Suc n) (sw_parked w)\<rparr>"
  have split: "sw_parked w = take n (sw_parked w) @ (p, i, req) # drop (Suc n) (sw_parked w)"
    using id_take_nth_drop [OF True] nth by simp
  have "parked_ids q w = parked_ids q ?w + (if q = p then {#i#} else {#})" for q
    unfolding parked_ids_def by (subst split) simp
  then have "\<forall>q \<in> set (sw_ports w). received_ids q ?w =
      posted_ids q ?w + parked_ids q ?w + (if q = p then {#i#} else {#})"
    using inv by (simp add: sw_inv_def add.assoc)
  moreover have "set (sw_parked ?w) \<subseteq> set (sw_parked w)" and "(p, i, req) \<in> set (sw_parked w)"
    by (simp add: set_take_subset set_drop_subset, metis True nth nth_mem)
  ultimately have owed: "owed p i ?w"
    using inv unfolding sw_inv_def owed_def by (auto simp del: set_append)
  then have "owed p i (?w\<lparr>sw_opened := True\<rparr>)" by (simp add: owed_def)
  with owed True nth show ?thesis
    by (simp add: sw_open_done_def Let_def sw_settle_owed sw_run_owed split: option.splits)
qed (simp add: sw_open_done_def)

interpretation worker: inductive_invariant "\<lambda>w. \<exists>t. table_inv t \<and> w = sw_new t" sw_step sw_inv
proof (unfold_locales, goal_cases)
  case (1 w)
  then show ?case by (auto simp: sw_inv_def sw_new_def sw_ids_defs)
next
  case (2 w w')
  from 2(2,1) show ?case
    by cases (simp_all add: sw_connect_inv sw_receive_inv sw_open_done_inv)
qed

section \<open>Properties\<close>

text \<open>
  The contract of every handler on every request. The table invariant is kept; a successful
  response has the kind of its request, so the client's kind check never fails; the table changes
  only together with a \<open>tx-applied\<close> broadcast, and one is sent exactly for a write that succeeded.
\<close>

theorem handler_contract:
  assumes "table_inv t" and "handle req t = (t', tx, result)"
  shows "table_inv t' \<and> (tx = [] \<longrightarrow> t' = t) \<and>
    (tx \<noteq> [] \<longleftrightarrow> is_write req \<and> (\<exists>r. result = Inr r)) \<and>
    (\<forall>r. result = Inr r \<longrightarrow> response_kind r = request_kind req)"
  using handle_inv [OF assms(1), of req] handle_unchanged [of req t] handle_tx [of req t]
    handle_kind [of req t] assms(2) by simp

theorem handler_contract_witness:
  "\<exists>t' tx result. handle (RUpsertNote sample_row) sample_table = (t', tx, result) \<and>
     table_inv t' \<and> (tx \<noteq> [] \<longleftrightarrow> (\<exists>r. result = Inr r))"
proof -
  obtain t' tx result where h: "handle (RUpsertNote sample_row) sample_table = (t', tx, result)"
    using prod_cases3 by blast
  from handler_contract [OF sample_table_inv h] h show ?thesis by (auto simp: is_write_def)
qed

text \<open>
  C17: the worker answers every request exactly once. In every reachable state, with any number of
  connections, openings of the database that succeed or fail in any order and requests arriving
  meanwhile, the ids received on an open connection are exactly the ids answered on it and the ids
  still waiting for the database; once no opening is outstanding every request has one answer.
\<close>

theorem worker_answers_once:
  assumes "reach (\<lambda>w. \<exists>t. table_inv t \<and> w = sw_new t) sw_step w" and "p \<in> set (sw_ports w)"
  shows "table_inv (sw_table w) \<and> received_ids p w = posted_ids p w + parked_ids p w"
  using worker.reach_inv [OF assms(1)] assms(2) by (simp add: sw_inv_def)

definition sample_worker :: storage_worker where
  "sample_worker = sw_receive 0 \<lparr>ce_id = 1, ce_request = RBootstrap\<rparr> (sw_connect 0 (sw_new []))"

theorem worker_answers_once_witness:
  "received_ids 0 sample_worker = posted_ids 0 sample_worker + parked_ids 0 sample_worker \<and>
   parked_ids 0 sample_worker = {#1#}"
proof -
  have "reach (\<lambda>w. \<exists>t. table_inv t \<and> w = sw_new t) sw_step (sw_new [])"
    by (intro reach_init exI [of _ "[]"]) (simp add: table_inv_def)
  then have "reach (\<lambda>w. \<exists>t. table_inv t \<and> w = sw_new t) sw_step sample_worker"
    unfolding sample_worker_def by (meson reach_step sw_step_connect sw_step_receive)
  moreover have "0 \<in> set (sw_ports sample_worker)" and "parked_ids 0 sample_worker = {#1#}"
    by (simp_all add: sample_worker_def sw_receive_def sw_connect_def sw_new_def needs_db_def
        parked_ids_def)
  ultimately show ?thesis using worker_answers_once by blast
qed

end
