(* ===== verification/Repo.thy ===== *)
theory Repo
  imports Worker
begin

text \<open>
  The page side of the storage layer: the field codec (\<open>row-codec.ts\<close>, with the associated data of
  \<open>crates/repo/src/codec.rs\<close>) and the plaintext \<open>Repo\<close> (\<open>repo.ts\<close>) over it and the
  RPC. The vault is a third party: its \<open>encrypt\<close> and
  \<open>decrypt\<close> (of nonce, associated data and text) are arguments, and \<open>aead_correct\<close> is what an
  authenticated cipher documents. Random bytes and the clock are arguments too.
\<close>

section \<open>The field codec\<close>

type_synonym 'e cipher = "bytes \<Rightarrow> bytes \<Rightarrow> bytes \<Rightarrow> 'e + bytes"

record 'e vault =
  vault_encrypt :: "'e cipher"
  vault_decrypt :: "'e cipher"

definition ROW_AAD :: jsstring where "ROW_AAD = js ''opfs-webauthn/v1/note-row''"

text \<open>\<open>aad_for\<close>: the UTF-8 bytes of \<open>ROW_AAD / field / row_id\<close>.\<close>

definition aadFor :: "jsstring \<Rightarrow> jsstring \<Rightarrow> bytes" where
  "aadFor rowId field = text_encode ROW_AAD @ 47 # text_encode field @ 47 # text_encode rowId"

record encrypted_field =
  field_nonce :: bytes
  field_ciphertext :: bytes

datatype 'e repo_error =
    VaultError 'e
  | InvalidUtf8
  | RepoRowId row_id_error
  | RepoSend send_error

definition AES_GCM_NONCE_LEN :: nat where "AES_GCM_NONCE_LEN = 12"

definition freshNonce :: "bytes \<Rightarrow> bytes" where
  "freshNonce random = take AES_GCM_NONCE_LEN random"

definition lift_vault :: "'e + 'a \<Rightarrow> 'e repo_error + 'a" where
  "lift_vault r = (case r of Inl e \<Rightarrow> Inl (VaultError e) | Inr x \<Rightarrow> Inr x)"

lemma lift_vault_simps [simp]:
  "lift_vault (Inl e) = Inl (VaultError e)" "lift_vault (Inr x) = Inr x"
  by (simp_all add: lift_vault_def)

definition encryptField ::
  "'e vault \<Rightarrow> bytes \<Rightarrow> jsstring \<Rightarrow> jsstring \<Rightarrow> jsstring \<Rightarrow> 'e repo_error + encrypted_field" where
  "encryptField vault random rowId field plaintext =
     (let nonce = freshNonce random; aad = aadFor rowId field in
      bind_result (lift_vault (vault_encrypt vault nonce aad (text_encode plaintext)))
        (\<lambda>ciphertext. Inr \<lparr>field_nonce = nonce, field_ciphertext = ciphertext\<rparr>))"

definition decryptField ::
  "'e vault \<Rightarrow> jsstring \<Rightarrow> jsstring \<Rightarrow> encrypted_field \<Rightarrow> 'e repo_error + jsstring" where
  "decryptField vault rowId field enc =
     bind_result
       (lift_vault (vault_decrypt vault (field_nonce enc) (aadFor rowId field) (field_ciphertext enc)))
       (\<lambda>bs. case text_decode_fatal bs of None \<Rightarrow> Inl InvalidUtf8 | Some s \<Rightarrow> Inr s)"

section \<open>Repo\<close>

definition SECONDS_PER_DAY :: int where "SECONDS_PER_DAY = 86400"

definition todayDayBucket :: "int \<Rightarrow> int" where
  "todayDayBucket now_ms = now_ms div (1000 * SECONDS_PER_DAY)"

definition TITLE_FIELD :: jsstring where "TITLE_FIELD = js ''title''"
definition BODY_FIELD :: jsstring where "BODY_FIELD = js ''body''"

record plain_note =
  note_id :: jsstring
  note_title :: jsstring
  note_body :: jsstring
  note_updatedDay :: int
  note_archived :: bool

record note_input =
  input_id :: "jsstring option"
  input_title :: jsstring
  input_body :: jsstring

text \<open>The random bytes of one call: for a new row id, for the title's nonce and for the body's.\<close>

record entropy =
  id_random :: bytes
  title_random :: bytes
  body_random :: bytes

definition entropy_ok :: "entropy \<Rightarrow> bool" where
  "entropy_ok r \<longleftrightarrow> length (id_random r) = 16 \<and> length (title_random r) = 12 \<and> length (body_random r) = 12"

definition encryptNote ::
  "'e vault \<Rightarrow> entropy \<Rightarrow> jsstring \<Rightarrow> int \<Rightarrow> jsstring \<Rightarrow> jsstring \<Rightarrow> 'e repo_error + encrypted_note_row" where
  "encryptNote vault r i day title body =
     bind_result (encryptField vault (title_random r) i TITLE_FIELD title) (\<lambda>t.
     bind_result (encryptField vault (body_random r) i BODY_FIELD body) (\<lambda>b.
       Inr \<lparr>row_id = i, row_updatedDay = day, row_archived = False,
            row_titleNonce = field_nonce t, row_titleCiphertext = field_ciphertext t,
            row_bodyNonce = field_nonce b, row_bodyCiphertext = field_ciphertext b\<rparr>))"

definition decryptRow :: "'e vault \<Rightarrow> encrypted_note_row \<Rightarrow> 'e repo_error + plain_note" where
  "decryptRow vault row =
     bind_result (decryptField vault (row_id row) TITLE_FIELD
       \<lparr>field_nonce = row_titleNonce row, field_ciphertext = row_titleCiphertext row\<rparr>) (\<lambda>title.
     bind_result (decryptField vault (row_id row) BODY_FIELD
       \<lparr>field_nonce = row_bodyNonce row, field_ciphertext = row_bodyCiphertext row\<rparr>) (\<lambda>body.
       Inr \<lparr>note_id = row_id row, note_title = title, note_body = body,
            note_updatedDay = row_updatedDay row, note_archived = row_archived row\<rparr>))"

text \<open>
  \<open>this.#client.send\<close> against the worker, one call at a time: the request is handled, its result
  comes back as a settled promise and passes the kind check.
\<close>

definition client_send ::
  "worker_request \<Rightarrow> note_table \<Rightarrow> note_table \<times> tx_applied list \<times> (send_error + worker_response)" where
  "client_send req t =
     (case handle req t of (t', tx, result) \<Rightarrow>
        (t', tx, send_result (request_kind req)
           (case result of Inl m \<Rightarrow> Rejected m | Inr r \<Rightarrow> Resolved r)))"

definition lift_send :: "send_error + 'a \<Rightarrow> 'e repo_error + 'a" where
  "lift_send r = (case r of Inl e \<Rightarrow> Inl (RepoSend e) | Inr x \<Rightarrow> Inr x)"

lemma lift_send_simps [simp]:
  "lift_send (Inl e) = Inl (RepoSend e)" "lift_send (Inr x) = Inr x"
  by (simp_all add: lift_send_def)

definition repo_bootstrap :: "note_table \<Rightarrow> note_table \<times> tx_applied list \<times> ('e repo_error + unit)" where
  "repo_bootstrap t =
     (case client_send RBootstrap t of (t', tx, r) \<Rightarrow> (t', tx, bind_result (lift_send r) (\<lambda>_. Inr ())))"

definition repo_listNotes ::
  "'e vault \<Rightarrow> int option \<Rightarrow> jsstring option \<Rightarrow> bool option \<Rightarrow> note_table
    \<Rightarrow> 'e repo_error + plain_note list \<times> jsstring option" where
  "repo_listNotes vault limit cursor includeArchived t =
     (case client_send
             (RListNotes (case limit of None \<Rightarrow> 50 | Some l \<Rightarrow> l) cursor
               (case includeArchived of None \<Rightarrow> False | Some b \<Rightarrow> b)) t of
        (_, _, r) \<Rightarrow>
          bind_result (lift_send r) (\<lambda>res. case res of
            SListNotes rows next \<Rightarrow>
              bind_result (map_result (decryptRow vault) rows) (\<lambda>notes. Inr (notes, next))
          | _ \<Rightarrow> Inr ([], None)))"

definition repo_upsertNote ::
  "'e vault \<Rightarrow> int \<Rightarrow> entropy \<Rightarrow> note_input \<Rightarrow> note_table
    \<Rightarrow> note_table \<times> tx_applied list \<times> ('e repo_error + plain_note)" where
  "repo_upsertNote vault now r input t =
     (case (case input_id input of
              Some i \<Rightarrow> Inr i
            | None \<Rightarrow> (case generateRowId (id_random r) of Inl e \<Rightarrow> Inl (RepoRowId e) | Inr i \<Rightarrow> Inr i)) of
        Inl e \<Rightarrow> (t, [], Inl e)
      | Inr i \<Rightarrow>
          (case encryptNote vault r i (todayDayBucket now) (input_title input) (input_body input) of
             Inl e \<Rightarrow> (t, [], Inl e)
           | Inr row \<Rightarrow>
               (case client_send (RUpsertNote row) t of (t', tx, res) \<Rightarrow>
                  (t', tx, bind_result (lift_send res) (\<lambda>_.
                     Inr \<lparr>note_id = i, note_title = input_title input, note_body = input_body input,
                          note_updatedDay = todayDayBucket now, note_archived = False\<rparr>)))))"

definition repo_getNote :: "'e vault \<Rightarrow> jsstring \<Rightarrow> note_table \<Rightarrow> 'e repo_error + plain_note option" where
  "repo_getNote vault i t =
     (case client_send (RGetNote i) t of (_, _, r) \<Rightarrow>
        bind_result (lift_send r) (\<lambda>res. case res of
          SGetNote (Some row) \<Rightarrow> bind_result (decryptRow vault row) (\<lambda>n. Inr (Some n))
        | _ \<Rightarrow> Inr None))"

definition repo_archiveNote ::
  "jsstring \<Rightarrow> note_table \<Rightarrow> note_table \<times> tx_applied list \<times> ('e repo_error + unit)" where
  "repo_archiveNote i t =
     (case client_send (RArchiveNote i) t of (t', tx, r) \<Rightarrow> (t', tx, bind_result (lift_send r) (\<lambda>_. Inr ())))"

definition repo_deleteNote ::
  "jsstring \<Rightarrow> note_table \<Rightarrow> note_table \<times> tx_applied list \<times> ('e repo_error + unit)" where
  "repo_deleteNote i t =
     (case client_send (RDeleteNote i) t of (t', tx, r) \<Rightarrow> (t', tx, bind_result (lift_send r) (\<lambda>_. Inr ())))"

text \<open>
  \<open>close\<close>: the request, and when its promise has settled, either way, the termination of the client,
  which itself sends a close request without waiting for an answer.
\<close>

definition repo_close :: "error_text option \<Rightarrow> worker_client \<Rightarrow> worker_client \<times> client_envelope" where
  "repo_close post_error c = wc_send RClose post_error c"

definition repo_close_finally :: "worker_client \<Rightarrow> worker_client \<times> client_envelope" where
  "repo_close_finally c = wc_terminate c"

section \<open>Round trips\<close>

text \<open>What an authenticated cipher documents: under a 12-byte nonce it seals, and opens what it sealed.\<close>

definition aead_correct :: "'e vault \<Rightarrow> bool" where
  "aead_correct vault \<longleftrightarrow>
     (\<forall>nonce aad p. length nonce = AES_GCM_NONCE_LEN \<longrightarrow>
        (\<exists>c. vault_encrypt vault nonce aad p = Inr c \<and> vault_decrypt vault nonce aad c = Inr p))"

definition faithful_text :: "jsstring \<Rightarrow> bool" where
  "faithful_text s \<longleftrightarrow> well_formed s \<and> \<not> starts_with_bom s"

lemma field_round_trip:
  assumes "aead_correct vault" and "length random = 12" and "faithful_text plaintext"
  shows "\<exists>enc. encryptField vault random rowId field plaintext = Inr enc \<and>
    decryptField vault rowId field enc = Inr plaintext"
proof -
  have nonce: "length (freshNonce random) = AES_GCM_NONCE_LEN"
    using assms(2) by (simp add: freshNonce_def AES_GCM_NONCE_LEN_def)
  obtain c where
    "vault_encrypt vault (freshNonce random) (aadFor rowId field) (text_encode plaintext) = Inr c"
    "vault_decrypt vault (freshNonce random) (aadFor rowId field) c = Inr (text_encode plaintext)"
    using assms(1) nonce unfolding aead_correct_def by blast
  with assms(3) show ?thesis
    by (simp add: encryptField_def decryptField_def faithful_text_def text_round_trip)
qed

lemma note_round_trip:
  assumes "aead_correct vault" and "entropy_ok r" and "faithful_text title" and "faithful_text body"
  shows "\<exists>row. encryptNote vault r i day title body = Inr row \<and> row_id row = i \<and>
    decryptRow vault row = Inr \<lparr>note_id = i, note_title = title, note_body = body,
      note_updatedDay = day, note_archived = False\<rparr>"
proof -
  obtain t b where
    t: "encryptField vault (title_random r) i TITLE_FIELD title = Inr t"
      "decryptField vault i TITLE_FIELD t = Inr title" and
    b: "encryptField vault (body_random r) i BODY_FIELD body = Inr b"
      "decryptField vault i BODY_FIELD b = Inr body"
    using field_round_trip [OF assms(1)] assms(2-4) unfolding entropy_ok_def by meson
  then show ?thesis by (cases t, cases b) (simp add: encryptNote_def decryptRow_def)
qed

lemma client_send_eq:
  "client_send req t =
     (fst (handle req t), fst (snd (handle req t)),
      case snd (snd (handle req t)) of Inl m \<Rightarrow> Inl (SendRejected m) | Inr r \<Rightarrow> Inr r)"
  using handle_kind [of req t]
  by (auto simp: client_send_def split: prod.splits sum.splits)

section \<open>Associated data\<close>

lemma crockford_ascii: "c \<in> set CROCKFORD \<Longrightarrow> c < 0x80"
  by (auto simp: CROCKFORD_def)

lemma text_encode_row_id_inject:
  assumes "length i = 16" "length j = 16" "encodeRowId i = Inr s" "encodeRowId j = Inr s'"
    and "text_encode s = text_encode s'"
  shows "i = j"
proof -
  have faithful: "faithful_text u" if "length k = 16" "encodeRowId k = Inr u" for k u
  proof -
    have ascii: "\<forall>c \<in> set u. unat c < 0x80"
      using row_id_alphabet [OF that] crockford_ascii by blast
    then have "\<not> starts_with_bom u" by (cases u) (auto simp: starts_with_bom_def)
    with ascii show ?thesis by (simp add: faithful_text_def ascii_well_formed)
  qed
  have "Some s = Some s'"
    using text_round_trip [of s] text_round_trip [of s'] faithful assms
    by (metis faithful_text_def)
  then show ?thesis using row_id.enc_inject [OF assms(1,2)] assms(3,4) by simp
qed

section \<open>Properties\<close>

text \<open>
  C1: what a user writes is what they read. With a correct cipher, saving a note (a new one, or one
  under an existing canonical id) whose text is well-formed and does not begin with a byte order mark
  succeeds, broadcasts its id, and getting that id returns the same note, today's day and not
  archived, through encryption, the RPC, the worker and the table and back.
\<close>

theorem upsert_get_note:
  assumes "aead_correct vault" and "entropy_ok r" and "table_inv t"
    and "faithful_text (input_title input)" and "faithful_text (input_body input)"
    and "length i = ROW_ID_BYTES" and "encodeRowId i = Inr s"
    and "input_id input = Some s \<or> input_id input = None \<and> i = id_random r"
  shows "\<exists>t'. repo_upsertNote vault now r input t =
      (t', [[s]], Inr \<lparr>note_id = s, note_title = input_title input, note_body = input_body input,
         note_updatedDay = todayDayBucket now, note_archived = False\<rparr>) \<and>
    table_inv t' \<and>
    repo_getNote vault s t' = Inr (Some \<lparr>note_id = s, note_title = input_title input,
      note_body = input_body input, note_updatedDay = todayDayBucket now, note_archived = False\<rparr>)"
proof -
  obtain row where row: "encryptNote vault r s (todayDayBucket now) (input_title input) (input_body input) = Inr row"
    "row_id row = s" and dec: "decryptRow vault row = Inr \<lparr>note_id = s, note_title = input_title input,
      note_body = input_body input, note_updatedDay = todayDayBucket now, note_archived = False\<rparr>"
    using note_round_trip [OF assms(1,2,4,5)] by blast
  obtain t' where t': "repo_upsert row t = Inr (t', row)" "table_inv t'" "repo_get s t' = Inr (Some row)"
    using repo_upsert_get [OF assms(3,6)] assms(7) row(2) by blast
  have "generateRowId (id_random r) = Inr s" if "i = id_random r"
    using that assms(6,7) by (simp add: generateRowId_def)
  with assms(8) row(1) t' dec row(2) show ?thesis
    by (auto simp: repo_upsertNote_def client_send_eq repo_getNote_def)
qed

text \<open>A cipher for the witnesses: it prefixes nonce and associated data and checks them on opening.\<close>

definition sample_vault :: "unit vault" where
  "sample_vault =
     \<lparr>vault_encrypt = \<lambda>n a p. Inr (n @ a @ p),
      vault_decrypt = \<lambda>n a c. if take (length (n @ a)) c = n @ a then Inr (drop (length (n @ a)) c) else Inl ()\<rparr>"

definition sample_entropy :: entropy where
  "sample_entropy = \<lparr>id_random = replicate 16 0, title_random = replicate 12 1, body_random = replicate 12 2\<rparr>"

lemma sample_vault_correct: "aead_correct sample_vault"
  by (simp add: aead_correct_def sample_vault_def)

theorem upsert_get_note_witness:
  "\<exists>t'. repo_getNote sample_vault (js ''00000000000000000000000000'') t' =
     Inr (Some \<lparr>note_id = js ''00000000000000000000000000'', note_title = js ''hello'',
       note_body = js ''world'', note_updatedDay = 20454, note_archived = False\<rparr>)"
proof -
  let ?input = "\<lparr>input_id = None, input_title = js ''hello'', input_body = js ''world''\<rparr>"
  have enc: "encodeRowId (replicate 16 0) = Inr (js ''00000000000000000000000000'')"
    by (subst encodeRowId_eq) (simp, code_simp)
  have clean: "faithful_text (input_title ?input)" "faithful_text (input_body ?input)"
    by (simp_all add: faithful_text_def starts_with_bom_def high_surrogate_def low_surrogate_def)
  have "todayDayBucket 1767225600000 = 20454" by (simp add: todayDayBucket_def SECONDS_PER_DAY_def)
  with upsert_get_note [OF sample_vault_correct _ sample_table_inv clean _ enc, of sample_entropy 1767225600000]
  show ?thesis
    by (auto simp: sample_entropy_def entropy_ok_def ROW_ID_BYTES_def simp del: js_Cons)
qed

definition transported :: "jsstring \<Rightarrow> jsstring" where
  "transported s = concat (map code_units
     (case code_points s of [] \<Rightarrow> [] | n # ns \<Rightarrow> if n = 0xFEFF then ns else n # ns))"

lemma transported_faithful: "faithful_text s \<Longrightarrow> transported s = s"
  using text_round_trip [of s] text_decode_text_encode [of s]
  by (simp add: faithful_text_def transported_def)

lemma transported_bom:
  assumes "well_formed s"
  shows "transported (0xFEFF # s) = s"
proof -
  have "code_points (0xFEFF # s) = 0xFEFF # code_points s"
    by (cases s) (simp_all add: high_surrogate_def low_surrogate_def)
  with code_units_code_points [OF assms] show ?thesis by (simp add: transported_def)
qed

text \<open>
  C34: what encryption and decryption of a field do to any text. The result is the text with each lone
  surrogate replaced by U+FFFD and one leading U+FEFF dropped; a well-formed text that does not start
  with U+FEFF comes back unchanged, and one that starts with it loses it.
\<close>

theorem field_transport:
  assumes "aead_correct vault" and "length random = 12"
  shows "\<exists>enc. encryptField vault random rowId field s = Inr enc \<and>
    decryptField vault rowId field enc = Inr (transported s) \<and>
    (faithful_text s \<longrightarrow> transported s = s) \<and>
    (\<forall>u. well_formed u \<and> s = 0xFEFF # u \<longrightarrow> transported s = u)"
proof -
  have "length (freshNonce random) = AES_GCM_NONCE_LEN"
    using assms(2) by (simp add: freshNonce_def AES_GCM_NONCE_LEN_def)
  then obtain c where
    "vault_encrypt vault (freshNonce random) (aadFor rowId field) (text_encode s) = Inr c"
    "vault_decrypt vault (freshNonce random) (aadFor rowId field) c = Inr (text_encode s)"
    using assms(1) unfolding aead_correct_def by blast
  then show ?thesis
    using text_decode_text_encode [of s]
    by (simp add: encryptField_def decryptField_def transported_faithful transported_bom)
      (simp add: transported_def)
qed

theorem field_transport_witness:
  "\<exists>enc. encryptField sample_vault (replicate 12 0) (js ''row'') TITLE_FIELD [0xFEFF, 0x41] = Inr enc \<and>
     decryptField sample_vault (js ''row'') TITLE_FIELD enc = Inr [0x41]"
proof -
  have "well_formed [0x41]" by (simp add: high_surrogate_def low_surrogate_def)
  with field_transport [OF sample_vault_correct, of "replicate 12 0" "js ''row''" TITLE_FIELD "[0xFEFF, 0x41]"]
  show ?thesis by auto
qed

text \<open>
  C33: the associated data binds the field to its row. For ids as the codec writes them, the bytes
  authenticated with the title or the body of one row equal those of another field or row only when
  both row and field are the same, so a ciphertext moved elsewhere is opened under different
  associated data.
\<close>

theorem aad_binds_row_and_field:
  assumes "length i = ROW_ID_BYTES" and "length j = ROW_ID_BYTES"
    and "encodeRowId i = Inr s" and "encodeRowId j = Inr s'"
    and "f \<in> {TITLE_FIELD, BODY_FIELD}" and "g \<in> {TITLE_FIELD, BODY_FIELD}"
  shows "aadFor s f = aadFor s' g \<longleftrightarrow> i = j \<and> f = g"
proof
  have bytes: "text_encode TITLE_FIELD = [116, 105, 116, 108, 101]" "text_encode BODY_FIELD = [98, 111, 100, 121]"
    by (simp_all add: TITLE_FIELD_def BODY_FIELD_def text_encode_def high_surrogate_def
        low_surrogate_def utf8_of_scalar_def)
  assume "aadFor s f = aadFor s' g"
  then have "text_encode f @ 47 # text_encode s = text_encode g @ 47 # text_encode s'"
    by (simp add: aadFor_def)
  with assms(5,6) have "f = g \<and> text_encode s = text_encode s'"
    by (auto simp: bytes)
  with text_encode_row_id_inject [OF _ _ assms(3,4)] assms(1,2) show "i = j \<and> f = g"
    by (simp add: ROW_ID_BYTES_def)
qed (use assms in simp)

theorem aad_binds_row_and_field_witness:
  "aadFor (js ''00000000000000000000000000'') TITLE_FIELD \<noteq> aadFor (js ''00000000000000000000000000'') BODY_FIELD"
proof -
  have enc: "encodeRowId (replicate 16 0) = Inr (js ''00000000000000000000000000'')"
    by (subst encodeRowId_eq) (simp, code_simp)
  have "TITLE_FIELD \<noteq> BODY_FIELD" by (simp add: TITLE_FIELD_def BODY_FIELD_def)
  with aad_binds_row_and_field [OF _ _ enc enc, of TITLE_FIELD BODY_FIELD] show ?thesis
    by (simp add: ROW_ID_BYTES_def del: js_Cons)
qed

end
