(* ===== verification/Create_Repo.thy ===== *)
theory Create_Repo
  imports Repo
begin

text \<open>
  The transport ladder (\<open>packages/storage/src/index.ts\<close>): \<open>createRepo\<close> tries the shared worker, the
  leader-election transport and the plain dedicated worker in turn. What each tier's environment does
  (whether it exists, whether its transport becomes ready, what \<open>bootstrap\<close> throws) is the argument
  \<open>platform\<close>; the result lists the teardowns performed and the tier the repository runs on. The wasm
  initialisation shared by all of it (\<open>wasm.ts\<close>) is a memoised promise.
\<close>

section \<open>Thrown values\<close>

datatype thrown = ThrownError jsstring | ThrownString jsstring | ThrownOther

definition OPFS_UNAVAILABLE_MARKER :: jsstring where
  "OPFS_UNAVAILABLE_MARKER = js ''Missing required OPFS APIs''"

fun isOpfsUnavailable :: "thrown \<Rightarrow> bool" where
  "isOpfsUnavailable (ThrownError message) = js_includes message OPFS_UNAVAILABLE_MARKER"
| "isOpfsUnavailable (ThrownString s) = js_includes s OPFS_UNAVAILABLE_MARKER"
| "isOpfsUnavailable ThrownOther = False"

section \<open>The ladder\<close>

datatype tier = Override | Shared | Leader | Dedicated

datatype ladder_event = Boot tier | Terminate tier | CloseLeader | Warn

record platform =
  override_given :: bool
  wasm_error :: "thrown option"
  shared_supported :: bool
  leader_supported :: bool
  leader_ready_error :: "thrown option"
  boot_error :: "tier \<Rightarrow> thrown option"

text \<open>\<open>bootRepo\<close>: construct the client, await \<open>bootstrap\<close>, terminate the client on failure.\<close>

definition bootRepo :: "platform \<Rightarrow> tier \<Rightarrow> ladder_event list \<times> (thrown + tier)" where
  "bootRepo p k =
     (case boot_error p k of
        None \<Rightarrow> ([Boot k], Inr k)
      | Some err \<Rightarrow> ([Boot k, Terminate k], Inl err))"

definition boot_dedicated :: "platform \<Rightarrow> ladder_event list \<times> (thrown + tier)" where
  "boot_dedicated p = bootRepo p Dedicated"

definition after_shared :: "platform \<Rightarrow> ladder_event list \<times> (thrown + tier)" where
  "after_shared p =
     (if leader_supported p then
        (case (case leader_ready_error p of
                 Some err \<Rightarrow> ([], Inl err)
               | None \<Rightarrow> bootRepo p Leader) of
           (evs, Inr k) \<Rightarrow> (evs, Inr k)
         | (evs, Inl err) \<Rightarrow>
             (case boot_dedicated p of (evs', r) \<Rightarrow> (evs @ [Warn, CloseLeader] @ evs', r)))
      else boot_dedicated p)"

definition createRepo :: "platform \<Rightarrow> ladder_event list \<times> (thrown + tier)" where
  "createRepo p =
     (case wasm_error p of
        Some err \<Rightarrow> ([], Inl err)
      | None \<Rightarrow>
          if override_given p then bootRepo p Override
          else if shared_supported p then
            (case bootRepo p Shared of
               (evs, Inr k) \<Rightarrow> (evs, Inr k)
             | (evs, Inl err) \<Rightarrow>
                 if \<not> isOpfsUnavailable err then (evs, Inl err)
                 else (case after_shared p of (evs', r) \<Rightarrow> (evs @ [Warn] @ evs', r)))
          else after_shared p)"

section \<open>ensureWasm\<close>

text \<open>The memo: no promise, a pending one, or a settled one; and the \<open>ready\<close> flag.\<close>

datatype wasm_promise = WasmNone | WasmPending | WasmFulfilled | WasmRejected

record wasm_module =
  initPromise :: wasm_promise
  wasm_ready :: bool
  init_calls :: nat

definition wasm_new :: wasm_module where
  "wasm_new = \<lparr>initPromise = WasmNone, wasm_ready = False, init_calls = 0\<rparr>"

definition ensureWasm :: "wasm_module \<Rightarrow> wasm_module" where
  "ensureWasm m =
     (if initPromise m = WasmNone then m\<lparr>initPromise := WasmPending, init_calls := init_calls m + 1\<rparr>
      else m)"

definition wasm_init_done :: "bool \<Rightarrow> wasm_module \<Rightarrow> wasm_module" where
  "wasm_init_done ok m =
     (if initPromise m = WasmPending
      then (if ok then m\<lparr>initPromise := WasmFulfilled, wasm_ready := True\<rparr>
            else m\<lparr>initPromise := WasmRejected\<rparr>)
      else m)"

definition getWasm :: "wasm_module \<Rightarrow> unit option" where
  "getWasm m = (if wasm_ready m then Some () else None)"

inductive wasm_step :: "wasm_module \<Rightarrow> wasm_module \<Rightarrow> bool" where
  "wasm_step m (ensureWasm m)"
| "wasm_step m (wasm_init_done ok m)"

definition wasm_inv :: "wasm_module \<Rightarrow> bool" where
  "wasm_inv m \<longleftrightarrow>
     (wasm_ready m \<longleftrightarrow> initPromise m = WasmFulfilled) \<and>
     init_calls m = (if initPromise m = WasmNone then 0 else 1)"

interpretation wasm: inductive_invariant "\<lambda>m. m = wasm_new" wasm_step wasm_inv
proof (unfold_locales, goal_cases)
  case (2 m m')
  from 2(2,1) show ?case by cases (auto simp: wasm_inv_def ensureWasm_def wasm_init_done_def)
qed (simp add: wasm_inv_def wasm_new_def)

section \<open>Properties\<close>

text \<open>
  C35: the ladder degrades only as documented. The repository runs on a tier whose bootstrap succeeded.
  It runs on the dedicated tier, which gives up cross-tab safety, only when the shared worker is
  missing or cannot use OPFS and the leader transport is missing or failed, and then the leader
  transport has been closed. A shared worker that fails for another reason ends the attempt with its
  error, and every tier that was booted without success has been terminated.
\<close>

theorem createRepo_ladder:
  "(\<forall>evs k. createRepo p = (evs, Inr k) \<longrightarrow> boot_error p k = None \<and>
      (k = Dedicated \<longrightarrow>
        (\<not> shared_supported p \<or> (\<exists>err. boot_error p Shared = Some err \<and> isOpfsUnavailable err)) \<and>
        (\<not> leader_supported p \<or> (leader_ready_error p \<noteq> None \<or> boot_error p Leader \<noteq> None) \<and> CloseLeader \<in> set evs))) \<and>
   (\<forall>err. wasm_error p = None \<and> \<not> override_given p \<and> shared_supported p \<and> boot_error p Shared = Some err \<and>
      \<not> isOpfsUnavailable err \<longrightarrow> createRepo p = ([Boot Shared, Terminate Shared], Inl err)) \<and>
   (\<forall>k. Boot k \<in> set (fst (createRepo p)) \<longrightarrow> snd (createRepo p) \<noteq> Inr k \<longrightarrow>
      Terminate k \<in> set (fst (createRepo p)))"
  by (auto simp: createRepo_def after_shared_def boot_dedicated_def bootRepo_def
      split: option.splits if_splits prod.splits sum.splits)

definition sample_platform :: platform where
  "sample_platform =
     \<lparr>override_given = False, wasm_error = None, shared_supported = True, leader_supported = True,
      leader_ready_error = None,
      boot_error = (\<lambda>k. if k = Shared then Some (ThrownError (js ''Missing required OPFS APIs.''))
                        else if k = Leader then Some ThrownOther else None)\<rparr>"

theorem createRepo_ladder_witness:
  "\<exists>evs. createRepo sample_platform = (evs, Inr Dedicated) \<and> CloseLeader \<in> set evs \<and>
     boot_error sample_platform Dedicated = None"
proof -
  have "js_includes (js ''Missing required OPFS APIs.'') OPFS_UNAVAILABLE_MARKER"
    by (simp add: OPFS_UNAVAILABLE_MARKER_def)
  then have "\<exists>evs. createRepo sample_platform = (evs, Inr Dedicated)"
    by (simp add: sample_platform_def createRepo_def bootRepo_def after_shared_def boot_dedicated_def
        del: js_Cons)
  then obtain evs where run: "createRepo sample_platform = (evs, Inr Dedicated)" by blast
  have "leader_supported sample_platform" by (simp add: sample_platform_def)
  with createRepo_ladder [of sample_platform] run show ?thesis by blast
qed

end
