(* ===== verification/Notes_Store.thy ===== *)
theory Notes_Store
  imports Repo
begin

text \<open>
  The notes store of \<open>packages/state/src/notes-store.ts\<close>: \<open>loadAllNotes\<close>, which pages through the
  repository to completion, and the store with its last-writer-wins reload guard. The i-th page is
  requested after the (i-1)-th arrived, and other tabs may write in between, so the page source is
  indexed by the number of the request.
\<close>

section \<open>loadAllNotes\<close>

definition PAGE_SIZE :: nat where "PAGE_SIZE = 200"
definition MAX_PAGES :: nat where "MAX_PAGES = 200"

datatype 'e load_error = PageError 'e | RefusedTooMany

fun load_pages :: "nat \<Rightarrow> (nat \<Rightarrow> jsstring option \<Rightarrow> 'e + 'a list \<times> jsstring option) \<Rightarrow> nat
    \<Rightarrow> jsstring option \<Rightarrow> 'a list \<Rightarrow> 'e load_error + 'a list" where
  "load_pages 0 page i cursor collected = Inl RefusedTooMany"
| "load_pages (Suc n) page i cursor collected =
     (case page i cursor of
        Inl e \<Rightarrow> Inl (PageError e)
      | Inr (xs, nextCursor) \<Rightarrow>
          (case nextCursor of
             None \<Rightarrow> Inr (collected @ xs)
           | Some [] \<Rightarrow> Inr (collected @ xs)
           | Some c \<Rightarrow> load_pages n page (Suc i) (Some c) (collected @ xs)))"

definition loadAllNotes ::
  "(nat \<Rightarrow> jsstring option \<Rightarrow> 'e + 'a list \<times> jsstring option) \<Rightarrow> 'e load_error + 'a list" where
  "loadAllNotes page = load_pages MAX_PAGES page 0 None []"

text \<open>\<open>repo.listNotes({ limit: PAGE_SIZE, cursor, includeArchived })\<close>\<close>

definition store_page ::
  "'e vault \<Rightarrow> bool \<Rightarrow> note_table \<Rightarrow> jsstring option \<Rightarrow> 'e repo_error + plain_note list \<times> jsstring option" where
  "store_page vault inc t cursor = repo_listNotes vault (Some (int PAGE_SIZE)) cursor (Some inc) t"

section \<open>The store\<close>

datatype 'e notes_state =
    Loading
  | Ready "plain_note list"
  | LoadFailed "'e repo_error load_error"

text \<open>
  \<open>ns_reloads\<close> are the reloads in flight, with the generation and the archived flag they started with,
  and \<open>ns_published\<close> the ones that set the state, oldest first.
\<close>

record 'e notes_store =
  ns_state :: "'e notes_state"
  ns_generation :: nat
  ns_showArchived :: bool
  ns_reloads :: "(nat \<times> bool) list"
  ns_published :: "(nat \<times> bool) list"

definition reload :: "'e notes_store \<Rightarrow> 'e notes_store" where
  "reload s =
     (let next = ns_generation s + 1
      in s\<lparr>ns_generation := next, ns_reloads := ns_reloads s @ [(next, ns_showArchived s)]\<rparr>)"

definition createNotesStore :: "'e notes_store" where
  "createNotesStore =
     reload \<lparr>ns_state = Loading, ns_generation = 0, ns_showArchived = False, ns_reloads = [], ns_published = []\<rparr>"

definition isLatest :: "nat \<Rightarrow> 'e notes_store \<Rightarrow> bool" where
  "isLatest gen s \<longleftrightarrow> ns_generation s = gen"

text \<open>The load of one reload ends, with notes or an error; only the latest reload publishes.\<close>

definition reload_done ::
  "nat \<times> bool \<Rightarrow> 'e repo_error load_error + plain_note list \<Rightarrow> 'e notes_store \<Rightarrow> 'e notes_store" where
  "reload_done r result s =
     (if r \<notin> set (ns_reloads s) then s
      else
        let s' = s\<lparr>ns_reloads := remove1 r (ns_reloads s)\<rparr>
        in if isLatest (fst r) s'
           then s'\<lparr>ns_state := (case result of Inr ns \<Rightarrow> Ready ns | Inl e \<Rightarrow> LoadFailed e),
                   ns_published := ns_published s' @ [r]\<rparr>
           else s')"

definition setShowArchived :: "bool \<Rightarrow> 'e notes_store \<Rightarrow> 'e notes_store" where
  "setShowArchived b s = (if ns_showArchived s = b then s else reload (s\<lparr>ns_showArchived := b\<rparr>))"

definition on_tx_applied :: "tx_applied \<Rightarrow> 'e notes_store \<Rightarrow> 'e notes_store" where
  "on_tx_applied ids s = reload s"

inductive store_step :: "'e notes_store \<Rightarrow> 'e notes_store \<Rightarrow> bool" where
  store_reload: "store_step s (reload s)"
| store_done: "store_step s (reload_done r result s)"
| store_toggle: "store_step s (setShowArchived b s)"
| store_tx: "store_step s (on_tx_applied ids s)"

section \<open>Loads that are rejected\<close>

text \<open>A source whose k-th request is rejected, as when the transport fails under it.\<close>

definition rejecting :: "(nat \<times> 'e) option \<Rightarrow> (nat \<Rightarrow> 'c \<Rightarrow> 'e + 'p) \<Rightarrow> nat \<Rightarrow> 'c \<Rightarrow> 'e + 'p" where
  "rejecting rejected page i cursor =
     (case rejected of
        None \<Rightarrow> page i cursor
      | Some (k, e) \<Rightarrow> if i = k then Inl e else page i cursor)"

lemma load_pages_rejecting:
  "load_pages n (rejecting rejected page) i cursor collected = load_pages n page i cursor collected \<or>
   (\<exists>k e. rejected = Some (k, e) \<and> load_pages n (rejecting rejected page) i cursor collected = Inl (PageError e))"
proof (induction n arbitrary: i cursor collected)
  case (Suc n)
  show ?case
  proof (cases "\<exists>e. rejected = Some (i, e)")
    case True
    then show ?thesis by (auto simp: rejecting_def)
  next
    case False
    then have "rejecting rejected page i cursor = page i cursor" by (auto simp: rejecting_def split: option.split)
    then show ?thesis using Suc.IH by (auto split: sum.split option.split list.split)
  qed
qed simp

section \<open>Paging to completion\<close>

lemma load_pages_more:
  "page i cursor = Inr (xs, Some c) \<Longrightarrow> c \<noteq> [] \<Longrightarrow>
     load_pages (Suc n) page i cursor collected = load_pages n page (Suc i) (Some c) (collected @ xs)"
  by (cases c) simp_all

lemma load_pages_last:
  "page i cursor = Inr (xs, None) \<Longrightarrow> load_pages (Suc n) page i cursor collected = Inr (collected @ xs)"
  by simp

text \<open>The client of the paging contract, once for every source that meets it.\<close>

context paged_source
begin

lemma load_pages_from:
  assumes "inv t" and "0 < k" and "k < length (all t)"
  shows "load_pages n (\<lambda>_. page t) i (Some (cursor t k)) collected =
    (if length (all t) \<le> k + n * size then Inr (collected @ drop k (all t)) else Inl RefusedTooMany)"
  using assms(2,3)
proof (induction n arbitrary: i k collected)
  case (Suc n)
  show ?case
  proof (cases "k + size < length (all t)")
    case True
    have "take size (drop k (all t)) @ drop (k + size) (all t) = drop k (all t)"
      by (metis append_take_drop_id drop_drop add.commute)
    moreover have "load_pages (Suc n) (\<lambda>_. page t) i (Some (cursor t k)) collected =
        load_pages n (\<lambda>_. page t) (Suc i) (Some (cursor t (k + size))) (collected @ take size (drop k (all t)))"
      using True next_page [OF assms(1) Suc.prems] by (intro load_pages_more) (simp_all add: cursor_truthy)
    ultimately show ?thesis
      using Suc.IH [of "k + size" "Suc i"] True size_pos by (simp add: add.assoc)
  next
    case False
    then have "load_pages (Suc n) (\<lambda>_. page t) i (Some (cursor t k)) collected =
        Inr (collected @ take size (drop k (all t)))"
      using next_page [OF assms(1) Suc.prems] by (intro load_pages_last) simp
    with False show ?thesis by simp
  qed
qed simp

lemma load_all:
  assumes "inv t" and "0 < n"
  shows "load_pages n (\<lambda>_. page t) 0 None [] =
    (if length (all t) \<le> n * size then Inr (all t) else Inl RefusedTooMany)"
proof -
  obtain m where n: "n = Suc m" using assms(2) gr0_conv_Suc by blast
  show ?thesis
  proof (cases "size < length (all t)")
    case True
    then have "load_pages n (\<lambda>_. page t) 0 None [] =
        load_pages m (\<lambda>_. page t) 1 (Some (cursor t size)) (take size (all t))"
      unfolding n using first_page [OF assms(1)]
      by (subst load_pages_more) (simp_all add: cursor_truthy)
    with load_pages_from [OF assms(1) size_pos True] show ?thesis by (simp add: n)
  next
    case False
    then have "load_pages n (\<lambda>_. page t) 0 None [] = Inr ([] @ take size (all t))"
      unfolding n using first_page [OF assms(1)] by (intro load_pages_last) simp
    with False show ?thesis by (simp add: n)
  qed
qed

end

text \<open>The notes a vault can read.\<close>

definition readable :: "'e vault \<Rightarrow> note_table \<Rightarrow> bool" where
  "readable vault t \<longleftrightarrow> (\<forall>r \<in> set t. \<exists>n. decryptRow vault (row_of r) = Inr n)"

definition plain_notes :: "'e vault \<Rightarrow> bool \<Rightarrow> note_table \<Rightarrow> plain_note list" where
  "plain_notes vault inc t = map (\<lambda>r. projr (decryptRow vault (row_of r))) (visible inc t)"

lemma set_visible: "set (visible inc t) \<subseteq> set t"
  by (auto simp: visible_def)

lemma store_page_eq:
  assumes "repo_page 200 inc t cursor = Inr (map row_of rs, next)"
    and "readable vault t" and "set rs \<subseteq> set t"
  shows "store_page vault inc t cursor = Inr (map (\<lambda>r. projr (decryptRow vault (row_of r))) rs, next)"
proof -
  have "map_result (decryptRow vault) (map row_of rs) = Inr (map (projr \<circ> decryptRow vault) (map row_of rs))"
    using assms(2,3) by (intro map_result_Inr) (force simp: readable_def)
  moreover obtain p where "repo_list 200 cursor inc t = Inr p" "page_rows p = map row_of rs" "page_nextCursor p = next"
    using assms(1) by (auto simp: repo_page_def bind_result_eq_Inr_iff)
  ultimately show ?thesis
    by (simp add: store_page_def repo_listNotes_def PAGE_SIZE_def client_send_eq comp_def del: map_map)
      (simp add: comp_def)
qed

interpretation store_pages: paged_source "store_page vault inc" "plain_notes vault inc"
  "\<lambda>t k. cursor_of (visible inc t ! (k - 1))" 200 "\<lambda>t. table_inv t \<and> readable vault t"
  for vault inc
proof (unfold_locales, goal_cases)
  case (3 t)
  have sub: "set (take 200 (visible inc t)) \<subseteq> set t"
    using set_visible set_take_subset by fast
  from note_pages.first_page [of t inc] 3
  have "repo_page 200 inc t None = Inr (map row_of (take 200 (visible inc t)),
      if 200 < length (visible inc t) then Some (cursor_of (visible inc t ! 199)) else None)"
    by (simp add: take_map)
  from store_page_eq [OF this _ sub, of vault] 3 show ?case
    by (simp add: plain_notes_def take_map split: if_splits)
next
  case (4 t k)
  have sub: "set (take 200 (drop k (visible inc t))) \<subseteq> set t"
    by (meson set_visible set_take_subset set_drop_subset order_trans)
  from note_pages.next_page [of t k inc] 4
  have "repo_page 200 inc t (Some (cursor_of (visible inc t ! (k - 1)))) =
      Inr (map row_of (take 200 (drop k (visible inc t))),
        if k + 200 < length (visible inc t) then Some (cursor_of (visible inc t ! (k + 200 - 1))) else None)"
    by (simp add: plain_notes_def take_map drop_map add.commute)
  from store_page_eq [OF this _ sub, of vault] 4 show ?case
    by (simp add: plain_notes_def take_map drop_map)
qed simp_all

section \<open>Paging while other tabs write\<close>

definition below :: "db_row option \<Rightarrow> db_row \<Rightarrow> bool" where
  "below q r \<longleftrightarrow> (case q of None \<Rightarrow> True | Some q \<Rightarrow> note_key r < note_key q)"

lemma select_page_rows:
  assumes "table_inv t"
  shows "descending (select_page_sql inc clause n t) \<and>
    (\<forall>r \<in> set (select_page_sql inc clause n t). cursor_holds clause r \<and> length (db_id r) = 16)"
proof -
  have "descending (order_desc (filter (\<lambda>r. (inc \<or> db_archived r = 0) \<and> cursor_holds clause r) t))"
    using assms by (intro descending_order_desc) (simp add: table_inv_def distinct_map inj_on_def)
  with assms show ?thesis
    unfolding select_page_sql_def
    by (auto simp: descending_def sorted_wrt_take table_inv_def list_all_iff db_row_ok_def
        dest!: in_set_takeD)
qed

lemma repo_page_below:
  assumes "table_inv t" and "case q of None \<Rightarrow> True | Some q \<Rightarrow> length (db_id q) = 16"
    and "repo_page 200 inc t (map_option cursor_of q) = Inr (rows, next)"
  shows "\<exists>rs. rows = map row_of rs \<and> descending rs \<and>
    (\<forall>r \<in> set rs. below q r \<and> length (db_id r) = 16) \<and>
    (\<forall>c. next = Some c \<longrightarrow> rs \<noteq> [] \<and> c = cursor_of (last rs))"
proof -
  define clause where "clause = (case q of None \<Rightarrow> NoCursor | Some q \<Rightarrow> After (Some (updated_day q)) (db_id q))"
  have clause: "cursorWhere (map_option cursor_of q) = Inr clause"
    using assms(2) by (auto simp: clause_def cursorWhere_cursor_of cursorWhere_def [of None] split: option.splits)
  let ?raw = "select_page_sql inc clause 201 t" let ?rs = "take 200 ?raw"
  have raw: "descending ?raw" "\<forall>r \<in> set ?raw. cursor_holds clause r \<and> length (db_id r) = 16"
    using select_page_rows [OF assms(1)] by blast+
  then have rs: "descending ?rs" "\<forall>r \<in> set ?rs. cursor_holds clause r \<and> length (db_id r) = 16"
    by (auto simp: descending_def sorted_wrt_take dest: in_set_takeD)
  then have "map_result decodeRow ?rs = Inr (map row_of ?rs)"
    by (intro map_result_Inr decodeRow_row_of) blast
  then have page: "rows = map row_of ?rs"
    "next = (if 200 < length ?raw \<and> ?rs \<noteq> [] then Some (cursor_of (last ?rs)) else None)"
    using assms(3)
    by (auto simp: repo_page_def repo_list_def clause clamp_limit_def Let_def cursor_of_def last_map
        row_of_def [of "last ?rs"])
  moreover have "below q r" if "cursor_holds clause r" for r
    using that by (auto simp: below_def clause_def note_key_def split: option.splits)
  ultimately show ?thesis using rs by (intro exI [of _ ?rs]) auto
qed

lemma descending_append:
  "descending xs \<Longrightarrow> descending ys \<Longrightarrow> (\<forall>y \<in> set ys. below (if xs = [] then None else Some (last xs)) y) \<Longrightarrow>
     descending (xs @ ys)"
proof (cases xs rule: rev_cases)
  case (snoc zs z)
  assume "descending xs" "descending ys" "\<forall>y \<in> set ys. below (if xs = [] then None else Some (last xs)) y"
  with snoc show ?thesis
    by (auto simp: descending_def sorted_wrt_append below_def intro: order.strict_trans)
qed simp

lemma load_pages_descending:
  assumes "\<And>i. table_inv (ts i)" and "descending acc" and "\<forall>r \<in> set acc. length (db_id r) = 16"
    and "load_pages n (\<lambda>i. repo_page 200 inc (ts i)) i
      (if acc = [] then None else Some (cursor_of (last acc))) (map row_of acc) = Inr rows"
  shows "\<exists>rs. rows = map row_of rs \<and> descending rs"
  using assms(2-4)
proof (induction n arbitrary: i acc)
  case (Suc n)
  let ?q = "if acc = [] then None else Some (last acc)"
  have q: "map_option cursor_of ?q = (if acc = [] then None else Some (cursor_of (last acc)))"
    "case ?q of None \<Rightarrow> True | Some q \<Rightarrow> length (db_id q) = 16"
    using Suc.prems(2) by auto
  obtain xs nc where page: "repo_page 200 inc (ts i) (map_option cursor_of ?q) = Inr (xs, nc)"
    using Suc.prems(3) unfolding q(1) by (cases "repo_page 200 inc (ts i)
        (if acc = [] then None else Some (cursor_of (last acc)))") auto
  obtain rs where rs: "xs = map row_of rs" "descending rs"
    "\<forall>r \<in> set rs. below ?q r \<and> length (db_id r) = 16"
    "\<And>c. nc = Some c \<Longrightarrow> rs \<noteq> [] \<and> c = cursor_of (last rs)"
    using repo_page_below [OF assms(1) q(2) page] by blast
  have acc': "descending (acc @ rs)" "\<forall>r \<in> set (acc @ rs). length (db_id r) = 16"
    using descending_append [OF Suc.prems(1) rs(2)] rs(3) Suc.prems(2) by auto
  show ?case
  proof (cases nc)
    case None
    with page q rs(1) Suc.prems(3) have "rows = map row_of (acc @ rs)" by simp
    with acc' show ?thesis by blast
  next
    case (Some c)
    then have "rs \<noteq> []" "c = cursor_of (last rs)" using rs(4) by blast+
    then have "load_pages n (\<lambda>i. repo_page 200 inc (ts i)) (Suc i)
        (if acc @ rs = [] then None else Some (cursor_of (last (acc @ rs)))) (map row_of (acc @ rs)) = Inr rows"
      using Suc.prems(3) load_pages_more [of "\<lambda>i. repo_page 200 inc (ts i)" i _ xs c] page Some q rs(1)
      by simp
    from Suc.IH [OF acc' this] show ?thesis .
  qed
qed simp

section \<open>The reload guard\<close>

definition store_inv :: "'e notes_store \<Rightarrow> bool" where
  "store_inv s \<longleftrightarrow>
     1 \<le> ns_generation s \<and>
     ((ns_generation s, ns_showArchived s) \<in> set (ns_reloads s) \<or>
      ns_published s \<noteq> [] \<and> last (ns_published s) = (ns_generation s, ns_showArchived s)) \<and>
     distinct (map fst (ns_reloads s)) \<and>
     sorted_wrt (<) (map fst (ns_published s)) \<and>
     (\<forall>g \<in> fst ` set (ns_reloads s). 1 \<le> g \<and> g \<le> ns_generation s \<and> g \<notin> fst ` set (ns_published s)) \<and>
     (\<forall>g \<in> fst ` set (ns_published s). 1 \<le> g \<and> g \<le> ns_generation s) \<and>
     (ns_state s = Loading \<longleftrightarrow> ns_published s = [])"

lemma latest_flag:
  assumes "store_inv s" and "(ns_generation s, b) \<in> set (ns_reloads s)"
  shows "b = ns_showArchived s"
proof -
  have "ns_generation s \<notin> fst ` set (ns_published s)" using assms by (force simp: store_inv_def)
  then have "(ns_generation s, ns_showArchived s) \<in> set (ns_reloads s)"
    using assms(1) by (metis fst_conv image_eqI last_in_set store_inv_def)
  then show ?thesis using assms by (metis eq_key_imp_eq_value store_inv_def)
qed

lemma reload_inv: 
  assumes "store_inv s"
  shows "store_inv (reload s)" and "store_inv (reload (s\<lparr>ns_showArchived := b\<rparr>))"
  using assms by (fastforce simp: store_inv_def reload_def Let_def)+

lemma createNotesStore_inv: "store_inv createNotesStore"
  by (simp add: createNotesStore_def reload_def store_inv_def)

lemma sorted_wrt_snoc_less:
  "sorted_wrt (<) (map fst xs) \<Longrightarrow> (\<forall>g \<in> fst ` set xs. g < (n :: nat)) \<Longrightarrow> sorted_wrt (<) (map fst (xs @ [(n, b)]))"
  by (auto simp: sorted_wrt_append)

lemma reload_done_inv:
  assumes "store_inv s"
  shows "store_inv (reload_done r result s)"
proof (cases "r \<in> set (ns_reloads s)")
  case mem: True
  obtain g b where r: "r = (g, b)" by fastforce
  have inv: "distinct (map fst (ns_reloads s))" "sorted_wrt (<) (map fst (ns_published s))"
    "1 \<le> ns_generation s" "\<And>k. k \<in> fst ` set (ns_published s) \<Longrightarrow> 1 \<le> k \<and> k \<le> ns_generation s"
    "\<And>k. k \<in> fst ` set (ns_reloads s) \<Longrightarrow> 1 \<le> k \<and> k \<le> ns_generation s \<and> k \<notin> fst ` set (ns_published s)"
    "(ns_generation s, ns_showArchived s) \<in> set (ns_reloads s) \<or>
      ns_published s \<noteq> [] \<and> last (ns_published s) = (ns_generation s, ns_showArchived s)"
    "ns_state s = Loading \<longleftrightarrow> ns_published s = []"
    using assms unfolding store_inv_def by blast+
  let ?rest = "remove1 r (ns_reloads s)"
  have rest: "set ?rest = set (ns_reloads s) - {r}" "distinct (map fst ?rest)"
    using inv(1) by (simp_all add: set_remove1_eq distinct_map inj_on_def)
  have range: "\<forall>k \<in> fst ` set ?rest. 1 \<le> k \<and> k \<le> ns_generation s \<and> k \<notin> fst ` set (ns_published s)"
    using inv(5) rest(1) by blast
  have unique: "b' = b" if "(g, b') \<in> set (ns_reloads s)" for b'
    using eq_key_imp_eq_value [OF inv(1) that] mem r by blast
  have g_new: "g \<notin> fst ` set (ns_published s)"
    using inv(5) [of g] mem r by force
  show ?thesis
  proof (cases "g = ns_generation s")
    case latest: True
    have "(g, ns_showArchived s) \<in> set (ns_reloads s)"
      using inv(6) g_new latest by (metis fst_conv image_eqI last_in_set)
    then have b: "b = ns_showArchived s" using unique by blast
    have "k < g" if "k \<in> fst ` set (ns_published s)" for k
      using inv(4) [OF that] that g_new latest by (metis le_neq_implies_less)
    then have "sorted_wrt (<) (map fst (ns_published s @ [(g, b)]))"
      using inv(2) by (intro sorted_wrt_snoc_less) blast+
    moreover have "k \<noteq> g" if "k \<in> fst ` set ?rest" for k using that rest(1) unique r by force
    then have "\<forall>k \<in> fst ` set ?rest. 1 \<le> k \<and> k \<le> ns_generation s \<and>
        k \<notin> fst ` set (ns_published s @ [(g, b)])"
      using range by auto
    moreover have "reload_done r result s =
        s\<lparr>ns_reloads := ?rest, ns_published := ns_published s @ [(g, b)],
          ns_state := (case result of Inr ns \<Rightarrow> Ready ns | Inl e \<Rightarrow> LoadFailed e)\<rparr>"
      using mem latest r by (simp add: reload_done_def isLatest_def)
    ultimately show ?thesis
      using inv(3,4) rest(2) latest b unfolding store_inv_def
      by (simp del: set_remove1_eq map_append split: sum.splits)
  next
    case old: False
    then have "reload_done r result s = s\<lparr>ns_reloads := ?rest\<rparr>"
      using mem r by (simp add: reload_done_def isLatest_def)
    moreover have "(ns_generation s, ns_showArchived s) \<in> set ?rest \<or>
        ns_published s \<noteq> [] \<and> last (ns_published s) = (ns_generation s, ns_showArchived s)"
      using inv(6) rest(1) old r by auto
    ultimately show ?thesis
      using inv(2,3,4,7) rest(2) range unfolding store_inv_def by (simp del: set_remove1_eq)
  qed
qed (use assms in \<open>simp add: reload_done_def\<close>)

interpretation store: inductive_invariant "\<lambda>s. s = createNotesStore" store_step store_inv
proof (unfold_locales, goal_cases)
  case (1 s)
  then show ?case by (simp add: createNotesStore_inv)
next
  case (2 s s')
  from 2(2,1) show ?case
    by cases (simp_all add: reload_inv reload_done_inv setShowArchived_def on_tx_applied_def)
qed

section \<open>Properties\<close>

text \<open>
  C8: \<open>loadAllNotes\<close> is complete. Over a table that does not change meanwhile, it returns every
  visible note, decrypted, once, in descending (day, id) order when there are at most 40 000 of them,
  and refuses with its own error, rather than truncating, when there are more.
\<close>

theorem loadAllNotes_complete:
  assumes "table_inv t" and "readable vault t"
  shows "loadAllNotes (\<lambda>_. store_page vault inc t) =
    (if length (plain_notes vault inc t) \<le> 40000 then Inr (plain_notes vault inc t)
     else Inl RefusedTooMany)"
  using store_pages.load_all [of t vault MAX_PAGES inc] assms
  by (simp add: loadAllNotes_def MAX_PAGES_def)

theorem loadAllNotes_complete_witness:
  "loadAllNotes (\<lambda>_. store_page sample_vault True []) = Inr []"
  using loadAllNotes_complete [of "[]" sample_vault True]
  by (simp add: table_inv_def readable_def plain_notes_def visible_def order_desc_def)

text \<open>
  C27: paging stays consistent while other tabs write. Whatever the table is at each page request, if
  the paging ends the rows collected are in strictly descending (day, id) order, so no row version
  is listed twice.
\<close>

theorem paging_under_writes:
  assumes "\<And>i. table_inv (ts i)"
    and "load_pages n (\<lambda>i. repo_page 200 inc (ts i)) 0 None [] = Inr rows"
  shows "\<exists>rs. rows = map row_of rs \<and> descending rs"
  using load_pages_descending [OF assms(1), where acc = "[]" and i = 0] assms(2)
  by (simp add: descending_def)

theorem paging_under_writes_witness:
  "\<exists>rows rs. load_pages 2 (\<lambda>i. repo_page 200 True (if i = 0 then sample_table else [])) 0 None [] = Inr rows \<and>
     rows = map row_of rs \<and> descending rs"
proof -
  let ?ts = "\<lambda>i :: nat. if i = 0 then sample_table else []"
  have inv: "table_inv (?ts i)" for i by (simp add: sample_table_inv) (simp add: table_inv_def)
  have "length (visible True sample_table) = 2" by (simp add: visible_def sample_table_def)
  then have "repo_page 200 True (?ts 0) None = Inr (map row_of (visible True sample_table), None)"
    using note_pages.first_page [OF sample_table_inv, of True] by simp
  then have run: "load_pages (Suc 1) (\<lambda>i. repo_page 200 True (?ts i)) 0 None [] =
      Inr ([] @ map row_of (visible True sample_table))"
    by (intro load_pages_last)
  then show ?thesis
    using paging_under_writes [OF inv run] unfolding numeral_2_eq_2 by auto
qed

text \<open>
  Last writer wins. In every reachable state of the store, reloads publish in strictly increasing
  generation order, so a slow reload never overwrites a newer one, and unless the newest reload is
  still in flight the published state is its result, loaded with the archived filter now selected.
  A reload that is not the newest leaves the state alone.
\<close>

theorem store_last_writer_wins:
  assumes "reach (\<lambda>s. s = createNotesStore) store_step s"
  shows "sorted_wrt (<) (map fst (ns_published s)) \<and>
    ((ns_generation s, ns_showArchived s) \<notin> set (ns_reloads s) \<longrightarrow>
       ns_published s \<noteq> [] \<and> last (ns_published s) = (ns_generation s, ns_showArchived s)) \<and>
    (\<forall>r result. fst r \<noteq> ns_generation s \<longrightarrow> ns_state (reload_done r result s) = ns_state s)"
  using store.reach_inv [OF assms]
  by (auto simp: store_inv_def reload_done_def isLatest_def Let_def)

theorem store_last_writer_wins_witness:
  "ns_state (reload_done (1, False) (Inr []) (reload createNotesStore :: unit notes_store)) = Loading"
proof -
  have "reach (\<lambda>s. s = createNotesStore) store_step (createNotesStore :: unit notes_store)"
    by (rule reach_init) (rule refl)
  then have "reach (\<lambda>s. s = createNotesStore) store_step (reload createNotesStore :: unit notes_store)"
    by (rule reach_step) (rule store_reload)
  from store_last_writer_wins [OF this] show ?thesis
    by (simp add: createNotesStore_def reload_def)
qed

end
