(* ===== verification/Leader_Bridge.thy ===== *)
theory Leader_Bridge
  imports Rpc
begin

text \<open>
  \<open>LeaderBridge\<close> (\<open>packages/storage/src/leader.ts\<close>): the leader tab connects each paired client's
  channel to its one writer. Ids are rewritten so that the clients' counters cannot collide, a
  response is handed to the bridge that forwarded its request, and a client's \<open>close\<close> is answered
  locally so that it never reaches the shared writer. A message is an object with a numeric \<open>id\<close> or
  without one, and the rest of its fields.
\<close>

section \<open>Messages\<close>

datatype payload =
    Request worker_request
  | Reply worker_response
  | ErrorReply error_text
  | Raw jsstring

record wire =
  w_id :: "int option"
  w_payload :: payload

definition request_wire :: "int \<Rightarrow> worker_request \<Rightarrow> wire" where
  "request_wire i r = \<lparr>w_id = Some i, w_payload = Request r\<rparr>"

definition error_wire :: "int \<Rightarrow> error_text \<Rightarrow> wire" where
  "error_wire i m = \<lparr>w_id = Some i, w_payload = ErrorReply m\<rparr>"

fun is_terminal :: "payload \<Rightarrow> bool" where
  "is_terminal (Reply _) = True"
| "is_terminal (ErrorReply _) = True"
| "is_terminal _ = False"

section \<open>One bridge\<close>

record bridge =
  b_channel :: string
  b_idMap :: "(int \<times> int) list"
  b_disposed :: bool

definition new_bridge :: "string \<Rightarrow> bridge" where
  "new_bridge channel = \<lparr>b_channel = channel, b_idMap = [], b_disposed = False\<rparr>"

datatype bridge_effect = ToWriter wire | ToClient wire | ClientClosed

definition bridge_dispose :: "bridge \<Rightarrow> bridge" where
  "bridge_dispose b = b\<lparr>b_disposed := True\<rparr>"

text \<open>\<open>#onClientMessage\<close>; the shared allocator's next id is threaded through.\<close>

definition bridge_onClientMessage :: "wire \<Rightarrow> int \<times> bridge \<Rightarrow> (int \<times> bridge) \<times> bridge_effect list" where
  "bridge_onClientMessage data s =
     (case s of (nextId, b) \<Rightarrow>
        if b_disposed b then ((nextId, b), [])
        else case w_id data of
          None \<Rightarrow> ((nextId, b), [ToWriter data])
        | Some clientId \<Rightarrow>
            if w_payload data = Request RClose then
              ((nextId, bridge_dispose b),
               [ToClient \<lparr>w_id = Some clientId, w_payload = Reply SClose\<rparr>, ClientClosed])
            else
              ((nextId + 1, b\<lparr>b_idMap := AList.update nextId clientId (b_idMap b)\<rparr>),
               [ToWriter (data\<lparr>w_id := Some nextId\<rparr>)]))"

definition bridge_onWriterMessage :: "wire \<Rightarrow> bridge \<Rightarrow> bridge \<times> bridge_effect list" where
  "bridge_onWriterMessage data b =
     (if b_disposed b then (b, [])
      else case w_id data of
        None \<Rightarrow> (b, [])
      | Some leaderId \<Rightarrow>
          (case map_of (b_idMap b) leaderId of
             None \<Rightarrow> (b, [])
           | Some clientId \<Rightarrow>
               (b\<lparr>b_idMap := AList.delete leaderId (b_idMap b)\<rparr>,
                [ToClient (data\<lparr>w_id := Some clientId\<rparr>)])))"

definition failPending :: "error_text \<Rightarrow> bridge \<Rightarrow> bridge \<times> bridge_effect list" where
  "failPending message b =
     (if b_disposed b then (b, [])
      else (b\<lparr>b_idMap := []\<rparr>, map (\<lambda>(_, clientId). ToClient (error_wire clientId message)) (b_idMap b)))"

section \<open>The bridges of one leader\<close>

text \<open>The registry \<open>bridges\<close>, by client id in insertion order, and the shared id allocator.\<close>

record mux =
  mx_next :: int
  mx_bridges :: "(string \<times> bridge) list"

definition mux_new :: mux where
  "mux_new = \<lparr>mx_next = 1, mx_bridges = []\<rparr>"

text \<open>A new bridge for a client replaces and disposes the one it had.\<close>

definition mux_pair :: "string \<Rightarrow> string \<Rightarrow> mux \<Rightarrow> mux" where
  "mux_pair client channel m = m\<lparr>mx_bridges := AList.update client (new_bridge channel) (mx_bridges m)\<rparr>"

definition mux_client :: "string \<Rightarrow> wire \<Rightarrow> mux \<Rightarrow> mux \<times> (string \<times> bridge_effect) list" where
  "mux_client client data m =
     (case map_of (mx_bridges m) client of
        None \<Rightarrow> (m, [])
      | Some b \<Rightarrow>
          (case bridge_onClientMessage data (mx_next m, b) of
             ((nextId, b'), effs) \<Rightarrow>
               (m\<lparr>mx_next := nextId,
                  mx_bridges := (if ClientClosed \<in> set effs then AList.delete client (mx_bridges m)
                                 else AList.update client b' (mx_bridges m))\<rparr>,
                map (Pair client) effs)))"

text \<open>Every bridge listens to the writer; each sees every message.\<close>

definition mux_writer :: "wire \<Rightarrow> mux \<Rightarrow> mux \<times> (string \<times> bridge_effect) list" where
  "mux_writer data m =
     (m\<lparr>mx_bridges := map (\<lambda>(c, b). (c, fst (bridge_onWriterMessage data b))) (mx_bridges m)\<rparr>,
      concat (map (\<lambda>(c, b). map (Pair c) (snd (bridge_onWriterMessage data b))) (mx_bridges m)))"

definition mux_fail :: "error_text \<Rightarrow> mux \<Rightarrow> mux \<times> (string \<times> bridge_effect) list" where
  "mux_fail message m =
     (m\<lparr>mx_bridges := map (\<lambda>(c, b). (c, fst (failPending message b))) (mx_bridges m)\<rparr>,
      concat (map (\<lambda>(c, b). map (Pair c) (snd (failPending message b))) (mx_bridges m)))"

definition mux_dispose :: "mux \<Rightarrow> mux" where
  "mux_dispose m = m\<lparr>mx_bridges := []\<rparr>"

inductive mux_step :: "mux \<Rightarrow> mux \<Rightarrow> bool" where
  mux_step_pair: "mux_step m (mux_pair c ch m)"
| mux_step_client: "mux_step m (fst (mux_client c data m))"
| mux_step_writer: "mux_step m (fst (mux_writer data m))"
| mux_step_fail: "mux_step m (fst (mux_fail e m))"
| mux_step_dispose: "mux_step m (mux_dispose m)"

section \<open>Ids never collide\<close>

definition keys :: "bridge \<Rightarrow> int set" where
  "keys b = fst ` set (b_idMap b)"

definition bridge_ok :: "int \<Rightarrow> bridge \<Rightarrow> bool" where
  "bridge_ok n b \<longleftrightarrow> \<not> b_disposed b \<and> distinct (map fst (b_idMap b)) \<and> (\<forall>k \<in> keys b. k < n)"

definition mux_inv :: "mux \<Rightarrow> bool" where
  "mux_inv m \<longleftrightarrow>
     distinct (map fst (mx_bridges m)) \<and>
     (\<forall>c b. map_of (mx_bridges m) c = Some b \<longrightarrow> bridge_ok (mx_next m) b) \<and>
     (\<forall>c b c' b'. map_of (mx_bridges m) c = Some b \<longrightarrow> map_of (mx_bridges m) c' = Some b' \<longrightarrow>
        c \<noteq> c' \<longrightarrow> keys b \<inter> keys b' = {})"

lemma map_of_map_snd: "map_of (map (\<lambda>(c, b). (c, f b)) xs) c = map_option f (map_of xs c)"
  by (induction xs) auto

lemma mux_inv_shrink:
  assumes "mux_inv m"
    and "\<And>b. bridge_ok (mx_next m) b \<Longrightarrow> bridge_ok (mx_next m) (f b) \<and> keys (f b) \<subseteq> keys b"
  shows "mux_inv (m\<lparr>mx_bridges := map (\<lambda>(c, b). (c, f b)) (mx_bridges m)\<rparr>)"
proof -
  have "map fst (map (\<lambda>(c, b). (c, f b)) (mx_bridges m)) = map fst (mx_bridges m)" by auto
  moreover have "keys (f b) \<inter> keys (f b') = {}"
    if "map_of (mx_bridges m) c = Some b" "map_of (mx_bridges m) c' = Some b'" "c \<noteq> c'" for c c' b b'
    using assms that unfolding mux_inv_def by blast
  moreover have "bridge_ok (mx_next m) (f b)" if "map_of (mx_bridges m) c = Some b" for c b
    using assms that unfolding mux_inv_def by blast
  ultimately show ?thesis
    using assms(1) unfolding mux_inv_def by (auto simp: map_of_map_snd simp del: map_map) blast
qed

lemma onWriterMessage_ok:
  "bridge_ok n b \<Longrightarrow> bridge_ok n (fst (bridge_onWriterMessage data b)) \<and> keys (fst (bridge_onWriterMessage data b)) \<subseteq> keys b"
  by (auto simp: bridge_ok_def keys_def bridge_onWriterMessage_def distinct_delete
      AList.delete_eq distinct_map_filter split: option.splits)

lemma failPending_ok:
  "bridge_ok n b \<Longrightarrow> bridge_ok n (fst (failPending e b)) \<and> keys (fst (failPending e b)) \<subseteq> keys b"
  by (auto simp: bridge_ok_def keys_def failPending_def)

lemma mux_inv_update:
  assumes "mux_inv m" and "mx_next m \<le> n" and "bridge_ok n b'"
    and "\<And>c' b. c' \<noteq> c \<Longrightarrow> map_of (mx_bridges m) c' = Some b \<Longrightarrow> keys b' \<inter> keys b = {}"
  shows "mux_inv \<lparr>mx_next = n, mx_bridges = AList.update c b' (mx_bridges m)\<rparr>"
proof -
  have "bridge_ok n b" if "map_of (mx_bridges m) c = Some b" for c b
    using assms(1,2) that by (fastforce simp: mux_inv_def bridge_ok_def)
  with assms(1,3,4) show ?thesis
    unfolding mux_inv_def by (auto simp: distinct_update update_conv)
qed

lemma mux_pair_inv: "mux_inv m \<Longrightarrow> mux_inv (mux_pair c ch m)"
  using mux_inv_update [of m "mx_next m" "new_bridge ch" c]
  by (cases m) (simp add: mux_pair_def bridge_ok_def new_bridge_def keys_def)

lemma mux_client_inv: 
  assumes "mux_inv m"
  shows "mux_inv (fst (mux_client c data m))"
proof (cases "map_of (mx_bridges m) c")
  case (Some b)
  then have ok: "bridge_ok (mx_next m) b" using assms by (simp add: mux_inv_def)
  have del: "mux_inv (m\<lparr>mx_bridges := AList.delete c (mx_bridges m)\<rparr>)"
    using assms by (auto simp: mux_inv_def distinct_delete delete_conv)
  have same: "mux_inv (m\<lparr>mx_bridges := AList.update c b (mx_bridges m)\<rparr>)"
    using mux_inv_update [OF assms order_refl ok, of c] assms Some by (cases m) (auto simp: mux_inv_def)
  have keys': "keys (b\<lparr>b_idMap := AList.update (mx_next m) i (b_idMap b)\<rparr>) = insert (mx_next m) (keys b)" for i
    by (auto simp: keys_def update_conv dom_map_of_conv_image_fst [symmetric])
  have "mux_inv (m\<lparr>mx_next := mx_next m + 1,
      mx_bridges := AList.update c (b\<lparr>b_idMap := AList.update (mx_next m) i (b_idMap b)\<rparr>) (mx_bridges m)\<rparr>)" for i
  proof -
    let ?b = "b\<lparr>b_idMap := AList.update (mx_next m) i (b_idMap b)\<rparr>"
    have "bridge_ok (mx_next m + 1) ?b"
      using ok keys' [of i] by (auto simp: bridge_ok_def distinct_update)
    moreover have "keys ?b \<inter> keys b2 = {}" if "c' \<noteq> c" "map_of (mx_bridges m) c' = Some b2" for c' b2
      using assms Some that keys' [of i] unfolding mux_inv_def bridge_ok_def by fastforce
    ultimately show ?thesis
      using mux_inv_update [OF assms, of "mx_next m + 1" ?b c] by (cases m) simp
  qed
  with ok Some del same show ?thesis
    by (auto simp: mux_client_def bridge_onClientMessage_def bridge_ok_def split: option.splits)
qed (use assms in \<open>simp add: mux_client_def\<close>)

lemma mux_writer_inv: "mux_inv m \<Longrightarrow> mux_inv (fst (mux_writer data m))"
  unfolding mux_writer_def fst_conv by (rule mux_inv_shrink) (simp_all add: onWriterMessage_ok)

lemma mux_fail_inv: "mux_inv m \<Longrightarrow> mux_inv (fst (mux_fail e m))"
  unfolding mux_fail_def fst_conv by (rule mux_inv_shrink) (simp_all add: failPending_ok)

lemma mux_dispose_inv: "mux_inv m \<Longrightarrow> mux_inv (mux_dispose m)"
  by (simp add: mux_inv_def mux_dispose_def)

interpretation bridges: inductive_invariant "\<lambda>m. m = mux_new" mux_step mux_inv
proof (unfold_locales, goal_cases)
  case (1 m)
  then show ?case by (simp add: mux_inv_def mux_new_def)
next
  case (2 m m')
  from 2(2,1) show ?case
    by cases (simp_all add: mux_pair_inv mux_client_inv mux_writer_inv mux_fail_inv mux_dispose_inv)
qed

section \<open>Demultiplexing\<close>

lemma onWriterMessage_other:
  "k \<notin> keys b \<Longrightarrow> snd (bridge_onWriterMessage \<lparr>w_id = Some k, w_payload = p\<rparr> b) = []"
  by (auto simp: bridge_onWriterMessage_def keys_def dest!: map_of_SomeD split: option.splits) force

lemma concat_single:
  assumes "(c, b) \<in> set xs" and "distinct (map fst xs)"
    and "\<And>c' b'. (c', b') \<in> set xs \<Longrightarrow> c' \<noteq> c \<Longrightarrow> g (c', b') = []"
  shows "concat (map g xs) = g (c, b)"
proof -
  obtain ys zs where xs: "xs = ys @ (c, b) # zs" using assms(1) split_list by metis
  then have "c \<notin> fst ` set ys" "c \<notin> fst ` set zs" using assms(2) by auto
  then have "\<forall>x \<in> set ys \<union> set zs. g x = []" using assms(3) xs by (auto simp: image_iff)
  then have "concat (map g ys) = []" "concat (map g zs) = []" by auto
  then show ?thesis by (simp add: xs del: concat_eq_Nil_conv)
qed

lemma mux_writer_routes:
  assumes "mux_inv m" and "map_of (mx_bridges m) c = Some b" and "map_of (b_idMap b) k = Some i"
  shows "snd (mux_writer \<lparr>w_id = Some k, w_payload = p\<rparr> m) = [(c, ToClient \<lparr>w_id = Some i, w_payload = p\<rparr>)]"
proof -
  let ?g = "\<lambda>(c, b). map (Pair c) (snd (bridge_onWriterMessage \<lparr>w_id = Some k, w_payload = p\<rparr> b))"
  have dist: "distinct (map fst (mx_bridges m))" using assms(1) by (simp add: mux_inv_def)
  have k: "k \<in> keys b" using assms(3) by (force simp: keys_def dest: map_of_SomeD)
  have "?g (c', b') = []" if "(c', b') \<in> set (mx_bridges m)" "c' \<noteq> c" for c' b'
  proof -
    have "map_of (mx_bridges m) c' = Some b'" using that dist by simp
    then have "k \<notin> keys b'" using assms(1,2) k that(2) unfolding mux_inv_def by blast
    then show ?thesis by (simp add: onWriterMessage_other)
  qed
  then have "concat (map ?g (mx_bridges m)) = ?g (c, b)"
    using assms(2) dist by (intro concat_single) (auto dest: map_of_SomeD)
  moreover have "\<not> b_disposed b" using assms(1,2) by (simp add: mux_inv_def bridge_ok_def)
  ultimately show ?thesis
    using assms(3) by (simp add: mux_writer_def bridge_onWriterMessage_def)
qed

lemma mux_writer_forgets:
  assumes "mux_inv m"
  shows "snd (mux_writer \<lparr>w_id = Some k, w_payload = p'\<rparr> (fst (mux_writer \<lparr>w_id = Some k, w_payload = p\<rparr> m))) = []"
proof -
  have "k \<notin> keys (fst (bridge_onWriterMessage \<lparr>w_id = Some k, w_payload = p\<rparr> b))"
    if "\<not> b_disposed b" for b
    using that by (auto simp: keys_def bridge_onWriterMessage_def AList.delete_eq map_of_eq_None_iff
        split: option.splits)
  moreover have "\<forall>(c, b) \<in> set (mx_bridges m). \<not> b_disposed b"
    using assms by (auto simp: mux_inv_def bridge_ok_def)
  ultimately show ?thesis
    by (auto simp: mux_writer_def onWriterMessage_other)
qed

section \<open>Properties\<close>

text \<open>The ids under which messages were forwarded to the writer, in order, over the life of a leader's registry.\<close>

definition forwarded_ids :: "(string \<times> bridge_effect) list \<Rightarrow> int list" where
  "forwarded_ids effs =
     List.map_filter (\<lambda>(c, e). case e of ToWriter w \<Rightarrow> w_id w | ToClient _ \<Rightarrow> None | ClientClosed \<Rightarrow> None) effs"

inductive mux_history :: "int list \<Rightarrow> mux \<Rightarrow> bool" where
  history_new: "mux_history [] mux_new"
| history_pair: "mux_history ids m \<Longrightarrow> mux_history ids (mux_pair c ch m)"
| history_client: "mux_history ids m \<Longrightarrow> mux_client c data m = (m', effs) \<Longrightarrow> mux_history (ids @ forwarded_ids effs) m'"
| history_writer: "mux_history ids m \<Longrightarrow> mux_writer data m = (m', effs) \<Longrightarrow> mux_history (ids @ forwarded_ids effs) m'"
| history_fail: "mux_history ids m \<Longrightarrow> mux_fail e m = (m', effs) \<Longrightarrow> mux_history (ids @ forwarded_ids effs) m'"
| history_dispose: "mux_history ids m \<Longrightarrow> mux_history ids (mux_dispose m)"

lemma mux_history_reach: "mux_history ids m \<Longrightarrow> reach (\<lambda>m. m = mux_new) mux_step m"
proof (induction rule: mux_history.induct)
  case history_new
  show ?case by (rule reach_init) (rule refl)
next
  case (history_client ids m c data m' effs)
  then show ?case by (metis fst_conv mux_step_client reach_step)
next
  case (history_writer ids m data m' effs)
  then show ?case by (metis fst_conv mux_step_writer reach_step)
next
  case (history_fail ids m e m' effs)
  then show ?case by (metis fst_conv mux_step_fail reach_step)
qed (blast intro: reach_step mux_step.intros)+

lemma reach_mux_history: "reach (\<lambda>m. m = mux_new) mux_step m \<Longrightarrow> \<exists>ids. mux_history ids m"
proof (induction rule: reach.induct)
  case (reach_step m m')
  then obtain ids where ids: "mux_history ids m" by blast
  from \<open>mux_step m m'\<close> show ?case
  proof cases
    case (mux_step_client c data)
    then show ?thesis using history_client [OF ids, of c data] by (metis prod.collapse)
  next
    case (mux_step_writer data)
    then show ?thesis using history_writer [OF ids, of data] by (metis prod.collapse)
  next
    case (mux_step_fail e)
    then show ?thesis using history_fail [OF ids, of e] by (metis prod.collapse)
  qed (use ids history_pair history_dispose in blast)+
qed (blast intro: history_new)

lemma forwarded_none [simp]:
  "forwarded_ids (snd (mux_writer data m)) = []" "forwarded_ids (snd (mux_fail e m)) = []"
proof -
  have none: "forwarded_ids effs = []" if "\<forall>(c, e) \<in> set effs. \<exists>w. e = ToClient w" for effs
    using that by (induction effs) (auto simp: forwarded_ids_def map_filter_simps)
  have "\<exists>w. e = ToClient w" if "e \<in> set (snd (bridge_onWriterMessage data b))" for e b
    using that by (cases "w_id data"; cases "map_of (b_idMap b) (the (w_id data))")
      (auto simp: bridge_onWriterMessage_def split: if_splits)
  then show "forwarded_ids (snd (mux_writer data m)) = []"
    by (intro none) (auto simp: mux_writer_def)
  show "forwarded_ids (snd (mux_fail e m)) = []"
    by (rule none) (auto simp: mux_fail_def failPending_def split: if_splits)
qed

text \<open>A client's message is forwarded under the next id, or under none.\<close>

lemma forwarded_client:
  "forwarded_ids (snd (mux_client c data m)) = [] \<and> mx_next (fst (mux_client c data m)) = mx_next m \<or>
   forwarded_ids (snd (mux_client c data m)) = [mx_next m] \<and> mx_next (fst (mux_client c data m)) = mx_next m + 1"
  by (auto simp: forwarded_ids_def map_filter_simps mux_client_def bridge_onClientMessage_def split: option.splits)

lemma mux_history_ids: "mux_history ids m \<Longrightarrow> distinct ids \<and> (\<forall>k \<in> set ids. k < mx_next m)"
proof (induction rule: mux_history.induct)
  case (history_client ids m c data m' effs)
  then show ?case using forwarded_client [of c data m] by fastforce
next
  case (history_writer ids m data m' effs)
  then show ?case using forwarded_none(1) [of data m] by (auto simp: mux_writer_def)
next
  case (history_fail ids m e m' effs)
  then show ?case using forwarded_none(2) [of e m] by (auto simp: mux_fail_def)
qed (auto simp: mux_new_def mux_pair_def mux_dispose_def)

text \<open>
  C25: one writer serves many clients without mixing their answers. Over the life of a leader's bridges,
  through clients that pair again, writers that fail and leadership given up and regained, no id is
  forwarded to a writer twice; a request a client sends is forwarded under the next id, which was never
  used; the writer's message for an id in flight goes to the client whose request it answers, under the
  id that client used, to no other client, and a second message for the same id goes nowhere. Every
  reachable state has such a history.
\<close>

theorem bridges_demultiplex:
  assumes "mux_history ids m" and "map_of (mx_bridges m) c = Some b"
  shows "distinct ids \<and>
    (\<forall>i r. r \<noteq> RClose \<longrightarrow>
      snd (mux_client c (request_wire i r) m) = [(c, ToWriter (request_wire (mx_next m) r))] \<and>
      mx_next m \<notin> set ids \<and>
      (\<forall>c' b'. map_of (mx_bridges m) c' = Some b' \<longrightarrow> mx_next m \<notin> keys b') \<and>
      (\<exists>b'. map_of (mx_bridges (fst (mux_client c (request_wire i r) m))) c = Some b' \<and>
         map_of (b_idMap b') (mx_next m) = Some i)) \<and>
    (\<forall>k i p p'. map_of (b_idMap b) k = Some i \<longrightarrow>
      snd (mux_writer \<lparr>w_id = Some k, w_payload = p\<rparr> m) = [(c, ToClient \<lparr>w_id = Some i, w_payload = p\<rparr>)] \<and>
      snd (mux_writer \<lparr>w_id = Some k, w_payload = p'\<rparr>
        (fst (mux_writer \<lparr>w_id = Some k, w_payload = p\<rparr> m))) = [])"
proof -
  have inv: "mux_inv m" using mux_history_reach [OF assms(1)] by (rule bridges.reach_inv)
  then have fresh: "mx_next m \<notin> keys b'" if "map_of (mx_bridges m) c' = Some b'" for c' b'
    using that by (fastforce simp: mux_inv_def bridge_ok_def)
  have "\<not> b_disposed b" using inv assms(2) by (simp add: mux_inv_def bridge_ok_def)
  moreover have "distinct ids" "mx_next m \<notin> set ids" using mux_history_ids [OF assms(1)] by auto
  ultimately show ?thesis
    using fresh assms(2) mux_writer_routes [OF inv assms(2)] mux_writer_forgets [OF inv]
    by (simp add: mux_client_def bridge_onClientMessage_def request_wire_def update_conv)
qed

definition sample_mux :: mux where
  "sample_mux = fst (mux_client ''a'' (request_wire 1 RPing) (mux_pair ''b'' ''ch-b'' (mux_pair ''a'' ''ch-a'' mux_new)))"

lemma sample_mux_reach: "reach (\<lambda>m. m = mux_new) mux_step sample_mux"
  unfolding sample_mux_def
  by (intro reach_step [OF reach_step [OF reach_step [OF reach_init]]], rule refl)
    (rule mux_step_pair mux_step_client)+

theorem bridges_demultiplex_witness:
  "snd (mux_writer \<lparr>w_id = Some 1, w_payload = Reply SPing\<rparr> sample_mux) =
     [(''a'', ToClient \<lparr>w_id = Some 1, w_payload = Reply SPing\<rparr>)]"
proof -
  have "map_of (mx_bridges sample_mux) ''a'' = Some \<lparr>b_channel = ''ch-a'', b_idMap = [(1, 1)], b_disposed = False\<rparr>"
    by (simp add: sample_mux_def mux_client_def mux_pair_def mux_new_def new_bridge_def
        bridge_onClientMessage_def request_wire_def)
  moreover obtain ids where "mux_history ids sample_mux" using reach_mux_history [OF sample_mux_reach] by blast
  ultimately show ?thesis using bridges_demultiplex by simp
qed

text \<open>
  A client that closes does not take the writer down. A numbered close from one client is
  answered to that client, removes exactly its bridge, and forwards nothing to the writer; the other
  clients' bridges and their requests in flight are untouched.
\<close>

theorem client_close_is_isolated:
  assumes "reach (\<lambda>m. m = mux_new) mux_step m" and "map_of (mx_bridges m) c = Some b"
  shows "snd (mux_client c (request_wire i RClose) m) =
      [(c, ToClient \<lparr>w_id = Some i, w_payload = Reply SClose\<rparr>), (c, ClientClosed)] \<and>
    map_of (mx_bridges (fst (mux_client c (request_wire i RClose) m))) = (map_of (mx_bridges m))(c := None) \<and>
    (\<forall>data w. w_id data \<noteq> None \<longrightarrow> (c, ToWriter w) \<in> set (snd (mux_client c data m)) \<longrightarrow>
       w_payload w \<noteq> Request RClose)"
proof -
  have "mux_inv m" using assms(1) by (rule bridges.reach_inv)
  then have "\<not> b_disposed b" using assms(2) by (simp add: mux_inv_def bridge_ok_def)
  then show ?thesis
    using assms(2)
    by (auto simp: mux_client_def bridge_onClientMessage_def request_wire_def delete_conv split: if_splits)
qed

theorem client_close_is_isolated_witness:
  "map_of (mx_bridges (fst (mux_client ''b'' (request_wire 7 RClose) sample_mux))) ''a'' =
     map_of (mx_bridges sample_mux) ''a''"
proof -
  have "map_of (mx_bridges sample_mux) ''b'' = Some \<lparr>b_channel = ''ch-b'', b_idMap = [], b_disposed = False\<rparr>"
    by (simp add: sample_mux_def mux_client_def mux_pair_def mux_new_def new_bridge_def
        bridge_onClientMessage_def request_wire_def)
  from client_close_is_isolated [OF sample_mux_reach this, of 7] show ?thesis by simp
qed

end
