(* ===== verification/Leader_Transport.thy ===== *)
theory Leader_Transport
  imports Leader_Bridge
begin

text \<open>
  \<open>createLeaderTransport\<close> (\<open>packages/storage/src/leader.ts\<close>): the state one tab's closure keeps and
  every handler it installs. A handler maps the tab to its new state and the effects it has on the
  outside, in order: posts on the discovery channel, on the pair channel and on the bridges'
  channels, the writer's life cycle, the Web Lock and the events for the page-side listeners. A
  channel is named by a string; a closed discovery channel delivers nothing. The writer factory may
  throw.
\<close>

section \<open>State and effects\<close>

datatype leader_message =
    LeaderElected string
  | PairRequest string string string
  | PairAck string string
  | LeaderQuery
  | LeaderFailed string error_text

datatype ready_state = Waiting | ReadyOk | ReadyRejected

record tab =
  t_clientId :: string
  t_inFlight :: "(int \<times> wire) list"
  t_pairChannel :: "string option"
  t_currentLeaderId :: "string option"
  t_closed :: bool
  t_failed :: bool
  t_pendingPair :: "(string \<times> string) option"
  t_writer :: bool
  t_leaderId :: "string option"
  t_mux :: mux
  t_errorListener :: "string option"
  t_holdsLock :: bool
  t_waiting :: bool
  t_lockAbort :: "nat option"
  t_lockGen :: nat
  t_ready :: ready_state
  t_failures :: "int list"
  t_discovery :: bool
  t_listening :: bool

datatype tab_effect =
    Discover leader_message
  | PairPost string wire
  | BridgePost string wire
  | WriterPost wire
  | SpawnWriter
  | CloseWriter
  | RequestLock nat
  | AbortLock nat
  | ReleaseLock
  | EmitMessage wire
  | EmitLater wire
  | EmitError

type_synonym action = "tab \<Rightarrow> tab \<times> tab_effect list"

fun run_all :: "action list \<Rightarrow> action" where
  "run_all [] t = (t, [])"
| "run_all (a # as) t = (case a t of (t1, e1) \<Rightarrow> case run_all as t1 of (t2, e2) \<Rightarrow> (t2, e1 @ e2))"

definition emit :: "tab_effect \<Rightarrow> action" where
  "emit e t = (t, [e])"

definition skip :: action where
  "skip t = (t, [])"

section \<open>Pairing\<close>

definition pairChannelName :: "string \<Rightarrow> string \<Rightarrow> string" where
  "pairChannelName leaderId clientId = ''opfs-pair-'' @ leaderId @ ''-'' @ clientId"

definition markReady :: action where
  "markReady t = (if t_ready t \<noteq> Waiting then t else t\<lparr>t_ready := ReadyOk\<rparr>, [])"

definition failReady :: action where
  "failReady t = (if t_ready t \<noteq> Waiting then t else t\<lparr>t_ready := ReadyRejected\<rparr>, [])"

definition tab_onPairMessage :: "wire \<Rightarrow> action" where
  "tab_onPairMessage data t =
     (if t_pairChannel t = None then (t, [])
      else
        (case w_id data of
           Some i \<Rightarrow> if is_terminal (w_payload data) then t\<lparr>t_inFlight := AList.delete i (t_inFlight t)\<rparr> else t
         | None \<Rightarrow> t,
         [EmitMessage data]))"

definition detachPair :: action where
  "detachPair t = (t\<lparr>t_pairChannel := None\<rparr>, [])"

definition clearPendingPair :: action where
  "clearPendingPair t = (t\<lparr>t_pendingPair := None\<rparr>, [])"

definition attachPair :: "string \<Rightarrow> action" where
  "attachPair channel t = (t\<lparr>t_pairChannel := Some channel\<rparr>, [])"

definition replayInFlight :: "string \<Rightarrow> action" where
  "replayInFlight channel t = (t, map (\<lambda>(_, data). PairPost channel data) (t_inFlight t))"

definition sendPairRequest :: "string \<Rightarrow> string \<Rightarrow> action" where
  "sendPairRequest announced name t =
     (if t_closed t then (t, []) else (t, [Discover (PairRequest announced (t_clientId t) name)]))"

definition arm_retry :: "string \<Rightarrow> string \<Rightarrow> action" where
  "arm_retry announced name t = (t\<lparr>t_pendingPair := Some (announced, name)\<rparr>, [])"

definition pairWithLeader :: "string \<Rightarrow> action" where
  "pairWithLeader announced t =
     (if t_closed t \<or> t_currentLeaderId t = Some announced \<and> t_pairChannel t \<noteq> None then (t, [])
      else
        let name = pairChannelName announced (t_clientId t)
        in run_all [clearPendingPair, attachPair name, arm_retry announced name,
             sendPairRequest announced name] (t\<lparr>t_currentLeaderId := Some announced\<rparr>))"

text \<open>The retry timer, which exists exactly while a pair request is pending.\<close>

definition tab_timer :: action where
  "tab_timer t =
     (case t_pendingPair t of
        None \<Rightarrow> (t, [])
      | Some (announced, name) \<Rightarrow>
          if t_closed t then (t, [])
          else run_all [sendPairRequest announced name, arm_retry announced name] t)"

section \<open>Leading\<close>

text \<open>What the bridges' effects are on the outside.\<close>

definition bridge_posts :: "mux \<Rightarrow> (string \<times> bridge_effect) list \<Rightarrow> tab_effect list" where
  "bridge_posts m effs = concat (map (\<lambda>(c, e). case e of
       ToWriter w \<Rightarrow> [WriterPost w]
     | ToClient w \<Rightarrow> (case map_of (mx_bridges m) c of Some b \<Rightarrow> [BridgePost (b_channel b) w] | None \<Rightarrow> [])
     | ClientClosed \<Rightarrow> []) effs)"

definition tab_onBridgeMessage :: "string \<Rightarrow> wire \<Rightarrow> action" where
  "tab_onBridgeMessage client data t =
     (case mux_client client data (t_mux t) of (m, effs) \<Rightarrow>
        (t\<lparr>t_mux := m\<rparr>, bridge_posts (t_mux t) effs))"

definition tab_onWriterMessage :: "wire \<Rightarrow> action" where
  "tab_onWriterMessage data t =
     (if \<not> t_writer t then (t, [])
      else case mux_writer data (t_mux t) of (m, effs) \<Rightarrow>
        (t\<lparr>t_mux := m\<rparr>, bridge_posts (t_mux t) effs))"

definition becomeLeader :: "string \<Rightarrow> action" where
  "becomeLeader newId t =
     (if t_closed t then (t, [])
      else
        let selfName = pairChannelName newId (t_clientId t)
        in run_all
          [clearPendingPair,
           emit SpawnWriter,
           (\<lambda>t. (t\<lparr>t_leaderId := Some newId, t_writer := True, t_errorListener := Some newId,
                   t_mux := mux_pair (t_clientId t) selfName (t_mux t),
                   t_currentLeaderId := Some newId\<rparr>, [])),
           attachPair selfName,
           replayInFlight selfName,
           markReady,
           emit (Discover (LeaderElected newId))] t)"

definition giveUpLeadership :: action where
  "giveUpLeadership t =
     (t\<lparr>t_errorListener := None, t_mux := mux_dispose (t_mux t), t_writer := False,
        t_leaderId := None, t_holdsLock := False\<rparr>,
      (if t_writer t then [CloseWriter] else []) @ (if t_holdsLock t then [ReleaseLock] else []))"

definition requestLock :: action where
  "requestLock t =
     (if t_closed t then (t, [])
      else (t\<lparr>t_lockGen := t_lockGen t + 1, t_lockAbort := Some (t_lockGen t + 1), t_waiting := True\<rparr>,
            [RequestLock (t_lockGen t + 1)]))"

definition RESTART_WINDOW_MS :: int where "RESTART_WINDOW_MS = 30000"
definition MAX_FAILURES :: nat where "MAX_FAILURES = 3"

definition permanentFailure :: error_text where
  "permanentFailure = Text (js ''storage worker permanently failed (3 crashes in 30s)'')"

definition purge_failures :: "int \<Rightarrow> int list \<Rightarrow> int list" where
  "purge_failures now fs = dropWhile (\<lambda>h. h < now - RESTART_WINDOW_MS) fs"

definition enter_failed :: action where
  "enter_failed t =
     (t\<lparr>t_failed := True, t_inFlight := [], t_pairChannel := None, t_currentLeaderId := None,
        t_pendingPair := None, t_discovery := False\<rparr>,
      map (\<lambda>(i, _). EmitMessage (error_wire i permanentFailure)) (t_inFlight t) @ [EmitError])"

definition restartLockRequest :: "int \<Rightarrow> action" where
  "restartLockRequest now t =
     (if t_closed t then (t, [])
      else
        let fs = purge_failures now (t_failures t) @ [now]; t' = t\<lparr>t_failures := fs\<rparr>
        in if MAX_FAILURES \<le> length fs then enter_failed t' else requestLock t')"

definition writerError :: error_text where
  "writerError = Text (js ''storage writer error'')"

definition handleWriterFailure :: "string \<Rightarrow> int \<Rightarrow> action" where
  "handleWriterFailure expected now t =
     (if t_closed t \<or> t_leaderId t \<noteq> Some expected then (t, [])
      else
        (case mux_fail writerError (t_mux t) of (m, effs) \<Rightarrow>
           run_all
             [(\<lambda>t. (t\<lparr>t_mux := m\<rparr>, bridge_posts (t_mux t) effs)),
              emit (Discover (LeaderFailed expected writerError)),
              emit EmitError,
              giveUpLeadership,
              (\<lambda>t. (t\<lparr>t_currentLeaderId := None\<rparr>, [])),
              restartLockRequest now] t))"

definition tab_writerError :: "int \<Rightarrow> action" where
  "tab_writerError now t =
     (case t_errorListener t of None \<Rightarrow> (t, []) | Some mine \<Rightarrow> handleWriterFailure mine now t)"

section \<open>The Web Lock\<close>

text \<open>The lock callback runs. A grant that finds the transport closed is released at once.\<close>

definition tab_grant :: "string \<Rightarrow> action" where
  "tab_grant newId t =
     (if t_closed t then (t\<lparr>t_waiting := False\<rparr>, [ReleaseLock])
      else becomeLeader newId (t\<lparr>t_waiting := False, t_holdsLock := True\<rparr>))"

definition tab_lockRejected :: action where
  "tab_lockRejected t =
     (if t_closed t then (t\<lparr>t_waiting := False, t_lockAbort := None\<rparr>, [])
      else run_all [emit EmitError, failReady] (t\<lparr>t_waiting := False, t_lockAbort := None\<rparr>))"

text \<open>
  The lock is granted but the writer factory throws in \<open>becomeLeader\<close>: the leader id is already set, the
  callback's promise rejects, so the browser takes the lock back and the request's \<open>catch\<close> runs.
\<close>

definition tab_grant_throws :: "string \<Rightarrow> action" where
  "tab_grant_throws newId t =
     (if t_closed t then (t\<lparr>t_waiting := False\<rparr>, [ReleaseLock])
      else run_all
        [clearPendingPair,
         (\<lambda>t. (t\<lparr>t_leaderId := Some newId\<rparr>, [])),
         emit ReleaseLock,
         tab_lockRejected] t)"

text \<open>The \<open>finally\<close> of the g-th lock request.\<close>

definition tab_lockFinally :: "nat \<Rightarrow> action" where
  "tab_lockFinally g t = (if t_lockAbort t = Some g then t\<lparr>t_lockAbort := None\<rparr> else t, [])"

section \<open>Discovery\<close>

fun tab_onDiscovery :: "leader_message \<Rightarrow> action" where
  "tab_onDiscovery (LeaderElected i) t =
     (if \<not> t_discovery t then (t, [])
      else if Some i \<noteq> t_leaderId t then pairWithLeader i t else (t, []))"
| "tab_onDiscovery (PairRequest l client channel) t =
     (if \<not> t_discovery t \<or> \<not> t_writer t \<or> t_leaderId t \<noteq> Some l then (t, [])
      else (t\<lparr>t_mux := mux_pair client channel (t_mux t)\<rparr>, [Discover (PairAck l client)]))"
| "tab_onDiscovery (PairAck l client) t =
     (if \<not> t_discovery t \<or> client \<noteq> t_clientId t then (t, [])
      else case t_pendingPair t of
        None \<Rightarrow> (t, [])
      | Some (pl, _) \<Rightarrow>
          if pl \<noteq> l then (t, [])
          else run_all
            [clearPendingPair,
             (\<lambda>t. case t_pairChannel t of None \<Rightarrow> (t, []) | Some ch \<Rightarrow> replayInFlight ch t),
             markReady] t)"
| "tab_onDiscovery (LeaderFailed l message) t =
     (if \<not> t_discovery t \<or> t_currentLeaderId t \<noteq> Some l then (t, [])
      else run_all
        [detachPair, (\<lambda>t. (t\<lparr>t_currentLeaderId := None\<rparr>, [])), clearPendingPair, emit EmitError] t)"
| "tab_onDiscovery LeaderQuery t =
     (if \<not> t_discovery t then (t, [])
      else case t_leaderId t of
        None \<Rightarrow> (t, [])
      | Some l \<Rightarrow> if t_writer t then (t, [Discover (LeaderElected l)]) else (t, []))"

section \<open>The returned transport\<close>

definition tab_post :: "wire \<Rightarrow> action" where
  "tab_post data t =
     (if t_closed t then (t, [])
      else if t_failed t then
        (t, case w_id data of None \<Rightarrow> [] | Some i \<Rightarrow> [EmitLater (error_wire i permanentFailure)])
      else
        (case w_id data of None \<Rightarrow> t | Some i \<Rightarrow> t\<lparr>t_inFlight := AList.update i data (t_inFlight t)\<rparr>,
         case t_pairChannel t of None \<Rightarrow> [] | Some ch \<Rightarrow> [PairPost ch data]))"

definition tab_close :: action where
  "tab_close t =
     (if t_closed t then (t, [])
      else run_all
        [(\<lambda>t. (t\<lparr>t_closed := True\<rparr>, [])),
         clearPendingPair,
         failReady,
         (\<lambda>t. (t\<lparr>t_discovery := False\<rparr>, [])),
         detachPair,
         (\<lambda>t. (t\<lparr>t_lockAbort := None\<rparr>, case t_lockAbort t of None \<Rightarrow> [] | Some g \<Rightarrow> [AbortLock g])),
         giveUpLeadership,
         (\<lambda>t. (t\<lparr>t_listening := False, t_inFlight := []\<rparr>, []))] t)"

definition createLeaderTransport :: "string \<Rightarrow> tab \<times> tab_effect list" where
  "createLeaderTransport clientId =
     run_all [requestLock, emit (Discover LeaderQuery)]
       \<lparr>t_clientId = clientId, t_inFlight = [], t_pairChannel = None, t_currentLeaderId = None,
        t_closed = False, t_failed = False, t_pendingPair = None, t_writer = False,
        t_leaderId = None, t_mux = mux_new, t_errorListener = None, t_holdsLock = False,
        t_waiting = False, t_lockAbort = None, t_lockGen = 0, t_ready = Waiting, t_failures = [],
        t_discovery = True, t_listening = True\<rparr>"

section \<open>Runs of one tab\<close>

text \<open>
  Everything that can happen to a tab: messages, timers, writer events and calls of the page come in
  any order; the lock is granted or refused only to a tab that waits for it.
\<close>

inductive local_event :: "tab \<Rightarrow> tab \<times> tab_effect list \<Rightarrow> bool" where
  ev_discovery: "local_event t (tab_onDiscovery msg t)"
| ev_pair: "local_event t (tab_onPairMessage data t)"
| ev_bridge: "local_event t (tab_onBridgeMessage client data t)"
| ev_writer: "local_event t (tab_onWriterMessage data t)"
| ev_writer_error: "local_event t (tab_writerError now t)"
| ev_timer: "local_event t (tab_timer t)"
| ev_finally: "local_event t (tab_lockFinally g t)"
| ev_post: "local_event t (tab_post data t)"
| ev_close: "local_event t (tab_close t)"

inductive tab_event :: "tab \<Rightarrow> tab \<times> tab_effect list \<Rightarrow> bool" where
  ev_local: "local_event t r \<Longrightarrow> tab_event t r"
| ev_grant: "t_waiting t \<Longrightarrow> tab_event t (tab_grant newId t)"
| ev_grant_throws: "t_waiting t \<Longrightarrow> tab_event t (tab_grant_throws newId t)"
| ev_rejected: "t_waiting t \<Longrightarrow> tab_event t (tab_lockRejected t)"

definition tab_step :: "tab \<Rightarrow> tab \<Rightarrow> bool" where
  "tab_step t t' \<longleftrightarrow> (\<exists>effs. tab_event t (t', effs))"

definition tab_init :: "tab \<Rightarrow> bool" where
  "tab_init t \<longleftrightarrow> (\<exists>c. t = fst (createLeaderTransport c))"

lemmas action_defs = emit_def skip_def markReady_def failReady_def detachPair_def clearPendingPair_def
  attachPair_def replayInFlight_def sendPairRequest_def arm_retry_def giveUpLeadership_def
  requestLock_def enter_failed_def

section \<open>The invariant of one tab\<close>

definition tab_inv :: "tab \<Rightarrow> bool" where
  "tab_inv t \<longleftrightarrow>
     (t_writer t \<longrightarrow> t_leaderId t \<noteq> None) \<and>
     (t_holdsLock t \<longleftrightarrow> t_writer t) \<and>
     t_errorListener t = (if t_writer t then t_leaderId t else None) \<and>
     (t_holdsLock t \<longrightarrow> \<not> t_waiting t) \<and>
     (t_writer t \<longrightarrow> t_ready t \<noteq> Waiting) \<and>
     (t_discovery t \<longleftrightarrow> \<not> t_closed t \<and> \<not> t_failed t) \<and>
     (\<not> t_writer t \<longrightarrow> mx_bridges (t_mux t) = []) \<and>
     mux_inv (t_mux t) \<and>
     (t_closed t \<or> t_failed t \<longrightarrow> \<not> t_writer t \<and> t_pairChannel t = None \<and> t_pendingPair t = None \<and>
        t_inFlight t = [] \<and> t_ready t \<noteq> Waiting) \<and>
     (t_failed t \<longrightarrow> \<not> t_waiting t) \<and>
     (\<not> t_failed t \<longrightarrow> length (t_failures t) < MAX_FAILURES) \<and>
     (\<forall>l ch. t_pendingPair t = Some (l, ch) \<longrightarrow>
        t_pairChannel t = Some ch \<and> ch = pairChannelName l (t_clientId t)) \<and>
     distinct (map fst (t_inFlight t)) \<and>
     (\<forall>(i, data) \<in> set (t_inFlight t). w_id data = Some i)"

lemma createLeaderTransport_inv: "tab_inv (fst (createLeaderTransport c))"
  by (simp add: createLeaderTransport_def action_defs tab_inv_def mux_inv_def mux_new_def MAX_FAILURES_def)

lemma pairWithLeader_inv:
  "tab_inv t \<Longrightarrow> t_discovery t \<Longrightarrow> tab_inv (fst (pairWithLeader l t))"
  by (auto simp: pairWithLeader_def action_defs tab_inv_def Let_def)

lemma tab_inv_mux:
  "tab_inv t \<Longrightarrow> mux_inv m \<Longrightarrow> (\<not> t_writer t \<Longrightarrow> mx_bridges m = []) \<Longrightarrow> tab_inv (t\<lparr>t_mux := m\<rparr>)"
  by (auto simp: tab_inv_def)

lemma tab_inv_simple:
  assumes "tab_inv t"
  shows "tab_inv (t\<lparr>t_pendingPair := None\<rparr>)"
    and "t_ready t = Waiting \<Longrightarrow> tab_inv (t\<lparr>t_ready := ReadyOk\<rparr>)"
    and "t_ready t = Waiting \<Longrightarrow> tab_inv (t\<lparr>t_pendingPair := None, t_ready := ReadyOk\<rparr>)"
    and "tab_inv (t\<lparr>t_pairChannel := None, t_currentLeaderId := None, t_pendingPair := None\<rparr>)"
  using assms unfolding tab_inv_def by simp_all

lemma onDiscovery_inv: "tab_inv t \<Longrightarrow> tab_inv (fst (tab_onDiscovery msg t))"
proof (induction msg t rule: tab_onDiscovery.induct)
  case (1 i t)
  then show ?case by (simp add: pairWithLeader_inv)
next
  case (2 l c ch t)
  then have "mux_inv (t_mux t)" by (simp add: tab_inv_def)
  with 2 show ?case by (auto intro!: tab_inv_mux mux_pair_inv)
next
  case (3 l c t)
  then show ?case
    by (cases "t_pendingPair t"; cases "t_pairChannel t")
      (simp_all add: action_defs tab_inv_simple split: prod.splits)
next
  case (4 l m t)
  then show ?case by (simp add: action_defs tab_inv_simple)
next
  case (5 t)
  then show ?case by (cases "t_leaderId t") simp_all
qed

lemma onPairMessage_inv: "tab_inv t \<Longrightarrow> tab_inv (fst (tab_onPairMessage data t))"
  by (auto simp: tab_inv_def tab_onPairMessage_def AList.delete_eq distinct_map_filter split: option.splits)

lemma mux_client_empty: "mx_bridges m = [] \<Longrightarrow> mux_client c data m = (m, [])"
  by (simp add: mux_client_def)

lemma onBridgeMessage_inv:
  assumes "tab_inv t"
  shows "tab_inv (fst (tab_onBridgeMessage c data t))"
proof -
  have mux: "mux_inv (t_mux t)" "\<not> t_writer t \<Longrightarrow> mx_bridges (t_mux t) = []"
    using assms by (simp_all add: tab_inv_def)
  have "tab_inv (t\<lparr>t_mux := fst (mux_client c data (t_mux t))\<rparr>)"
    using assms mux mux_client_inv by (intro tab_inv_mux) (auto simp: mux_client_empty)
  then show ?thesis by (simp add: tab_onBridgeMessage_def case_prod_unfold)
qed

lemma onWriterMessage_inv:
  assumes "tab_inv t"
  shows "tab_inv (fst (tab_onWriterMessage data t))"
proof (cases "t_writer t")
  case True
  have "mux_inv (t_mux t)" using assms by (simp add: tab_inv_def)
  then have "tab_inv (t\<lparr>t_mux := fst (mux_writer data (t_mux t))\<rparr>)"
    using assms mux_writer_inv True by (intro tab_inv_mux) auto
  with True show ?thesis by (simp add: tab_onWriterMessage_def case_prod_unfold)
qed (use assms in \<open>simp add: tab_onWriterMessage_def\<close>)

lemma tab_timer_inv: "tab_inv t \<Longrightarrow> tab_inv (fst (tab_timer t))"
  by (auto simp: tab_timer_def action_defs tab_inv_def split: option.splits)

lemma mux_dispose_empty [simp]: "mx_bridges (mux_dispose m) = []"
  by (simp add: mux_dispose_def)

text \<open>A tab that has just given up the lead, before it asks for the lock again.\<close>

lemma restart_inv:
  assumes "tab_inv t" and "\<not> t_writer t" and "\<not> t_failed t" and "\<not> t_closed t" and "t_ready t \<noteq> Waiting"
    and "\<not> t_waiting t"
  shows "tab_inv (fst (restartLockRequest now t))"
  using assms
  by (auto simp: restartLockRequest_def action_defs tab_inv_def Let_def)

lemma handleWriterFailure_inv:
  assumes "tab_inv t" and "t_writer t"
  shows "tab_inv (fst (handleWriterFailure l now t))"
proof (cases "t_closed t \<or> t_leaderId t \<noteq> Some l")
  case False
  define m where "m = fst (mux_fail writerError (t_mux t))"
  define u where "u = t\<lparr>t_errorListener := None, t_mux := mux_dispose m, t_writer := False, t_leaderId := None,
    t_holdsLock := False, t_currentLeaderId := None\<rparr>"
  have facts: "mux_inv m" "\<not> t_failed t" "t_ready t \<noteq> Waiting" "\<not> t_waiting t"
    using assms False mux_fail_inv unfolding m_def by (auto simp: tab_inv_def)
  then have "tab_inv u"
    using assms unfolding u_def by (auto simp: tab_inv_def mux_dispose_inv)
  then have "tab_inv (fst (restartLockRequest now u))"
    using facts False by (intro restart_inv) (auto simp: u_def)
  then show ?thesis
    using False
    by (simp add: handleWriterFailure_def emit_def giveUpLeadership_def case_prod_unfold
        m_def [symmetric] u_def)
qed (use assms in \<open>simp add: handleWriterFailure_def\<close>)

lemma listener_writer: "tab_inv t \<Longrightarrow> t_errorListener t = Some l \<Longrightarrow> t_writer t"
  by (auto simp: tab_inv_def split: if_splits)

lemma tab_writerError_inv: "tab_inv t \<Longrightarrow> tab_inv (fst (tab_writerError now t))"
  by (auto simp: tab_writerError_def handleWriterFailure_inv listener_writer split: option.splits)

lemma tab_grant_inv:
  assumes "tab_inv t" and "t_waiting t"
  shows "tab_inv (fst (tab_grant newId t))"
proof (cases "t_closed t")
  case False
  have "mux_inv (mux_pair (t_clientId t) (pairChannelName newId (t_clientId t)) (t_mux t))"
    using assms(1) by (simp add: tab_inv_def mux_pair_inv)
  with assms False show ?thesis
    by (auto simp: tab_grant_def becomeLeader_def action_defs Let_def tab_inv_def)
qed (use assms in \<open>auto simp: tab_grant_def tab_inv_def\<close>)

lemma tab_grant_throws_inv:
  "tab_inv t \<Longrightarrow> t_waiting t \<Longrightarrow> tab_inv (fst (tab_grant_throws newId t))"
  by (auto simp: tab_grant_throws_def tab_lockRejected_def action_defs tab_inv_def)

lemma tab_lock_inv:
  "tab_inv t \<Longrightarrow> tab_inv (fst (tab_lockRejected t))"
  "tab_inv t \<Longrightarrow> tab_inv (fst (tab_lockFinally g t))"
  by (auto simp: tab_lockRejected_def tab_lockFinally_def action_defs tab_inv_def)

lemma in_set_AList_update: "x \<in> set (AList.update k v al) \<Longrightarrow> x = (k, v) \<or> x \<in> set al"
  by (induction al) (auto split: if_splits)

lemma tab_post_inv: "tab_inv t \<Longrightarrow> tab_inv (fst (tab_post data t))"
  by (auto simp: tab_post_def tab_inv_def distinct_update split: option.splits
      dest!: in_set_AList_update)

lemma tab_close_inv: "tab_inv t \<Longrightarrow> tab_inv (fst (tab_close t))"
  by (auto simp: tab_close_def action_defs tab_inv_def mux_dispose_inv)

lemmas tab_inv_preserved = onDiscovery_inv onPairMessage_inv onBridgeMessage_inv onWriterMessage_inv
  tab_writerError_inv tab_timer_inv tab_grant_inv tab_grant_throws_inv tab_lock_inv tab_post_inv tab_close_inv

lemma local_event_inv: "local_event t r \<Longrightarrow> tab_inv t \<Longrightarrow> tab_inv (fst r)"
  by (induction rule: local_event.cases) (simp_all add: tab_inv_preserved)

lemma tab_event_inv: "tab_event t r \<Longrightarrow> tab_inv t \<Longrightarrow> tab_inv (fst r)"
  by (induction rule: tab_event.cases) (simp_all add: tab_inv_preserved local_event_inv)

interpretation transport: inductive_invariant tab_init tab_step tab_inv
proof (unfold_locales, goal_cases)
  case (1 t)
  then show ?case by (auto simp: tab_init_def createLeaderTransport_inv)
next
  case (2 t t')
  then show ?case using tab_event_inv by (fastforce simp: tab_step_def)
qed

section \<open>Requests in flight\<close>

lemma map_of_delete_dom: "i \<in> fst ` set al \<Longrightarrow> i \<noteq> j \<Longrightarrow> i \<in> fst ` set (AList.delete j al)"
  by (force simp: AList.delete_eq)

lemma in_keys_update: "i \<in> fst ` set al \<Longrightarrow> i \<in> fst ` set (AList.update k v al)"
  by (auto simp: dom_map_of_conv_image_fst [symmetric] update_conv)

definition kept :: "int \<Rightarrow> tab \<times> tab_effect list \<Rightarrow> bool" where
  "kept i r \<longleftrightarrow>
     i \<in> fst ` set (t_inFlight (fst r)) \<or> t_closed (fst r) \<or>
     (\<exists>data. EmitMessage data \<in> set (snd r) \<and> w_id data = Some i \<and> is_terminal (w_payload data))"

lemma onDiscovery_inFlight: "t_inFlight (fst (tab_onDiscovery msg t)) = t_inFlight t"
  by (induction msg t rule: tab_onDiscovery.induct)
    (auto simp: action_defs pairWithLeader_def Let_def split: option.splits)

lemma restart_kept: "i \<in> fst ` set (t_inFlight t) \<Longrightarrow> kept i (restartLockRequest now t)"
  by (force simp: kept_def restartLockRequest_def action_defs error_wire_def Let_def)

lemma writerFailure_kept:
  assumes "i \<in> fst ` set (t_inFlight t)"
  shows "kept i (handleWriterFailure l now t)"
proof (cases "t_closed t \<or> t_leaderId t \<noteq> Some l")
  case False
  let ?m = "fst (mux_fail writerError (t_mux t))"
  let ?u = "t\<lparr>t_errorListener := None, t_mux := mux_dispose ?m, t_writer := False,
    t_leaderId := None, t_holdsLock := False, t_currentLeaderId := None\<rparr>"
  have "kept i (restartLockRequest now ?u)" using assms by (intro restart_kept) simp
  then show ?thesis
    using False
    by (auto simp: kept_def handleWriterFailure_def emit_def giveUpLeadership_def case_prod_unfold)
qed (use assms in \<open>simp add: handleWriterFailure_def kept_def\<close>)

lemma local_event_kept:
  assumes "local_event t r" and "i \<in> fst ` set (t_inFlight t)"
  shows "kept i r"
  using assms
proof (induction rule: local_event.cases)
  case (ev_discovery t msg)
  then show ?case by (simp add: kept_def onDiscovery_inFlight)
next
  case (ev_pair t data)
  then show ?case
    using map_of_delete_dom [of i "t_inFlight t"]
    by (cases "w_id data = Some i") (auto simp: kept_def tab_onPairMessage_def split: option.splits)
next
  case (ev_bridge t client data)
  then show ?case by (simp add: kept_def tab_onBridgeMessage_def case_prod_unfold)
next
  case (ev_writer t data)
  then show ?case by (simp add: kept_def tab_onWriterMessage_def case_prod_unfold)
next
  case (ev_writer_error t now)
  then show ?case
    by (cases "t_errorListener t") (simp_all add: tab_writerError_def writerFailure_kept, simp add: kept_def)
next
  case (ev_timer t)
  then show ?case by (simp add: kept_def tab_timer_def action_defs split: option.splits prod.splits)
next
  case (ev_finally t g)
  then show ?case by (simp add: kept_def tab_lockFinally_def)
next
  case (ev_post t data)
  then show ?case by (simp add: kept_def tab_post_def in_keys_update split: option.splits)
next
  case (ev_close t)
  then show ?case by (simp add: kept_def tab_close_def action_defs)
qed

lemma tab_event_kept: "tab_event t r \<Longrightarrow> i \<in> fst ` set (t_inFlight t) \<Longrightarrow> kept i r"
  by (induction rule: tab_event.cases)
    (simp_all add: local_event_kept, simp_all add: kept_def tab_grant_def becomeLeader_def
      tab_grant_throws_def tab_lockRejected_def action_defs Let_def)

section \<open>The restart budget\<close>

text \<open>What the sliding window lets through: the times of writer failures after each of which the
  tab asks for the lock again.\<close>

fun survives :: "int list \<Rightarrow> int list \<Rightarrow> bool" where
  "survives fs [] = True"
| "survives fs (now # ts) =
     (let fs' = purge_failures now fs @ [now] in length fs' < MAX_FAILURES \<and> survives fs' ts)"

definition crash_all :: "int list \<Rightarrow> tab \<Rightarrow> tab" where
  "crash_all ts t = fold (\<lambda>now t. fst (restartLockRequest now t)) ts t"

lemma restart_failed: "t_failed t \<Longrightarrow> t_failed (fst (restartLockRequest now t))"
  by (simp add: restartLockRequest_def action_defs Let_def)

lemma crash_all_failed: "t_failed t \<Longrightarrow> t_failed (crash_all ts t)"
  unfolding crash_all_def by (induction ts arbitrary: t) (simp_all add: restart_failed)

lemma crash_all_survives:
  "\<not> t_closed t \<Longrightarrow> \<not> t_failed t \<Longrightarrow> \<not> t_failed (crash_all ts t) \<longleftrightarrow> survives (t_failures t) ts"
proof (induction ts arbitrary: t)
  case (Cons now ts)
  let ?fs = "purge_failures now (t_failures t) @ [now]" and ?t = "fst (restartLockRequest now t)"
  show ?case
  proof (cases "MAX_FAILURES \<le> length ?fs")
    case True
    then have "t_failed ?t" using Cons.prems by (simp add: restartLockRequest_def enter_failed_def Let_def)
    then have "t_failed (crash_all (now # ts) t)" using crash_all_failed by (simp add: crash_all_def)
    with True show ?thesis by (simp add: Let_def)
  next
    case False
    then have "\<not> t_closed ?t" "\<not> t_failed ?t" "t_failures ?t = ?fs"
      using Cons.prems by (simp_all add: restartLockRequest_def requestLock_def Let_def)
    with False Cons.IH [of ?t] show ?thesis by (simp add: crash_all_def Let_def)
  qed
qed (simp add: crash_all_def)

definition spaced :: "int list \<Rightarrow> bool" where
  "spaced ts \<longleftrightarrow> (\<forall>i. i + 2 < length ts \<longrightarrow> RESTART_WINDOW_MS < ts ! (i + 2) - ts ! i)"

lemma spaced_Cons:
  "spaced (a # xs) \<longleftrightarrow> (1 < length xs \<longrightarrow> RESTART_WINDOW_MS < xs ! 1 - a) \<and> spaced xs"
proof
  assume *: "spaced (a # xs)"
  have "RESTART_WINDOW_MS < xs ! (i + 2) - xs ! i" if "i + 2 < length xs" for i
    using * [unfolded spaced_def, rule_format, of "Suc i"] that by simp
  moreover have "RESTART_WINDOW_MS < xs ! 1 - a" if "1 < length xs"
    using * [unfolded spaced_def, rule_format, of 0] that by simp
  ultimately show "(1 < length xs \<longrightarrow> RESTART_WINDOW_MS < xs ! 1 - a) \<and> spaced xs"
    by (simp add: spaced_def)
next
  assume "(1 < length xs \<longrightarrow> RESTART_WINDOW_MS < xs ! 1 - a) \<and> spaced xs"
  then show "spaced (a # xs)"
    unfolding spaced_def by (auto simp: nth_Cons split: nat.splits)
qed

lemma spaced_short [simp]: "spaced []" "spaced [a]" "spaced [a, b]"
  by (simp_all add: spaced_def)

lemma survives_spaced:
  "length fs \<le> 2 \<Longrightarrow> sorted (fs @ ts) \<Longrightarrow> survives fs ts \<longleftrightarrow> spaced (fs @ ts)"
proof (induction ts arbitrary: fs)
  case Nil
  then have "fs = [] \<or> (\<exists>a. fs = [a]) \<or> (\<exists>a b. fs = [a, b])"
    by (cases fs; cases "tl fs") auto
  then show ?case by auto
next
  case (Cons now ts)
  have later: "ts = [] \<or> now \<le> ts ! 0" using Cons.prems(2) by (cases ts) (auto simp: sorted_append)
  have window: "0 \<le> RESTART_WINDOW_MS" by (simp add: RESTART_WINDOW_MS_def)
  consider "fs = []" | a where "fs = [a]" | a b where "fs = [a, b]"
    using Cons.prems(1) by (cases fs; cases "tl fs") auto
  then show ?case
  proof cases
    case 1
    then show ?thesis
      using Cons.IH [of "[now]"] Cons.prems(2) by (simp add: purge_failures_def MAX_FAILURES_def)
  next
    case (2 a)
    then show ?thesis
      using Cons.IH [of "[now]"] Cons.IH [of "[a, now]"] Cons.prems(2) later window
      by (auto simp: purge_failures_def MAX_FAILURES_def spaced_Cons [of a])
  next
    case (3 a b)
    then show ?thesis
      using Cons.IH [of "[now]"] Cons.IH [of "[b, now]"] Cons.prems(2) later window
      by (auto simp: purge_failures_def MAX_FAILURES_def spaced_Cons [of a] spaced_Cons [of b])
  qed
qed

section \<open>Properties\<close>

text \<open>
  The writer lives only under the lock. In every reachable state of a tab's transport, a writer
  exists exactly while the tab holds the Web Lock and leads under an id; the lock is not requested
  again while held; a transport that was closed or has failed for good holds no lock, writer, pair
  channel or request in flight, has settled its readiness, and a failed one asks for no lock.
\<close>

theorem transport_writer_under_lock:
  assumes "reach tab_init tab_step t"
  shows "(t_writer t \<longleftrightarrow> t_holdsLock t) \<and> (t_writer t \<longrightarrow> t_leaderId t \<noteq> None) \<and>
    (t_holdsLock t \<longrightarrow> \<not> t_waiting t) \<and>
    (t_closed t \<or> t_failed t \<longrightarrow> \<not> t_holdsLock t \<and> t_pairChannel t = None \<and> t_pendingPair t = None \<and>
       t_inFlight t = [] \<and> t_ready t \<noteq> Waiting) \<and>
    (t_failed t \<longrightarrow> \<not> t_waiting t)"
  using transport.reach_inv [OF assms] by (auto simp: tab_inv_def)

lemma created_reach: "reach tab_init tab_step (fst (createLeaderTransport c))"
  by (rule reach_init) (auto simp: tab_init_def)

lemma created_waiting: "t_waiting (fst (createLeaderTransport c))"
  by (simp add: createLeaderTransport_def action_defs)

lemma event_reach: "reach tab_init tab_step t \<Longrightarrow> tab_event t r \<Longrightarrow> reach tab_init tab_step (fst r)"
  by (rule reach_step [of _ _ t]) (auto simp: tab_step_def intro: exI [of _ "snd r"])

lemma granted_reach:
  "reach tab_init tab_step (fst (tab_grant newId (fst (createLeaderTransport c))))"
  by (rule event_reach [OF created_reach [of c] ev_grant [OF created_waiting]])

theorem transport_writer_under_lock_witness:
  "t_writer (fst (tab_grant ''L'' (fst (createLeaderTransport ''c'')))) \<and>
   t_holdsLock (fst (tab_grant ''L'' (fst (createLeaderTransport ''c''))))"
  using transport_writer_under_lock [OF granted_reach, of "''L''" "''c''"]
  by (simp add: tab_grant_def becomeLeader_def createLeaderTransport_def action_defs Let_def)

text \<open>
  C36: no request is dropped silently. Whatever happens to a tab, a request in flight stays buffered,
  or a response or error for its id is handed to the page's listeners in that same step, or the page
  has closed the transport. When a pairing is acknowledged, and when the tab becomes the leader, every
  buffered request is posted again on the new channel, in order.
\<close>

theorem transport_keeps_requests:
  assumes "reach tab_init tab_step t"
  shows "(\<forall>r i. tab_event t r \<longrightarrow> i \<in> fst ` set (t_inFlight t) \<longrightarrow>
      i \<in> fst ` set (t_inFlight (fst r)) \<or> t_closed (fst r) \<or>
      (\<exists>data. EmitMessage data \<in> set (snd r) \<and> w_id data = Some i \<and> is_terminal (w_payload data))) \<and>
    (\<forall>l ch. t_pendingPair t = Some (l, ch) \<longrightarrow>
      snd (tab_onDiscovery (PairAck l (t_clientId t)) t) = map (\<lambda>(_, data). PairPost ch data) (t_inFlight t)) \<and>
    (\<forall>newId. \<not> t_closed t \<longrightarrow>
      snd (tab_grant newId t) = SpawnWriter # map (\<lambda>(_, data). PairPost (pairChannelName newId (t_clientId t)) data)
        (t_inFlight t) @ [Discover (LeaderElected newId)])"
proof -
  have inv: "tab_inv t" using assms by (rule transport.reach_inv)
  have "snd (tab_onDiscovery (PairAck l (t_clientId t)) t) = map (\<lambda>(_, data). PairPost ch data) (t_inFlight t)"
    if "t_pendingPair t = Some (l, ch)" for l ch
  proof -
    have "t_discovery t" "t_pairChannel t = Some ch" using inv that by (auto simp: tab_inv_def)
    with that show ?thesis by (simp add: action_defs)
  qed
  moreover have "snd (tab_grant newId t) = SpawnWriter # map (\<lambda>(_, data).
      PairPost (pairChannelName newId (t_clientId t)) data) (t_inFlight t) @ [Discover (LeaderElected newId)]"
    if "\<not> t_closed t" for newId
    using that by (simp add: tab_grant_def becomeLeader_def action_defs Let_def)
  ultimately show ?thesis using tab_event_kept unfolding kept_def by blast
qed

theorem transport_keeps_requests_witness:
  "snd (tab_grant ''L'' (fst (tab_post (request_wire 1 RBootstrap) (fst (createLeaderTransport ''c''))))) =
     [SpawnWriter, PairPost (pairChannelName ''L'' ''c'') (request_wire 1 RBootstrap), Discover (LeaderElected ''L'')]"
proof -
  let ?t = "fst (tab_post (request_wire 1 RBootstrap) (fst (createLeaderTransport ''c'')))"
  have reach: "reach tab_init tab_step ?t"
    by (rule event_reach [OF created_reach [of "''c''"] ev_local [OF ev_post]])
  have "\<not> t_closed ?t" "t_inFlight ?t = [(1, request_wire 1 RBootstrap)]" "t_clientId ?t = ''c''"
    by (simp_all add: tab_post_def createLeaderTransport_def action_defs request_wire_def)
  with transport_keeps_requests [OF reach] show ?thesis by simp
qed

text \<open>
  C37: the restart budget. Over any sequence of writer failures at non-decreasing times, the transport
  keeps asking for the lock exactly as long as no three consecutive failures fall within 30 seconds;
  the first such failure, and no other, puts it into the terminal failed state.
\<close>

theorem restart_budget:
  assumes "sorted ts" and "\<not> t_closed t" and "\<not> t_failed t" and "t_failures t = []"
  shows "t_failed (crash_all ts t) \<longleftrightarrow> (\<exists>i. i + 2 < length ts \<and> ts ! (i + 2) - ts ! i \<le> 30000)"
  using crash_all_survives [OF assms(2,3), of ts] survives_spaced [of "[]" ts] assms(1,4)
  by (auto simp: spaced_def RESTART_WINDOW_MS_def not_less)

theorem restart_budget_witness:
  "t_failed (crash_all [0, 20000, 30000] (fst (createLeaderTransport ''c'')))"
proof -
  let ?t = "fst (createLeaderTransport ''c'')"
  have "\<not> t_closed ?t" "\<not> t_failed ?t" "t_failures ?t = []"
    by (simp_all add: createLeaderTransport_def action_defs)
  from restart_budget [OF _ this, of "[0, 20000, 30000]"] show ?thesis
    by (auto intro!: exI [of _ 0])
qed

section \<open>A leader that hears another announcement\<close>

text \<open>
  A tab that leads and receives the announcement of another leader id, as a late message of a previous
  leader would be, gives up the pairing with its own writer although it keeps lock and writer: its
  requests then go to a channel on which nobody listens.
\<close>

lemma stale_announcement_unpairs_leader:
  "let t = fst (tab_onDiscovery (LeaderElected ''old'') (fst (tab_grant ''new'' (fst (createLeaderTransport ''c'')))))
   in t_writer t \<and> t_holdsLock t \<and> t_leaderId t = Some ''new'' \<and>
      t_pairChannel t = Some (pairChannelName ''old'' ''c'') \<and>
      snd (tab_post (request_wire 1 RPing) t) = [PairPost (pairChannelName ''old'' ''c'') (request_wire 1 RPing)]"
  by (simp add: tab_grant_def becomeLeader_def pairWithLeader_def tab_post_def createLeaderTransport_def
      action_defs Let_def request_wire_def)

text \<open>
  A follower that is told its leader failed reports an error event, on which the RPC client rejects
  every open request, but keeps those requests for replay: the next pairing posts them again, so a
  write whose caller saw it fail is still carried out.
\<close>

lemma rejected_requests_are_replayed:
  "let t0 = fst (tab_post (request_wire 1 (RDeleteNote i))
        (fst (tab_onDiscovery (PairAck ''A'' ''c'')
          (fst (tab_onDiscovery (LeaderElected ''A'') (fst (createLeaderTransport ''c'')))))));
      (t1, effs) = tab_onDiscovery (LeaderFailed ''A'' writerError) t0;
      t2 = fst (tab_onDiscovery (LeaderElected ''B'') t1)
   in EmitError \<in> set effs \<and>
      snd (tab_onDiscovery (PairAck ''B'' ''c'') t2) =
        [PairPost (pairChannelName ''B'' ''c'') (request_wire 1 (RDeleteNote i))]"
  by (simp add: pairWithLeader_def tab_post_def createLeaderTransport_def action_defs Let_def request_wire_def)

text \<open>
  A follower that is granted the lock and whose writer factory throws gives the lock back and never asks
  for it again. It stays paired with the leader it had before: what the page sends later is posted there
  and neither answered nor rejected.
\<close>

lemma promotion_failure_strands_requests:
  "let t0 = fst (tab_onDiscovery (PairAck ''A'' ''c'')
        (fst (tab_onDiscovery (LeaderElected ''A'') (fst (createLeaderTransport ''c'')))));
      (t1, effs) = tab_grant_throws ''B'' t0;
      (t2, sent) = tab_post (request_wire 1 RPing) t1
   in effs = [ReleaseLock, EmitError] \<and> \<not> t_waiting t2 \<and> \<not> t_failed t2 \<and>
      sent = [PairPost (pairChannelName ''A'' ''c'') (request_wire 1 RPing)] \<and>
      t_inFlight t2 = [(1, request_wire 1 RPing)]"
  by (simp add: pairWithLeader_def tab_post_def tab_grant_throws_def tab_lockRejected_def
      createLeaderTransport_def action_defs Let_def request_wire_def)

end
