(* ===== verification/Leader_System.thy ===== *)
theory Leader_System
  imports Leader_Transport
begin

text \<open>
  All tabs of one origin together (\<open>packages/storage/src/leader.ts\<close>). Each tab runs the transport of
  \<open>Leader_Transport\<close>; the browser's lock manager keeps the holder of \<open>opfs-db-writer\<close> and the queue of
  requests, first come first served. The channels are over-approximated: any message may reach any tab
  at any time, so lost, late, repeated and reordered messages are all covered. A request may be refused
  at any time, which covers an abort by \<open>close\<close>; an abort that comes too late is granted instead. A
  tab may be unloaded at any time, which takes its requests and its lock with it.
\<close>

section \<open>The lock manager and the tabs\<close>

record system =
  sys_tab :: "nat \<Rightarrow> tab option"
  sys_held :: "nat option"
  sys_queue :: "nat list"

fun lock_effect :: "nat \<Rightarrow> tab_effect \<Rightarrow> system \<Rightarrow> system" where
  "lock_effect n (RequestLock g) s = s\<lparr>sys_queue := sys_queue s @ [n]\<rparr>"
| "lock_effect n ReleaseLock s = (if sys_held s = Some n then s\<lparr>sys_held := None\<rparr> else s)"
| "lock_effect n e s = s"

definition perform :: "nat \<Rightarrow> tab \<times> tab_effect list \<Rightarrow> system \<Rightarrow> system" where
  "perform n r s = fold (lock_effect n) (snd r) (s\<lparr>sys_tab := (sys_tab s)(n \<mapsto> fst r)\<rparr>)"

definition sys_unload :: "nat \<Rightarrow> system \<Rightarrow> system" where
  "sys_unload n s = s\<lparr>sys_tab := (sys_tab s)(n := None), sys_queue := filter (\<lambda>m. m \<noteq> n) (sys_queue s),
     sys_held := if sys_held s = Some n then None else sys_held s\<rparr>"

inductive sys_step :: "system \<Rightarrow> system \<Rightarrow> bool" where
  sys_open: "sys_tab s n = None \<Longrightarrow> sys_step s (perform n (createLeaderTransport c) s)"
| sys_local: "sys_tab s n = Some t \<Longrightarrow> local_event t r \<Longrightarrow> sys_step s (perform n r s)"
| sys_grant: "sys_held s = None \<Longrightarrow> sys_queue s = n # q \<Longrightarrow> sys_tab s n = Some t \<Longrightarrow>
    sys_step s (perform n (tab_grant newId t) (s\<lparr>sys_held := Some n, sys_queue := q\<rparr>))"
| sys_grant_throws: "sys_held s = None \<Longrightarrow> sys_queue s = n # q \<Longrightarrow> sys_tab s n = Some t \<Longrightarrow>
    sys_step s (perform n (tab_grant_throws newId t) (s\<lparr>sys_held := Some n, sys_queue := q\<rparr>))"
| sys_refuse: "n \<in> set (sys_queue s) \<Longrightarrow> sys_tab s n = Some t \<Longrightarrow>
    sys_step s (perform n (tab_lockRejected t) (s\<lparr>sys_queue := remove1 n (sys_queue s)\<rparr>))"
| sys_unload: "sys_step s (sys_unload n s)"

definition sys_init :: "system \<Rightarrow> bool" where
  "sys_init s \<longleftrightarrow> s = \<lparr>sys_tab = (\<lambda>_. None), sys_held = None, sys_queue = []\<rparr>"

section \<open>What a handler asks of the lock manager\<close>

fun is_lock :: "tab_effect \<Rightarrow> bool" where
  "is_lock (RequestLock g) = True"
| "is_lock ReleaseLock = True"
| "is_lock _ = False"

lemma fold_lock_trace: "fold (lock_effect n) effs s = fold (lock_effect n) (filter is_lock effs) s"
proof (induction effs arbitrary: s)
  case (Cons e effs)
  then show ?case by (cases e) simp_all
qed simp

text \<open>
  A local event leaves the tab's standing with the lock manager alone, or gives the lock back, or gives
  it back and asks for it again.
\<close>

definition lock_neutral :: "tab \<Rightarrow> tab \<times> tab_effect list \<Rightarrow> bool" where
  "lock_neutral t r \<longleftrightarrow> filter is_lock (snd r) = [] \<and> t_waiting (fst r) = t_waiting t \<and>
     t_holdsLock (fst r) = t_holdsLock t"

definition lock_returned :: "tab \<Rightarrow> tab \<times> tab_effect list \<Rightarrow> bool" where
  "lock_returned t r \<longleftrightarrow> t_holdsLock t \<and> \<not> t_waiting t \<and> \<not> t_holdsLock (fst r) \<and>
     (filter is_lock (snd r) = [ReleaseLock] \<and> \<not> t_waiting (fst r) \<or>
      (\<exists>g. filter is_lock (snd r) = [ReleaseLock, RequestLock g]) \<and> t_waiting (fst r))"

lemma no_lock_posts [simp]:
  "filter is_lock (bridge_posts m effs) = []"
  "filter is_lock (map (\<lambda>(_, data). PairPost ch data) xs) = []"
  "filter is_lock (map (\<lambda>(i, _). EmitMessage (error_wire i msg)) ys) = []"
proof -
  show "filter is_lock (bridge_posts m effs) = []"
    unfolding bridge_posts_def
    by (induction effs) (auto split: bridge_effect.splits option.splits)
qed (auto simp: filter_empty_conv)

lemma onDiscovery_neutral: "lock_neutral t (tab_onDiscovery msg t)"
  by (induction msg t rule: tab_onDiscovery.induct)
    (auto simp: lock_neutral_def action_defs pairWithLeader_def Let_def split: option.splits)

lemma simple_neutral:
  "lock_neutral t (tab_onPairMessage data t)"
  "lock_neutral t (tab_onBridgeMessage client data t)"
  "lock_neutral t (tab_onWriterMessage data t)"
  "lock_neutral t (tab_timer t)"
  "lock_neutral t (tab_lockFinally g t)"
  "lock_neutral t (tab_post data t)"
  by (simp_all add: lock_neutral_def tab_onPairMessage_def tab_onBridgeMessage_def
      tab_onWriterMessage_def tab_timer_def tab_lockFinally_def tab_post_def action_defs
      case_prod_unfold split: option.splits)

lemma writerFailure_returns:
  assumes "tab_inv t" and "t_writer t"
  shows "lock_neutral t (handleWriterFailure l now t) \<or> lock_returned t (handleWriterFailure l now t)"
proof (cases "t_closed t \<or> t_leaderId t \<noteq> Some l")
  case False
  then have "t_holdsLock t" "\<not> t_waiting t" "t_writer t" using assms by (auto simp: tab_inv_def)
  with False show ?thesis
    by (auto simp: lock_returned_def handleWriterFailure_def restartLockRequest_def action_defs
        case_prod_unfold Let_def)
qed (simp add: handleWriterFailure_def lock_neutral_def)

lemma close_returns:
  assumes "tab_inv t"
  shows "lock_neutral t (tab_close t) \<or> lock_returned t (tab_close t)"
  using assms
  by (auto simp: lock_neutral_def lock_returned_def tab_close_def action_defs tab_inv_def
      split: option.splits)

lemma writerError_returns:
  "tab_inv t \<Longrightarrow> lock_neutral t (tab_writerError now t) \<or> lock_returned t (tab_writerError now t)"
  by (cases "t_errorListener t")
    (simp_all add: tab_writerError_def writerFailure_returns listener_writer, simp add: lock_neutral_def)

lemma local_event_lock:
  "local_event t r \<Longrightarrow> tab_inv t \<Longrightarrow> lock_neutral t r \<or> lock_returned t r"
  by (induction rule: local_event.cases)
    (simp_all add: onDiscovery_neutral simple_neutral close_returns writerError_returns)

section \<open>The invariant of the origin\<close>

definition sys_inv :: "system \<Rightarrow> bool" where
  "sys_inv s \<longleftrightarrow>
     (\<forall>n t. sys_tab s n = Some t \<longrightarrow>
        tab_inv t \<and> (t_waiting t \<longleftrightarrow> n \<in> set (sys_queue s)) \<and> (t_holdsLock t \<longleftrightarrow> sys_held s = Some n)) \<and>
     distinct (sys_queue s) \<and>
     (\<forall>n \<in> set (sys_queue s). sys_tab s n \<noteq> None) \<and>
     (\<forall>n. sys_held s = Some n \<longrightarrow> sys_tab s n \<noteq> None)"

lemma perform_neutral:
  "lock_neutral t r \<Longrightarrow> perform n r s = s\<lparr>sys_tab := (sys_tab s)(n \<mapsto> fst r)\<rparr>"
  by (simp add: lock_neutral_def perform_def fold_lock_trace [of n "snd r"])

lemma local_step_inv:
  assumes "sys_inv s" and "sys_tab s n = Some t" and "local_event t r"
  shows "sys_inv (perform n r s)"
proof -
  have "tab_inv t" using assms by (simp add: sys_inv_def)
  then have inv': "tab_inv (fst r)" using local_event_inv assms(3) by blast
  from local_event_lock [OF assms(3) \<open>tab_inv t\<close>] show ?thesis
  proof
    assume "lock_neutral t r"
    then show ?thesis
      using assms inv' by (simp add: perform_neutral) (simp add: lock_neutral_def sys_inv_def)
  next
    assume *: "lock_returned t r"
    then have "sys_held s = Some n" "n \<notin> set (sys_queue s)"
      using assms by (auto simp: sys_inv_def lock_returned_def)
    then have lock: "perform n r s = s\<lparr>sys_tab := (sys_tab s)(n \<mapsto> fst r), sys_held := None,
        sys_queue := sys_queue s @ (if t_waiting (fst r) then [n] else [])\<rparr>"
      using * by (cases s) (auto simp: lock_returned_def perform_def fold_lock_trace [of n "snd r"])
    show ?thesis
      using * assms inv' \<open>n \<notin> set (sys_queue s)\<close> \<open>sys_held s = Some n\<close>
      unfolding lock by (simp add: lock_returned_def sys_inv_def)
  qed
qed

lemma open_step_inv:
  assumes "sys_inv s" and "sys_tab s n = None"
  shows "sys_inv (perform n (createLeaderTransport c) s)"
proof -
  let ?t = "fst (createLeaderTransport c)"
  have "perform n (createLeaderTransport c) s =
      s\<lparr>sys_tab := (sys_tab s)(n \<mapsto> ?t), sys_queue := sys_queue s @ [n]\<rparr>"
    by (simp add: perform_def createLeaderTransport_def action_defs)
  moreover have "tab_inv ?t" "t_waiting ?t" "\<not> t_holdsLock ?t"
    using createLeaderTransport_inv by (simp_all add: createLeaderTransport_def action_defs)
  ultimately show ?thesis using assms by (auto simp: sys_inv_def)
qed

lemma grant_effects:
  assumes "tab_inv t"
  shows "filter is_lock (snd (tab_grant newId t)) = (if t_closed t then [ReleaseLock] else [])"
    and "t_holdsLock (fst (tab_grant newId t)) \<longleftrightarrow> \<not> t_closed t"
    and "\<not> t_waiting (fst (tab_grant newId t))"
  using assms by (auto simp: tab_grant_def becomeLeader_def action_defs Let_def tab_inv_def)

lemma grant_perform:
  assumes "tab_inv t"
  shows "perform n (tab_grant newId t) (s\<lparr>sys_held := Some n, sys_queue := q\<rparr>) =
    s\<lparr>sys_tab := (sys_tab s)(n \<mapsto> fst (tab_grant newId t)),
      sys_held := if t_closed t then None else Some n, sys_queue := q\<rparr>"
  by (cases s) (simp add: perform_def fold_lock_trace [of n "snd (tab_grant newId t)"] grant_effects [OF assms])

lemma grant_step_inv:
  assumes "sys_inv s" and "sys_held s = None" and "sys_queue s = n # q" and "sys_tab s n = Some t"
  shows "sys_inv (perform n (tab_grant newId t) (s\<lparr>sys_held := Some n, sys_queue := q\<rparr>))"
proof -
  have inv: "tab_inv t" "t_waiting t" using assms by (simp_all add: sys_inv_def)
  then have "tab_inv (fst (tab_grant newId t))" by (rule tab_grant_inv)
  then show ?thesis
    using assms grant_effects(2,3) [OF inv(1), of newId] unfolding grant_perform [OF inv(1)]
    by (auto simp: sys_inv_def)
qed

lemma grant_throws_step_inv:
  assumes "sys_inv s" and "sys_held s = None" and "sys_queue s = n # q" and "sys_tab s n = Some t"
  shows "sys_inv (perform n (tab_grant_throws newId t) (s\<lparr>sys_held := Some n, sys_queue := q\<rparr>))"
proof -
  let ?r = "tab_grant_throws newId t"
  have inv: "tab_inv t" "t_waiting t" using assms by (simp_all add: sys_inv_def)
  then have "tab_inv (fst ?r)" by (rule tab_grant_throws_inv)
  moreover have "filter is_lock (snd ?r) = [ReleaseLock]" "\<not> t_waiting (fst ?r)" "\<not> t_holdsLock (fst ?r)"
    using inv by (auto simp: tab_grant_throws_def tab_lockRejected_def action_defs tab_inv_def)
  ultimately show ?thesis
    using assms by (auto simp: perform_def fold_lock_trace [of n "snd ?r"] sys_inv_def)
qed

lemma refuse_step_inv:
  assumes "sys_inv s" and "n \<in> set (sys_queue s)" and "sys_tab s n = Some t"
  shows "sys_inv (perform n (tab_lockRejected t) (s\<lparr>sys_queue := remove1 n (sys_queue s)\<rparr>))"
proof -
  let ?r = "tab_lockRejected t"
  have "tab_inv (fst ?r)" using assms tab_lock_inv(1) by (simp add: sys_inv_def)
  moreover have "filter is_lock (snd ?r) = []" "\<not> t_waiting (fst ?r)" "t_holdsLock (fst ?r) = t_holdsLock t"
    by (simp_all add: tab_lockRejected_def action_defs)
  ultimately show ?thesis
    using assms by (auto simp: perform_def fold_lock_trace [of n "snd ?r"] sys_inv_def)
qed

lemma unload_step_inv: "sys_inv s \<Longrightarrow> sys_inv (sys_unload n s)"
  by (auto simp: sys_inv_def sys_unload_def)

interpretation origin: inductive_invariant sys_init sys_step sys_inv
proof (unfold_locales, goal_cases)
  case (1 s)
  then show ?case by (simp add: sys_init_def sys_inv_def)
next
  case (2 s s')
  from 2(2,1) show ?case
    by (induction rule: sys_step.cases)
      (simp_all add: open_step_inv local_step_inv grant_step_inv grant_throws_step_inv refuse_step_inv unload_step_inv)
qed

section \<open>Properties\<close>

text \<open>Two tabs open one after the other and the first is granted the lock.\<close>

definition two_tabs :: system where
  "two_tabs =
     (let a = createLeaderTransport ''a''; b = createLeaderTransport ''b''
      in \<lparr>sys_tab = [0 \<mapsto> fst (tab_grant ''A'' (fst a)), 1 \<mapsto> fst b], sys_held = Some 0, sys_queue = [1]\<rparr>)"

lemma created_lock:
  "filter is_lock (snd (createLeaderTransport c)) = [RequestLock 1]"
  "\<not> t_closed (fst (createLeaderTransport c))"
  by (simp_all add: createLeaderTransport_def action_defs)

lemma perform_created:
  "perform n (createLeaderTransport c) s =
     s\<lparr>sys_tab := (sys_tab s)(n \<mapsto> fst (createLeaderTransport c)), sys_queue := sys_queue s @ [n]\<rparr>"
  by (simp add: perform_def fold_lock_trace [of n "snd (createLeaderTransport c)"] created_lock)

lemma two_tabs_reach: "reach sys_init sys_step two_tabs"
proof -
  let ?a = "fst (createLeaderTransport ''a'')" and ?b = "fst (createLeaderTransport ''b'')"
  let ?s0 = "\<lparr>sys_tab = \<lambda>_. None, sys_held = None, sys_queue = []\<rparr> :: system"
  let ?s1 = "\<lparr>sys_tab = [0 \<mapsto> ?a], sys_held = None, sys_queue = [0]\<rparr> :: system"
  let ?s2 = "\<lparr>sys_tab = [0 \<mapsto> ?a, 1 \<mapsto> ?b], sys_held = None, sys_queue = [0, 1]\<rparr> :: system"
  have "reach sys_init sys_step ?s0" by (rule reach_init) (simp add: sys_init_def)
  moreover have "sys_step ?s0 ?s1"
    using sys_open [of ?s0 0 "''a''"] by (simp add: perform_created)
  moreover have "sys_step ?s1 ?s2"
    using sys_open [of ?s1 1 "''b''"] by (simp add: perform_created)
  moreover have "sys_step ?s2 two_tabs"
    using sys_grant [of ?s2 0 "[1]" ?a "''A''", unfolded grant_perform [OF createLeaderTransport_inv]]
    by (simp add: created_lock two_tabs_def fun_upd_twist)
  ultimately show ?thesis by (blast intro: reach_step)
qed

text \<open>
  C22: one writer per origin. In every reachable state of all the tabs, with any messages, timers,
  crashes, closes and unloads, at most one tab runs a storage writer; it holds the lock and is neither
  closed nor failed; and a held lock always belongs to an open tab that runs the writer, so the lock
  is never left behind by a tab that stopped leading.
\<close>

theorem single_writer:
  assumes "reach sys_init sys_step s"
  shows "(\<forall>m n t u. sys_tab s m = Some t \<and> sys_tab s n = Some u \<and> t_writer t \<and> t_writer u \<longrightarrow> m = n) \<and>
    (\<forall>n t. sys_tab s n = Some t \<and> t_writer t \<longrightarrow>
       sys_held s = Some n \<and> \<not> t_closed t \<and> \<not> t_failed t) \<and>
    (\<forall>n. sys_held s = Some n \<longrightarrow> (\<exists>t. sys_tab s n = Some t \<and> t_writer t))"
proof -
  have inv: "sys_inv s" using assms by (rule origin.reach_inv)
  then have tab: "tab_inv t \<and> (t_writer t \<longleftrightarrow> sys_held s = Some n)" if "sys_tab s n = Some t" for n t
    using that by (auto simp: sys_inv_def tab_inv_def)
  then have "\<not> t_closed t \<and> \<not> t_failed t" if "sys_tab s n = Some t" "t_writer t" for n t
    using that by (auto simp: tab_inv_def)
  moreover have "\<exists>t. sys_tab s n = Some t" if "sys_held s = Some n" for n
    using inv that by (auto simp: sys_inv_def)
  ultimately show ?thesis using tab by (metis option.inject)
qed

theorem single_writer_witness:
  "(\<exists>t. sys_tab two_tabs 0 = Some t \<and> t_writer t) \<and> (\<exists>t. sys_tab two_tabs 1 = Some t \<and> \<not> t_writer t)"
proof -
  let ?t = "fst (tab_grant ''A'' (fst (createLeaderTransport ''a'')))"
  have "sys_tab two_tabs 0 = Some ?t" "sys_tab two_tabs 1 = Some (fst (createLeaderTransport ''b''))"
    by (simp_all add: two_tabs_def)
  moreover have "t_writer ?t"
    by (simp add: tab_grant_def becomeLeader_def createLeaderTransport_def action_defs Let_def)
  ultimately show ?thesis using single_writer [OF two_tabs_reach] by (metis zero_neq_one)
qed

lemma leader_stops:
  assumes "tab_inv t" and "t_holdsLock t"
  shows "lock_returned t (tab_close t)" and "lock_returned t (tab_writerError now t)"
proof -
  have facts: "\<not> t_waiting t" "t_writer t" "\<not> t_closed t" "t_errorListener t = t_leaderId t"
      "t_leaderId t \<noteq> None"
    using assms by (auto simp: tab_inv_def)
  then have "\<not> t_holdsLock (fst (tab_close t))" by (simp add: tab_close_def action_defs)
  then show "lock_returned t (tab_close t)"
    using close_returns [OF assms(1)] assms(2) by (auto simp: lock_neutral_def)
  obtain l where l: "t_leaderId t = Some l" using facts by auto
  have "\<not> t_holdsLock (fst (handleWriterFailure l now t))"
    using facts l by (simp add: handleWriterFailure_def restartLockRequest_def action_defs
        case_prod_unfold Let_def)
  then show "lock_returned t (tab_writerError now t)"
    using writerFailure_returns [OF assms(1), of l now] assms(2) facts l
    by (auto simp: lock_neutral_def tab_writerError_def)
qed

lemma perform_returned:
  "lock_returned t r \<Longrightarrow> sys_held s = Some n \<Longrightarrow>
     perform n r s = s\<lparr>sys_tab := (sys_tab s)(n \<mapsto> fst r), sys_held := None,
       sys_queue := sys_queue s @ (if t_waiting (fst r) then [n] else [])\<rparr>"
  by (cases s) (auto simp: lock_returned_def perform_def fold_lock_trace [of n "snd r"])

text \<open>
  C26: the lead is handed over. When the leading tab closes its transport, or its writer crashes, the
  lock is free in that very step, and the tab that has waited longest can be granted it; once granted
  it runs the writer, is paired with itself, and posts every request its page has open to the new
  writer before it announces itself.
\<close>

theorem leader_handover:
  assumes "reach sys_init sys_step s" and "sys_held s = Some n" and "sys_tab s n = Some t"
    and "sys_queue s = m # q" and "sys_tab s m = Some u" and "\<not> t_closed u"
    and "r = tab_close t \<or> r = tab_writerError now t"
  shows "sys_held (perform n r s) = None \<and>
    (\<exists>s' u'. sys_step (perform n r s) s' \<and> sys_held s' = Some m \<and> sys_tab s' m = Some u' \<and>
       t_writer u' \<and> t_leaderId u' = Some newId \<and>
       t_pairChannel u' = Some (pairChannelName newId (t_clientId u)) \<and>
       snd (tab_grant newId u) = SpawnWriter #
         map (\<lambda>(_, data). PairPost (pairChannelName newId (t_clientId u)) data) (t_inFlight u) @
         [Discover (LeaderElected newId)])"
proof -
  have inv: "sys_inv s" using assms(1) by (rule origin.reach_inv)
  then have "tab_inv t" "t_holdsLock t" "tab_inv u" "m \<noteq> n"
    using assms(2-5) by (auto simp: sys_inv_def tab_inv_def)
  then have returned: "lock_returned t r" using leader_stops assms(7) by blast
  let ?s1 = "perform n r s"
  have s1: "sys_held ?s1 = None" "sys_tab ?s1 m = Some u"
      "sys_queue ?s1 = m # (q @ (if t_waiting (fst r) then [n] else []))"
    using assms \<open>m \<noteq> n\<close> by (simp_all add: perform_returned [OF returned])
  let ?s2 = "perform m (tab_grant newId u)
    (?s1\<lparr>sys_held := Some m, sys_queue := q @ (if t_waiting (fst r) then [n] else [])\<rparr>)"
  have "sys_step ?s1 ?s2" using s1 by (intro sys_grant)
  moreover have "sys_held ?s2 = Some m" "sys_tab ?s2 m = Some (fst (tab_grant newId u))"
    using assms(6) by (simp_all add: grant_perform [OF \<open>tab_inv u\<close>])
  ultimately show ?thesis
    using s1(1) assms(6) by (auto simp: tab_grant_def becomeLeader_def action_defs Let_def)
qed

theorem leader_handover_witness:
  "\<exists>s' u'. sys_step (perform 0 (tab_close (the (sys_tab two_tabs 0))) two_tabs) s' \<and>
     sys_held s' = Some 1 \<and> sys_tab s' 1 = Some u' \<and> t_writer u'"
proof -
  have "sys_held two_tabs = Some 0" "sys_tab two_tabs 0 = Some (the (sys_tab two_tabs 0))"
    "sys_queue two_tabs = [1]" "sys_tab two_tabs 1 = Some (fst (createLeaderTransport ''b''))"
    "\<not> t_closed (fst (createLeaderTransport ''b''))"
    by (simp_all add: two_tabs_def created_lock)
  from leader_handover [OF two_tabs_reach this, of "tab_close (the (sys_tab two_tabs 0))" 0 "''B''"]
  show ?thesis by blast
qed

end
