(* ===== verification/Share_Wire.thy ===== *)
theory Share_Wire
  imports Js_Text
begin

text \<open>
  The wire formats of note sharing: the typed errors (\<open>packages/share-client/src/errors.ts\<close>), the
  pickup code (\<open>code.ts\<close> and \<open>apps/web/src/share/format-code.ts\<close>), the mint response
  (\<open>mint-response.ts\<close>) and the share blob (\<open>blob.ts\<close>). An error carries its kind and status; its
  message text is left out. A JavaScript number is a whole number or not; whole numbers are exact.
\<close>

section \<open>Errors\<close>

datatype share_error_kind = NetworkError | RendezvousNotFound | RendezvousExpired | CommitmentMismatch |
  BlobAlreadyUploaded | BlobUnavailable | RateLimited | OriginDenied | ProtocolError

record share_error =
  se_kind :: share_error_kind
  se_status :: "nat option"

definition share_fail :: "share_error_kind \<Rightarrow> share_error + 'a" where
  "share_fail k = Inl \<lparr>se_kind = k, se_status = None\<rparr>"

datatype share_context = FetchRendezvous | UploadBlob | DownloadBlob | Mint

definition shareErrorForStatus :: "nat \<Rightarrow> share_context \<Rightarrow> share_error" where
  "shareErrorForStatus status context =
     \<lparr>se_kind =
        (if status = 403 then OriginDenied
         else if status = 404 then (if context = DownloadBlob then BlobUnavailable else RendezvousNotFound)
         else if status = 409 then BlobAlreadyUploaded
         else if status = 410 then RendezvousExpired
         else if status = 429 then RateLimited
         else ProtocolError),
      se_status = Some status\<rparr>"

section \<open>The pickup code\<close>

definition CODE_LEN :: nat where "CODE_LEN = 12"

definition code_char :: "code_unit \<Rightarrow> bool" where
  "code_char c \<longleftrightarrow> is_digit c \<or> 65 \<le> c \<and> c \<le> 90"

definition matches_code :: "jsstring \<Rightarrow> bool" where
  "matches_code s \<longleftrightarrow> length s = CODE_LEN \<and> list_all code_char s"

text \<open>
  \<open>toUpperCase\<close>, as far as the pattern can see it: the characters whose upper case consists of ASCII
  letters are mapped to them; every other character has an upper case that the pattern refuses, as it
  refuses the character itself, and is left alone.
\<close>

definition upper_unit :: "code_unit \<Rightarrow> jsstring" where
  "upper_unit c =
     (if 97 \<le> c \<and> c \<le> 122 then [c - 32]
      else if c = 0xDF then js ''SS'' else if c = 0x131 then js ''I'' else if c = 0x17F then js ''S''
      else if c = 0xFB00 then js ''FF'' else if c = 0xFB01 then js ''FI'' else if c = 0xFB02 then js ''FL''
      else if c = 0xFB03 then js ''FFI'' else if c = 0xFB04 then js ''FFL''
      else if c = 0xFB05 \<or> c = 0xFB06 then js ''ST''
      else [c])"

definition toUpperCase :: "jsstring \<Rightarrow> jsstring" where
  "toUpperCase s = concat (map upper_unit s)"

definition is_separator :: "code_unit \<Rightarrow> bool" where
  "is_separator c \<longleftrightarrow> js_space c \<or> c = minus_unit"

definition normalizeCode :: "jsstring \<Rightarrow> jsstring option" where
  "normalizeCode raw =
     (let cleaned = toUpperCase (filter (\<lambda>c. \<not> is_separator c) raw)
      in if matches_code cleaned then Some cleaned else None)"

definition GROUP_SIZE :: nat where "GROUP_SIZE = 4"

function code_groups :: "jsstring \<Rightarrow> jsstring list" where
  "code_groups s = (if s = [] then [] else take GROUP_SIZE s # code_groups (drop GROUP_SIZE s))"
  by auto

termination code_groups
  by (relation "measure length") (simp_all add: GROUP_SIZE_def)

declare code_groups.simps [simp del]

fun join_units :: "code_unit \<Rightarrow> jsstring list \<Rightarrow> jsstring" where
  "join_units sep [] = []"
| "join_units sep [p] = p"
| "join_units sep (p # q # ps) = p @ sep # join_units sep (q # ps)"

definition formatCodeForDisplay :: "jsstring \<Rightarrow> jsstring" where
  "formatCodeForDisplay code = join_units minus_unit (code_groups code)"

section \<open>The mint response\<close>

definition PROTOCOL_VERSION :: byte where "PROTOCOL_VERSION = 1"
definition COMMITMENT_CODE_LEN :: nat where "COMMITMENT_CODE_LEN = 12"
definition MINT_RESPONSE_LEN :: nat where "MINT_RESPONSE_LEN = 1 + 8 + COMMITMENT_CODE_LEN"

datatype js_number = Whole int | Fractional

record mint_parts =
  mp_code :: jsstring
  mp_expiresAt :: js_number

text \<open>\<open>DataView.setUint32\<close> and \<open>getUint32\<close>, big endian; the argument is taken modulo \<open>2 ^ 32\<close>.\<close>

definition uint32_bytes :: "int \<Rightarrow> bytes" where
  "uint32_bytes x = (let n = nat (x mod 2 ^ 32) in map (\<lambda>i. of_nat (n div 256 ^ i mod 256)) [3, 2, 1, 0])"

definition uint32_of_bytes :: "bytes \<Rightarrow> int" where
  "uint32_of_bytes bs = int (horner 256 (map unat bs))"

definition ascii_bytes :: "jsstring \<Rightarrow> share_error + bytes" where
  "ascii_bytes s = map_result (\<lambda>c. if c > 0x7F then share_fail ProtocolError else Inr (ucast c)) s"

definition encodeMintResponse :: "mint_parts \<Rightarrow> share_error + bytes" where
  "encodeMintResponse parts =
     (if length (mp_code parts) \<noteq> COMMITMENT_CODE_LEN then share_fail ProtocolError
      else case mp_expiresAt parts of
        Fractional \<Rightarrow> share_fail ProtocolError
      | Whole t \<Rightarrow>
          if t < 0 then share_fail ProtocolError
          else bind_result (ascii_bytes (mp_code parts)) (\<lambda>code.
            Inr (PROTOCOL_VERSION # uint32_bytes (t div 2 ^ 32) @ uint32_bytes t @ code)))"

definition decodeMintResponse :: "bytes \<Rightarrow> share_error + mint_parts" where
  "decodeMintResponse bs =
     (if length bs \<noteq> MINT_RESPONSE_LEN then share_fail ProtocolError
      else if bs ! 0 \<noteq> PROTOCOL_VERSION then share_fail ProtocolError
      else
        let hi = uint32_of_bytes (take 4 (drop 1 bs)); lo = uint32_of_bytes (take 4 (drop 5 bs))
        in if hi > 0x1FFFFF then share_fail ProtocolError
           else if list_ex (\<lambda>b. b > 0x7F) (drop 9 bs) then share_fail ProtocolError
           else Inr \<lparr>mp_code = map ucast (drop 9 bs), mp_expiresAt = Whole (hi * 2 ^ 32 + lo)\<rparr>)"

section \<open>The share blob\<close>

definition X25519_PUBKEY_LEN :: nat where "X25519_PUBKEY_LEN = 32"
definition SHARE_NONCE_LEN :: nat where "SHARE_NONCE_LEN = 12"
definition SHARE_BLOB_HEADER_LEN :: nat where
  "SHARE_BLOB_HEADER_LEN = 1 + X25519_PUBKEY_LEN + SHARE_NONCE_LEN"

record share_blob_parts =
  bp_senderPubkey :: bytes
  bp_nonce :: bytes
  bp_ciphertext :: bytes

definition encodeShareBlob :: "share_blob_parts \<Rightarrow> share_error + bytes" where
  "encodeShareBlob parts =
     (if length (bp_senderPubkey parts) \<noteq> X25519_PUBKEY_LEN then share_fail ProtocolError
      else if length (bp_nonce parts) \<noteq> SHARE_NONCE_LEN then share_fail ProtocolError
      else Inr (PROTOCOL_VERSION # bp_senderPubkey parts @ bp_nonce parts @ bp_ciphertext parts))"

definition decodeShareBlob :: "bytes \<Rightarrow> share_error + share_blob_parts" where
  "decodeShareBlob bs =
     (if length bs < SHARE_BLOB_HEADER_LEN then share_fail ProtocolError
      else if bs ! 0 \<noteq> PROTOCOL_VERSION then share_fail ProtocolError
      else Inr \<lparr>bp_senderPubkey = take X25519_PUBKEY_LEN (drop 1 bs),
        bp_nonce = take (SHARE_BLOB_HEADER_LEN - (1 + X25519_PUBKEY_LEN)) (drop (1 + X25519_PUBKEY_LEN) bs),
        bp_ciphertext = drop SHARE_BLOB_HEADER_LEN bs\<rparr>)"

lemmas share_lengths = CODE_LEN_def COMMITMENT_CODE_LEN_def MINT_RESPONSE_LEN_def
  X25519_PUBKEY_LEN_def SHARE_NONCE_LEN_def SHARE_BLOB_HEADER_LEN_def

section \<open>Codes as displayed and as typed\<close>

lemma code_char_unat: "code_char c \<longleftrightarrow> 48 \<le> unat c \<and> unat c \<le> 57 \<or> 65 \<le> unat c \<and> unat c \<le> 90"
  by (simp add: code_char_def is_digit_def word_le_nat_alt)

lemma code_char_plain: "code_char c \<Longrightarrow> upper_unit c = [c] \<and> \<not> is_separator c \<and> c < 0x80"
  by (auto simp: code_char_unat upper_unit_def is_separator_def js_space_def word_le_nat_alt word_less_nat_alt)

lemma toUpperCase_code: "list_all code_char s \<Longrightarrow> toUpperCase s = s"
  unfolding toUpperCase_def by (induction s) (auto simp: code_char_plain)

lemma code_groups_concat: "concat (code_groups s) = s"
proof (induction s rule: code_groups.induct)
  case (1 s)
  then show ?case
    by (subst code_groups.simps) simp
qed

lemma filter_join:
  "P sep = False \<Longrightarrow> filter P (join_units sep ps) = filter P (concat ps)"
  by (induction sep ps rule: join_units.induct) simp_all

lemma normalize_display:
  assumes "matches_code code"
  shows "normalizeCode (formatCodeForDisplay code) = Some code"
proof -
  have chars: "list_all code_char code" using assms by (simp add: matches_code_def)
  have "filter (\<lambda>c. \<not> is_separator c) (formatCodeForDisplay code) = filter (\<lambda>c. \<not> is_separator c) code"
    by (simp add: formatCodeForDisplay_def filter_join is_separator_def code_groups_concat)
  also have "\<dots> = code" using chars by (auto simp: filter_id_conv list_all_iff code_char_plain)
  finally show ?thesis using chars assms by (simp add: normalizeCode_def toUpperCase_code)
qed

text \<open>How a user may type a code: any separators between its characters, letters in either case.\<close>

definition typed_as :: "jsstring \<Rightarrow> jsstring \<Rightarrow> bool" where
  "typed_as code raw \<longleftrightarrow>
     list_all2 (\<lambda>a b. b = a \<or> 65 \<le> a \<and> a \<le> 90 \<and> b = a + 32) code (filter (\<lambda>c. \<not> is_separator c) raw)"

lemma upper_typed:
  assumes "code_char a" and "b = a \<or> 65 \<le> a \<and> a \<le> 90 \<and> b = a + 32"
  shows "upper_unit b = [a]"
proof (cases "b = a")
  case False
  then have b: "b = a + 32" "65 \<le> unat a" "unat a \<le> 90" using assms(2) by (auto simp: word_le_nat_alt)
  then have "unat b = unat a + 32" by (simp add: unat_word_ariths)
  with b show ?thesis by (simp add: upper_unit_def word_le_nat_alt)
qed (use assms(1) code_char_plain in simp)

lemma normalize_typed:
  assumes "matches_code code" and "typed_as code raw"
  shows "normalizeCode raw = Some code"
proof -
  have "list_all2 (\<lambda>a b. upper_unit b = [a]) code (filter (\<lambda>c. \<not> is_separator c) raw)"
    using assms upper_typed unfolding typed_as_def matches_code_def
    by (auto simp: list_all2_conv_all_nth list_all_length)
  then have "toUpperCase (filter (\<lambda>c. \<not> is_separator c) raw) = code"
    unfolding toUpperCase_def by (induction rule: list_all2_induct) auto
  with assms show ?thesis by (simp add: normalizeCode_def)
qed

lemma normalize_matches: "normalizeCode raw = Some c \<Longrightarrow> matches_code c"
  by (auto simp: normalizeCode_def Let_def split: if_splits)

lemma typed_plain: "matches_code code \<Longrightarrow> typed_as code code"
proof -
  assume "matches_code code"
  then have "filter (\<lambda>c. \<not> is_separator c) code = code"
    by (simp add: filter_id_conv matches_code_def list_all_iff code_char_plain)
  then show ?thesis by (simp add: typed_as_def list_all2_same)
qed

text \<open>
  Typed codes. What \<open>normalizeCode\<close> returns is always twelve characters of the pattern, and
  normalising it again changes nothing. A code of that form survives being displayed in groups, and
  is recovered from any way of typing it with separators and lower-case letters.
\<close>

theorem code_normalization:
  "(\<forall>raw c. normalizeCode raw = Some c \<longrightarrow> matches_code c \<and> normalizeCode c = Some c) \<and>
   (\<forall>code. matches_code code \<longrightarrow> normalizeCode (formatCodeForDisplay code) = Some code) \<and>
   (\<forall>code raw. matches_code code \<and> typed_as code raw \<longrightarrow> normalizeCode raw = Some code)"
  using normalize_matches normalize_display normalize_typed typed_plain by blast

theorem code_normalization_witness:
  "normalizeCode (js ''abcd-efgh jkmn'') = Some (js ''ABCDEFGHJKMN'') \<and>
   normalizeCode (formatCodeForDisplay (js ''ABCDEFGHJKMN'')) = Some (js ''ABCDEFGHJKMN'')"
proof -
  have "matches_code (js ''ABCDEFGHJKMN'')" "typed_as (js ''ABCDEFGHJKMN'') (js ''abcd-efgh jkmn'')"
    by code_simp+
  then show ?thesis using code_normalization by blast
qed

section \<open>Framing\<close>

lemma map_result_ascii:
  "map_result (\<lambda>c. if c > 0x7F then share_fail ProtocolError else Inr (ucast c)) s =
     (if list_ex (\<lambda>c. c > 0x7F) s then share_fail ProtocolError else Inr (map ucast s))"
  by (induction s) (auto simp: share_fail_def)

lemma ucast_ascii:
  "ucast (ucast c :: byte) = c" if "c \<le> 0x7F" for c :: code_unit
proof -
  have "unat c < 256" using that by (simp add: word_le_nat_alt)
  then show ?thesis by (simp add: word_unat_eq_iff unsigned_ucast_eq unsigned_take_bit_eq take_bit_nat_eq_self)
qed

lemma horner_uint32: "horner 256 (map unat (uint32_bytes x)) = nat (x mod 2 ^ 32)"
proof -
  define n where "n = nat (x mod 2 ^ 32)"
  have n: "n < 2 ^ 32" unfolding n_def by (simp add: nat_less_iff)
  have digits: "n div 65536 = n div 256 div 256" "n div 16777216 = n div 256 div 256 div 256"
    by (simp_all add: div_mult2_eq [symmetric])
  have top: "n div 16777216 mod 256 = n div 16777216" using n by simp
  then have "((n div 16777216 * 256 + n div 65536 mod 256) * 256 + n div 256 mod 256) * 256 + n mod 256 = n"
    unfolding digits by presburger
  then show ?thesis
    using top unfolding uint32_bytes_def Let_def n_def [symmetric]
    by (simp add: horner_def unat_of_nat take_bit_nat_eq_self)
qed

lemma uint32_round_trip: "uint32_of_bytes (uint32_bytes x) = x mod 2 ^ 32"
  by (simp add: uint32_of_bytes_def horner_uint32)

lemma uint32_bytes_length [simp]: "length (uint32_bytes x) = 4"
  by (simp add: uint32_bytes_def Let_def)

lemma uint32_of_bytes_range:
  assumes "length bs = 4"
  shows "0 \<le> uint32_of_bytes bs \<and> uint32_of_bytes bs < 2 ^ 32"
proof -
  have "horner 256 (map unat bs) < 256 ^ length (map unat bs)"
    by (rule horner_less) (auto simp: unat_byte_less)
  with assms show ?thesis by (simp add: uint32_of_bytes_def)
qed

lemma uint32_bytes_of_bytes:
  assumes "length bs = 4" and "uint32_of_bytes bs = x mod 2 ^ 32"
  shows "uint32_bytes x = bs"
proof -
  have "map unat (uint32_bytes x) = map unat bs"
    by (rule horner_inject [of _ _ 256])
      (use assms in \<open>auto simp: horner_uint32 uint32_of_bytes_def unat_byte_less simp flip: assms(2)\<close>)
  then show ?thesis by (simp add: map_unat_inject)
qed

definition mint_ok :: "mint_parts \<Rightarrow> bool" where
  "mint_ok p \<longleftrightarrow> length (mp_code p) = COMMITMENT_CODE_LEN \<and> list_all (\<lambda>c. c \<le> 0x7F) (mp_code p) \<and>
     (\<exists>t. mp_expiresAt p = Whole t \<and> 0 \<le> t \<and> t < 2 ^ 53)"

lemma ascii_bytes_ok: "list_all (\<lambda>c. c \<le> 0x7F) s \<Longrightarrow> ascii_bytes s = Inr (map ucast s)"
  unfolding ascii_bytes_def map_result_ascii by (auto simp: list_all_iff list_ex_iff)

lemma ucast_ascii_list: "list_all (\<lambda>c. c \<le> 0x7F) s \<Longrightarrow> map ucast (map ucast s :: bytes) = s" for s :: jsstring
  by (induction s) (auto simp: ucast_ascii)

lemma ascii_unit_byte: "(ucast c :: byte) \<le> 0x7F" if "c \<le> 0x7F" for c :: code_unit
proof -
  have "unat c < 256" using that by (simp add: word_le_nat_alt)
  with that show ?thesis
    by (simp add: word_le_nat_alt unsigned_ucast_eq unsigned_take_bit_eq take_bit_nat_eq_self)
qed

lemma mint_encode_eq:
  assumes "mint_ok p" and "mp_expiresAt p = Whole t"
  shows "encodeMintResponse p =
    Inr (PROTOCOL_VERSION # uint32_bytes (t div 2 ^ 32) @ uint32_bytes t @ map ucast (mp_code p))"
  using assms by (simp add: mint_ok_def encodeMintResponse_def ascii_bytes_ok)

lemma mint_decode_encode:
  assumes "mint_ok p" and "encodeMintResponse p = Inr bs"
  shows "decodeMintResponse bs = Inr p"
proof -
  obtain t where t: "mp_expiresAt p = Whole t" "0 \<le> t" "t < 2 ^ 53" using assms(1) by (auto simp: mint_ok_def)
  have code: "length (mp_code p) = 12" "list_all (\<lambda>c. c \<le> 0x7F) (mp_code p)"
    using assms(1) by (simp_all add: mint_ok_def share_lengths)
  have bs: "bs = PROTOCOL_VERSION # uint32_bytes (t div 2 ^ 32) @ uint32_bytes t @ map ucast (mp_code p)"
    using mint_encode_eq [OF assms(1) t(1)] assms(2) by simp
  have "t div 2 ^ 32 mod 2 ^ 32 = t div 2 ^ 32" "t div 2 ^ 32 \<le> 0x1FFFFF" using t by simp_all
  moreover have "t div 2 ^ 32 * 2 ^ 32 + t mod 2 ^ 32 = t" by simp
  moreover have "\<not> list_ex (\<lambda>b. b > 0x7F) (map ucast (mp_code p) :: bytes)"
    using code(2) ascii_unit_byte by (auto simp: list_ex_iff list_all_iff not_less)
  ultimately show ?thesis
    using code t(1) unfolding bs
    by (simp add: decodeMintResponse_def share_lengths uint32_round_trip Let_def ucast_ascii_list
        del: map_map)
qed

lemma list9:
  assumes "length bs = 21"
  shows "bs = bs ! 0 # take 4 (drop 1 bs) @ take 4 (drop 5 bs) @ drop 9 bs"
proof -
  have "drop 1 bs = take 4 (drop 1 bs) @ drop 5 bs" "drop 5 bs = take 4 (drop 5 bs) @ drop 9 bs"
    using append_take_drop_id [of 4 "drop 1 bs"] append_take_drop_id [of 4 "drop 5 bs"] by simp_all
  moreover have "bs = bs ! 0 # drop 1 bs" using assms by (cases bs) simp_all
  ultimately show ?thesis by metis
qed

lemma byte_ascii: "(ucast b :: code_unit) \<le> 0x7F" "ucast (ucast b :: code_unit) = b" if "b \<le> 0x7F" for b :: byte
  using that by (simp_all add: word_le_nat_alt word_unat_eq_iff unsigned_ucast_eq unsigned_take_bit_eq
      take_bit_nat_eq_self)

lemma mint_encode_decode:
  assumes "decodeMintResponse bs = Inr p"
  shows "mint_ok p \<and> encodeMintResponse p = Inr bs"
proof -
  let ?hi = "uint32_of_bytes (take 4 (drop 1 bs))" and ?lo = "uint32_of_bytes (take 4 (drop 5 bs))"
  have len: "length bs = 21" and ver: "bs ! 0 = PROTOCOL_VERSION" and hi: "?hi \<le> 0x1FFFFF"
    and ascii: "\<And>b. b \<in> set (drop 9 bs) \<Longrightarrow> b \<le> 0x7F"
    and p: "p = \<lparr>mp_code = map ucast (drop 9 bs), mp_expiresAt = Whole (?hi * 2 ^ 32 + ?lo)\<rparr>"
    using assms
    by (auto simp: decodeMintResponse_def share_fail_def share_lengths Let_def list_ex_iff not_less
        split: if_splits)
  have ranges: "0 \<le> ?hi" "0 \<le> ?lo" "?lo < 2 ^ 32"
    using len uint32_of_bytes_range [of "take 4 (drop 1 bs)"] uint32_of_bytes_range [of "take 4 (drop 5 bs)"]
    by simp_all
  then have ok: "mint_ok p" using len hi ascii by (auto simp: p mint_ok_def share_lengths list_all_iff byte_ascii)
  have "map ucast (map ucast (drop 9 bs) :: jsstring) = drop 9 bs"
    using ascii by (simp add: byte_ascii map_idI)
  moreover have "uint32_bytes ((?hi * 2 ^ 32 + ?lo) div 2 ^ 32) = take 4 (drop 1 bs)"
    "uint32_bytes (?hi * 2 ^ 32 + ?lo) = take 4 (drop 5 bs)"
    using len hi ranges by (auto intro!: uint32_bytes_of_bytes)
  ultimately show ?thesis
    using ok mint_encode_eq [OF ok] list9 [OF len] ver by (simp add: p del: map_map)
qed

lemma decode_mint_kind: "decodeMintResponse bs = Inl e \<Longrightarrow> e = \<lparr>se_kind = ProtocolError, se_status = None\<rparr>"
  by (auto simp: decodeMintResponse_def share_fail_def Let_def split: if_splits)

interpretation mint: codec encodeMintResponse decodeMintResponse mint_ok
proof (unfold_locales, goal_cases)
  case (1 p)
  then show ?case using mint_encode_eq by (fastforce simp: mint_ok_def)
next
  case (2 p bs)
  then show ?case by (rule mint_decode_encode)
qed

definition blob_ok :: "share_blob_parts \<Rightarrow> bool" where
  "blob_ok p \<longleftrightarrow> length (bp_senderPubkey p) = 32 \<and> length (bp_nonce p) = 12"

lemma blob_decode_eq:
  "decodeShareBlob bs = Inr p \<longleftrightarrow> blob_ok p \<and> encodeShareBlob p = Inr bs"
proof
  assume *: "decodeShareBlob bs = Inr p"
  then have "45 \<le> length bs" "bs ! 0 = PROTOCOL_VERSION"
    and p: "p = \<lparr>bp_senderPubkey = take 32 (drop 1 bs), bp_nonce = take 12 (drop 33 bs), bp_ciphertext = drop 45 bs\<rparr>"
    by (auto simp: decodeShareBlob_def share_fail_def share_lengths split: if_splits)
  moreover have "drop 1 bs = take 32 (drop 1 bs) @ take 12 (drop 33 bs) @ drop 45 bs"
    using append_take_drop_id [of 32 "drop 1 bs"] append_take_drop_id [of 12 "drop 33 bs"] by simp
  moreover have "bs = bs ! 0 # drop 1 bs" using \<open>45 \<le> length bs\<close> by (cases bs) simp_all
  ultimately show "blob_ok p \<and> encodeShareBlob p = Inr bs"
    by (auto simp: blob_ok_def encodeShareBlob_def share_lengths)
next
  assume "blob_ok p \<and> encodeShareBlob p = Inr bs"
  then show "decodeShareBlob bs = Inr p"
    by (auto simp: blob_ok_def encodeShareBlob_def decodeShareBlob_def share_lengths)
qed

lemma blob_encoded_decodes: "encodeShareBlob p = Inr bs \<Longrightarrow> decodeShareBlob bs = Inr p"
  unfolding blob_decode_eq
  by (auto simp: encodeShareBlob_def share_fail_def blob_ok_def share_lengths split: if_splits)

lemma blob_encode_ok: "blob_ok p \<Longrightarrow> \<exists>bs. encodeShareBlob p = Inr bs"
  by (simp add: blob_ok_def encodeShareBlob_def share_lengths)

interpretation blob: codec encodeShareBlob decodeShareBlob blob_ok
  by unfold_locales (auto simp: blob_encode_ok blob_decode_eq)

text \<open>
  Mint responses. Encoding succeeds and decodes to the same parts for every ASCII code of twelve
  characters and expiry below \<open>2 ^ 53\<close>, and decoding accepts exactly the encodings of such parts, so every
  response has one meaning and every meaning one response; a refusal is always a protocol error.
\<close>

theorem mint_response_canonical:
  "(\<forall>p. mint_ok p \<longrightarrow> (\<exists>bs. encodeMintResponse p = Inr bs \<and> length bs = 21 \<and> decodeMintResponse bs = Inr p)) \<and>
   (\<forall>bs p. decodeMintResponse bs = Inr p \<longrightarrow> mint_ok p \<and> encodeMintResponse p = Inr bs) \<and>
   (\<forall>bs e. decodeMintResponse bs = Inl e \<longrightarrow> se_kind e = ProtocolError)"
proof -
  have "length bs = 21" if "decodeMintResponse bs = Inr p" for bs p
    using that by (simp add: decodeMintResponse_def share_fail_def share_lengths split: if_splits)
  then have "\<exists>bs. encodeMintResponse p = Inr bs \<and> length bs = 21 \<and> decodeMintResponse bs = Inr p"
    if "mint_ok p" for p
    using mint.enc_total [OF that] mint.dec_enc [OF that] by blast
  moreover have "se_kind e = ProtocolError" if "decodeMintResponse bs = Inl e" for bs e
    using decode_mint_kind [OF that] by simp
  ultimately show ?thesis using mint_encode_decode by blast
qed

theorem mint_response_canonical_witness:
  "\<exists>bs. encodeMintResponse \<lparr>mp_code = js ''ABCDEFGHJKMN'', mp_expiresAt = Whole 1700000000\<rparr> = Inr bs \<and>
     decodeMintResponse bs = Inr \<lparr>mp_code = js ''ABCDEFGHJKMN'', mp_expiresAt = Whole 1700000000\<rparr>"
proof -
  have "mint_ok \<lparr>mp_code = js ''ABCDEFGHJKMN'', mp_expiresAt = Whole 1700000000\<rparr>"
    by (simp add: mint_ok_def share_lengths js_def word_le_nat_alt)
  then show ?thesis using mint_response_canonical by blast
qed

text \<open>
  Share blobs. Decoding accepts exactly the byte strings that encoding produces, and returns the
  parts they were made of; a blob with a wrong version, or too short for its header, is a protocol error.
\<close>

theorem share_blob_canonical:
  "(decodeShareBlob bs = Inr p \<longleftrightarrow> encodeShareBlob p = Inr bs) \<and>
   (decodeShareBlob bs = Inl e \<longrightarrow> se_kind e = ProtocolError \<and>
      (length bs < 45 \<or> bs ! 0 \<noteq> 1))"
proof -
  have "encodeShareBlob p = Inr bs \<Longrightarrow> blob_ok p"
    by (auto simp: encodeShareBlob_def share_fail_def blob_ok_def share_lengths split: if_splits)
  then show ?thesis using blob_decode_eq
    by (auto simp: decodeShareBlob_def share_fail_def share_lengths PROTOCOL_VERSION_def split: if_splits)
qed

theorem share_blob_canonical_witness:
  "decodeShareBlob (1 # replicate 32 7 @ replicate 12 9 @ [1, 2, 3]) =
     Inr \<lparr>bp_senderPubkey = replicate 32 7, bp_nonce = replicate 12 9, bp_ciphertext = [1, 2, 3]\<rparr>"
  using share_blob_canonical [of "1 # replicate 32 7 @ replicate 12 9 @ [1, 2, 3]"
      "\<lparr>bp_senderPubkey = replicate 32 7, bp_nonce = replicate 12 9, bp_ciphertext = [1, 2, 3]\<rparr>"]
  by (simp add: encodeShareBlob_def share_lengths PROTOCOL_VERSION_def)

end
