(* ===== verification/Share_Backend.thy ===== *)
theory Share_Backend
  imports Share_Wire Utf8
begin

text \<open>
  The rendezvous backend that the share client talks to (\<open>apps/share-backend\<close>: \<open>handlers.rs\<close>,
  \<open>store_memory.rs\<close>, \<open>errors.rs\<close>, \<open>config.rs\<close>) and the pickup code (\<open>crates/crypto/src/commitment.rs\<close>).
  BLAKE3 and the base32 encoder are third-party crates and parameters. The clock of the handlers and the
  wall clock of the sweep are arguments, in unix seconds far below the range of 64 bits. The path of a
  request reaches the handlers as the code it names; origin checks are left out.
\<close>

section \<open>The pickup code\<close>

definition code_for_pubkey :: "(bytes \<Rightarrow> bytes) \<Rightarrow> (bytes \<Rightarrow> jsstring) \<Rightarrow> bytes \<Rightarrow> jsstring" where
  "code_for_pubkey blake3 base32_encode epk =
     (let digest = blake3 epk; buf = take 8 digest
      in take CODE_LEN (base32_encode (buf[7 := and (buf ! 7) 0xF0])))"

text \<open>What the two crates promise: a 32-byte digest, and text in the Crockford alphabet of \<open>8 n / 5\<close> characters rounded up.\<close>

definition commitment_crates :: "(bytes \<Rightarrow> bytes) \<Rightarrow> (bytes \<Rightarrow> jsstring) \<Rightarrow> bool" where
  "commitment_crates blake3 base32_encode \<longleftrightarrow>
     (\<forall>x. length (blake3 x) = 32) \<and>
     (\<forall>x. length (base32_encode x) = (length x * 8 + 4) div 5 \<and> list_all code_char (base32_encode x))"

lemma code_for_pubkey_matches:
  assumes "commitment_crates blake3 base32_encode"
  shows "matches_code (code_for_pubkey blake3 base32_encode epk)"
proof -
  let ?b = "base32_encode ((take 8 (blake3 epk))[7 := and (take 8 (blake3 epk) ! 7) 0xF0])"
  have "length ?b = 13" "list_all code_char ?b" using assms by (simp_all add: commitment_crates_def)
  then show ?thesis
    by (auto simp: code_for_pubkey_def matches_code_def CODE_LEN_def Let_def list_all_iff dest: in_set_takeD)
qed

section \<open>The store\<close>

record rendezvous_store =
  st_records :: "jsstring \<rightharpoonup> bytes \<times> nat"
  st_blobs :: "jsstring \<rightharpoonup> bytes \<times> nat"
  st_counters :: "string \<rightharpoonup> nat \<times> nat"

definition retain_unexpired :: "nat \<Rightarrow> ('k \<rightharpoonup> 'v \<times> nat) \<Rightarrow> ('k \<rightharpoonup> 'v \<times> nat)" where
  "retain_unexpired now m = (\<lambda>k. case m k of Some (v, e) \<Rightarrow> if e > now then Some (v, e) else None | None \<Rightarrow> None)"

definition sweep :: "nat \<Rightarrow> rendezvous_store \<Rightarrow> rendezvous_store" where
  "sweep wall s =
     \<lparr>st_records = retain_unexpired wall (st_records s), st_blobs = retain_unexpired wall (st_blobs s),
      st_counters = retain_unexpired wall (st_counters s)\<rparr>"

definition put_rendezvous :: "nat \<Rightarrow> jsstring \<Rightarrow> bytes \<times> nat \<Rightarrow> rendezvous_store \<Rightarrow> bool \<times> rendezvous_store" where
  "put_rendezvous wall code record s =
     (let s' = sweep wall s
      in if st_records s' code \<noteq> None then (False, s')
         else (True, s'\<lparr>st_records := (st_records s')(code \<mapsto> record)\<rparr>))"

definition get_rendezvous :: "jsstring \<Rightarrow> rendezvous_store \<Rightarrow> (bytes \<times> nat) option" where
  "get_rendezvous code s = st_records s code"

definition put_blob :: "nat \<Rightarrow> jsstring \<Rightarrow> bytes \<Rightarrow> nat \<Rightarrow> rendezvous_store \<Rightarrow> bool \<times> rendezvous_store" where
  "put_blob wall code blob expires_at s =
     (let s' = sweep wall s
      in if st_blobs s' code \<noteq> None then (False, s')
         else (True, s'\<lparr>st_blobs := (st_blobs s')(code \<mapsto> (blob, expires_at))\<rparr>))"

definition take_blob :: "nat \<Rightarrow> jsstring \<Rightarrow> rendezvous_store \<Rightarrow> bytes option \<times> rendezvous_store" where
  "take_blob now code s =
     (case st_blobs s code of
        None \<Rightarrow> (None, s)
      | Some (blob, expires_at) \<Rightarrow>
          (if expires_at \<le> now then None else Some blob, s\<lparr>st_blobs := (st_blobs s)(code := None)\<rparr>))"

definition increment_mint_counter :: "nat \<Rightarrow> string \<Rightarrow> nat \<Rightarrow> rendezvous_store \<Rightarrow> nat \<times> rendezvous_store" where
  "increment_mint_counter wall ip ttl s =
     (let s' = sweep wall s;
          count = min (2 ^ 32 - 1) (case st_counters s' ip of None \<Rightarrow> 1 | Some (c, _) \<Rightarrow> c + 1)
      in (count, s'\<lparr>st_counters := (st_counters s')(ip \<mapsto> (count, wall + ttl))\<rparr>))"

section \<open>The handlers\<close>

definition RENDEZVOUS_TTL_SECONDS :: nat where "RENDEZVOUS_TTL_SECONDS = 300"
definition MAX_BLOB_BYTES :: nat where "MAX_BLOB_BYTES = 64 * 1024"
definition MINT_RATE_LIMIT :: nat where "MINT_RATE_LIMIT = 10"

record http_response =
  h_status :: nat
  h_body :: "bytes option"

text \<open>A response whose body the client can read; \<open>h_body = None\<close> is a connection that breaks off.\<close>

definition answer :: "nat \<Rightarrow> bytes \<Rightarrow> http_response" where
  "answer status body = \<lparr>h_status = status, h_body = Some body\<rparr>"

definition u64_be_bytes :: "nat \<Rightarrow> bytes" where
  "u64_be_bytes n = map (\<lambda>i. of_nat (n div 256 ^ i mod 256)) [7, 6, 5, 4, 3, 2, 1, 0]"

definition encode_mint_response :: "jsstring \<Rightarrow> nat \<Rightarrow> bytes" where
  "encode_mint_response code expires_at = 1 # u64_be_bytes expires_at @ map ucast code"

definition mint_rendezvous ::
    "(bytes \<Rightarrow> jsstring) \<Rightarrow> string \<Rightarrow> nat \<Rightarrow> nat \<Rightarrow> bytes \<Rightarrow> rendezvous_store \<Rightarrow> http_response \<times> rendezvous_store" where
  "mint_rendezvous code_of ip wall now body s =
     (case increment_mint_counter wall ip RENDEZVOUS_TTL_SECONDS s of (minted, s1) \<Rightarrow>
        if minted > MINT_RATE_LIMIT then (answer 429 [], s1)
        else if length body > X25519_PUBKEY_LEN then (answer 413 [], s1)
        else if length body \<noteq> X25519_PUBKEY_LEN then (answer 400 [], s1)
        else
          let code = code_of body; expires_at = now + RENDEZVOUS_TTL_SECONDS
          in case put_rendezvous wall code (body, expires_at) s1 of (ok, s2) \<Rightarrow>
               if \<not> ok then (answer 409 [], s2)
               else (answer 200 (encode_mint_response code expires_at), s2))"

definition assert_code :: "jsstring \<Rightarrow> bool" where
  "assert_code code \<longleftrightarrow> length (text_encode code) = CODE_LEN"

definition fetch_rendezvous :: "nat \<Rightarrow> jsstring \<Rightarrow> rendezvous_store \<Rightarrow> http_response \<times> rendezvous_store" where
  "fetch_rendezvous now code s =
     (if \<not> assert_code code then (answer 400 [], s)
      else case get_rendezvous code s of
        None \<Rightarrow> (answer 404 [], s)
      | Some (epk, expires_at) \<Rightarrow> (if expires_at \<le> now then answer 410 [] else answer 200 epk, s))"

definition upload_blob :: "nat \<Rightarrow> nat \<Rightarrow> jsstring \<Rightarrow> bytes \<Rightarrow> rendezvous_store \<Rightarrow> http_response \<times> rendezvous_store" where
  "upload_blob wall now code body s =
     (if \<not> assert_code code then (answer 400 [], s)
      else case get_rendezvous code s of
        None \<Rightarrow> (answer 404 [], s)
      | Some (epk, expires_at) \<Rightarrow>
          if expires_at \<le> now then (answer 410 [], s)
          else if length body > MAX_BLOB_BYTES then (answer 413 [], s)
          else if body = [] then (answer 400 [], s)
          else case put_blob wall code body (max expires_at (now + 1)) s of (ok, s') \<Rightarrow>
            (if ok then answer 204 [] else answer 409 [], s'))"

definition download_blob :: "nat \<Rightarrow> jsstring \<Rightarrow> rendezvous_store \<Rightarrow> http_response \<times> rendezvous_store" where
  "download_blob now code s =
     (if \<not> assert_code code then (answer 400 [], s)
      else case take_blob now code s of
        (None, s') \<Rightarrow> (answer 404 [], s')
      | (Some blob, s') \<Rightarrow> (answer 200 blob, s'))"

section \<open>Backend and client agree on the mint response\<close>

lemma byte_of_low: "n mod (a * (256 * b)) div a mod 256 = n div a mod 256" if "0 < a" for n a b :: nat
proof -
  have "n mod (a * (256 * b)) div a = n div a mod (256 * b)" using that by (simp add: mod_mult2_eq)
  then show ?thesis by (simp add: mod_mod_cancel)
qed

lemma low_bytes:
  fixes m :: nat
  shows "m mod 4294967296 mod 256 = m mod 256"
    and "m mod 4294967296 div 256 mod 256 = m div 256 mod 256"
    and "m mod 4294967296 div 65536 mod 256 = m div 65536 mod 256"
    and "m mod 4294967296 div 16777216 = m div 16777216 mod 256"
proof -
  have sizes: "(4294967296 :: nat) = 256 * (256 * 65536)" "(4294967296 :: nat) = 65536 * (256 * 256)"
      "(4294967296 :: nat) = 16777216 * 256" by simp_all
  show "m mod 4294967296 mod 256 = m mod 256" by (rule mod_mod_cancel) simp
  show "m mod 4294967296 div 256 mod 256 = m div 256 mod 256" unfolding sizes(1) by (rule byte_of_low) simp
  show "m mod 4294967296 div 65536 mod 256 = m div 65536 mod 256" unfolding sizes(2) by (rule byte_of_low) simp
  show "m mod 4294967296 div 16777216 = m div 16777216 mod 256"
    unfolding sizes(3) by (simp only: mod_mult2_eq)
qed

lemma u64_halves: "u64_be_bytes n = uint32_bytes (int n div 2 ^ 32) @ uint32_bytes (int n)"
proof -
  have nat: "nat (int n mod 2 ^ 32) = n mod 2 ^ 32" "nat (int n div 2 ^ 32 mod 2 ^ 32) = n div 2 ^ 32 mod 2 ^ 32"
    by (simp_all add: nat_mod_distrib nat_div_distrib)
  have high: "n div 4294967296 div 256 = n div 1099511627776" "n div 4294967296 div 65536 = n div 281474976710656"
      "n div 4294967296 div 16777216 = n div 72057594037927936"
    by (simp_all flip: div_mult2_eq)
  show ?thesis
    unfolding u64_be_bytes_def uint32_bytes_def Let_def nat
    by (simp add: low_bytes high)
qed

lemma backend_mint_response:
  assumes "matches_code code" and "expires_at < 2 ^ 53"
  shows "decodeMintResponse (encode_mint_response code expires_at) =
    Inr \<lparr>mp_code = code, mp_expiresAt = Whole (int expires_at)\<rparr>"
proof -
  let ?p = "\<lparr>mp_code = code, mp_expiresAt = Whole (int expires_at)\<rparr>"
  have "list_all (\<lambda>c. c \<le> 0x7F) code"
    using assms(1) by (auto simp: matches_code_def list_all_iff code_char_unat word_le_nat_alt)
  moreover have "int expires_at < 2 ^ 53" using assms(2) by simp
  ultimately have ok: "mint_ok ?p" using assms(1) by (simp add: mint_ok_def matches_code_def share_lengths)
  then have "encodeMintResponse ?p = Inr (encode_mint_response code expires_at)"
    using mint_encode_eq [OF ok] by (simp add: encode_mint_response_def u64_halves PROTOCOL_VERSION_def)
  with ok show ?thesis by (rule mint_decode_encode)
qed

text \<open>A download answers 404 before the upload and after expiry alike, and never 410.\<close>

lemma download_never_gone: "h_status (fst (download_blob now code s)) \<in> {200, 400, 404}"
  by (auto simp: download_blob_def answer_def split: prod.splits option.splits)

end
