(* ===== verification/Share_Client.thy ===== *)
theory Share_Client
  imports Share_Backend
begin

text \<open>
  The share client (\<open>packages/share-client/src/transport.ts\<close> and \<open>share.ts\<close>). \<open>fetch\<close> is a function of the
  request and the state of the outside world; it answers with a response or fails. The wasm functions
  that need cryptography are parameters: sealing, opening and the pickup code of a key. A promise that
  rejects is \<open>Inl\<close>: a \<open>ShareError\<close> is \<open>Typed\<close>, any other error \<open>Untyped\<close>.
\<close>

section \<open>HTTP\<close>

datatype share_throw = Typed share_error | Untyped

type_synonym 'a share_result = "share_throw + 'a"

definition throw_kind :: "share_error_kind \<Rightarrow> 'a share_result" where
  "throw_kind k = Inl (Typed \<lparr>se_kind = k, se_status = None\<rparr>)"

definition lift_share :: "share_error + 'a \<Rightarrow> 'a share_result" where
  "lift_share m = (case m of Inl e \<Rightarrow> Inl (Typed e) | Inr x \<Rightarrow> Inr x)"

datatype http_method = GET | POST

record http_request =
  q_method :: http_method
  q_url :: jsstring
  q_body :: "bytes option"

type_synonym 'w fetch_like = "http_request \<Rightarrow> 'w \<Rightarrow> http_response option \<times> 'w"

text \<open>\<open>encodeURIComponent\<close>; \<open>None\<close> is the \<open>URIError\<close> for a lone surrogate.\<close>

definition unreserved :: "byte \<Rightarrow> bool" where
  "unreserved b \<longleftrightarrow> 48 \<le> b \<and> b \<le> 57 \<or> 65 \<le> b \<and> b \<le> 90 \<or> 97 \<le> b \<and> b \<le> 122 \<or>
     b \<in> {33, 39, 40, 41, 42, 45, 46, 95, 126}"

definition upper_hex :: "nat \<Rightarrow> code_unit" where
  "upper_hex d = (if d < 10 then of_nat (48 + d) else of_nat (55 + d))"

definition percent_byte :: "byte \<Rightarrow> jsstring" where
  "percent_byte b = (if unreserved b then [ucast b] else [37, upper_hex (unat b div 16), upper_hex (unat b mod 16)])"

definition encodeURIComponent :: "jsstring \<Rightarrow> jsstring option" where
  "encodeURIComponent s = (if well_formed s then Some (concat (map percent_byte (text_encode s))) else None)"

definition strip_trailing_slashes :: "jsstring \<Rightarrow> jsstring" where
  "strip_trailing_slashes s = rev (dropWhile (\<lambda>c. c = 47) (rev s))"

definition networkSafe :: "'a share_result \<Rightarrow> 'a share_result" where
  "networkSafe m = (case m of Inl Untyped \<Rightarrow> throw_kind NetworkError | _ \<Rightarrow> m)"

text \<open>Building the request may throw; a failed fetch rejects with an error of the platform.\<close>

definition fetch_op :: "'w fetch_like \<Rightarrow> http_request option \<Rightarrow> 'w \<Rightarrow> http_response share_result \<times> 'w" where
  "fetch_op fetch request w =
     (case request of
        None \<Rightarrow> (networkSafe (Inl Untyped), w)
      | Some q \<Rightarrow>
          (case fetch q w of
             (None, w') \<Rightarrow> (networkSafe (Inl Untyped), w')
           | (Some r, w') \<Rightarrow> (Inr r, w')))"

definition response_ok :: "http_response \<Rightarrow> bool" where
  "response_ok r \<longleftrightarrow> 200 \<le> h_status r \<and> h_status r \<le> 299"

definition arrayBuffer :: "http_response \<Rightarrow> bytes share_result" where
  "arrayBuffer r = (case h_body r of None \<Rightarrow> Inl Untyped | Some b \<Rightarrow> Inr b)"

definition status_error :: "http_response \<Rightarrow> share_context \<Rightarrow> 'a share_result" where
  "status_error r context = Inl (Typed (shareErrorForStatus (h_status r) context))"

section \<open>The rendezvous client\<close>

definition client_baseUrl :: "jsstring \<Rightarrow> jsstring" where
  "client_baseUrl option_baseUrl = strip_trailing_slashes option_baseUrl"

definition rendezvous_url :: "jsstring \<Rightarrow> jsstring \<Rightarrow> jsstring option" where
  "rendezvous_url base code = map_option (\<lambda>c. base @ js ''/rendezvous/'' @ c) (encodeURIComponent code)"

definition blob_url :: "jsstring \<Rightarrow> jsstring \<Rightarrow> jsstring option" where
  "blob_url base code = map_option (\<lambda>u. u @ js ''/blob'') (rendezvous_url base code)"

definition client_mint :: "'w fetch_like \<Rightarrow> jsstring \<Rightarrow> bytes \<Rightarrow> 'w \<Rightarrow> mint_parts share_result \<times> 'w" where
  "client_mint fetch base epk w =
     (case fetch_op fetch (Some \<lparr>q_method = POST, q_url = base @ js ''/rendezvous'', q_body = Some epk\<rparr>) w of
        (Inl e, w') \<Rightarrow> (Inl e, w')
      | (Inr r, w') \<Rightarrow>
          (if \<not> response_ok r then status_error r Mint
           else bind_result (networkSafe (arrayBuffer r)) (\<lambda>bs. lift_share (decodeMintResponse bs)), w'))"

definition client_fetchEpk :: "'w fetch_like \<Rightarrow> jsstring \<Rightarrow> jsstring \<Rightarrow> 'w \<Rightarrow> bytes share_result \<times> 'w" where
  "client_fetchEpk fetch base code w =
     (case fetch_op fetch (map_option (\<lambda>u. \<lparr>q_method = GET, q_url = u, q_body = None\<rparr>) (rendezvous_url base code)) w of
        (Inl e, w') \<Rightarrow> (Inl e, w')
      | (Inr r, w') \<Rightarrow> (if \<not> response_ok r then status_error r FetchRendezvous else arrayBuffer r, w'))"

definition client_uploadBlob :: "'w fetch_like \<Rightarrow> jsstring \<Rightarrow> jsstring \<Rightarrow> bytes \<Rightarrow> 'w \<Rightarrow> unit share_result \<times> 'w" where
  "client_uploadBlob fetch base code blob w =
     (case fetch_op fetch (map_option (\<lambda>u. \<lparr>q_method = POST, q_url = u, q_body = Some blob\<rparr>) (blob_url base code)) w of
        (Inl e, w') \<Rightarrow> (Inl e, w')
      | (Inr r, w') \<Rightarrow> (if \<not> response_ok r then status_error r UploadBlob else Inr (), w'))"

definition download_request :: "jsstring \<Rightarrow> jsstring \<Rightarrow> http_request option" where
  "download_request base code = map_option (\<lambda>u. \<lparr>q_method = GET, q_url = u, q_body = None\<rparr>) (blob_url base code)"

text \<open>The answer to a download request; \<open>None\<close> inside is the \<open>null\<close> of a blob that is not there yet.\<close>

definition download_result :: "http_response share_result \<Rightarrow> bytes option share_result" where
  "download_result m = bind_result m (\<lambda>r.
     if response_ok r then bind_result (arrayBuffer r) (\<lambda>b. Inr (Some b))
     else if h_status r = 404 then Inr None
     else status_error r DownloadBlob)"

definition client_tryDownloadBlob :: "'w fetch_like \<Rightarrow> jsstring \<Rightarrow> jsstring \<Rightarrow> 'w \<Rightarrow> bytes option share_result \<times> 'w" where
  "client_tryDownloadBlob fetch base code w =
     (case fetch_op fetch (download_request base code) w of (m, w') \<Rightarrow> (download_result m, w'))"

section \<open>Sending and receiving\<close>

definition verifyCode :: "(bytes \<Rightarrow> jsstring) \<Rightarrow> jsstring \<Rightarrow> bytes \<Rightarrow> bool" where
  "verifyCode code_of code epk \<longleftrightarrow>
     length epk = X25519_PUBKEY_LEN \<and> length (text_encode code) = CODE_LEN \<and> code = code_of epk"

record 'h recipient_session =
  rs_code :: jsstring
  rs_expiresAt :: int
  rs_handle :: 'h

text \<open>The expiry of a decoded mint response, which is always a whole number.\<close>

fun whole :: "js_number \<Rightarrow> int" where
  "whole (Whole t) = t"
| "whole Fractional = 0"

text \<open>
  \<open>wasm\<close> tells whether the module loads, \<open>handle\<close> what \<open>RecipientHandle.prepare\<close> returns. The third result
  is whether the handle was freed.
\<close>

definition prepareReceive ::
    "bool \<Rightarrow> 'w fetch_like \<Rightarrow> jsstring \<Rightarrow> ('h \<Rightarrow> bytes) \<Rightarrow> 'h option \<Rightarrow> 'w \<Rightarrow> 'h recipient_session share_result \<times> 'w \<times> bool" where
  "prepareReceive wasm fetch base pubkey handle w =
     (if \<not> wasm then (Inl Untyped, w, False)
      else case handle of
        None \<Rightarrow> (Inl Untyped, w, False)
      | Some h \<Rightarrow>
          (case client_mint fetch base (pubkey h) w of
             (Inl e, w') \<Rightarrow> (Inl e, w', True)
           | (Inr m, w') \<Rightarrow>
               (Inr \<lparr>rs_code = mp_code m, rs_expiresAt = whole (mp_expiresAt m), rs_handle = h\<rparr>, w', False)))"

definition sendShare ::
    "bool \<Rightarrow> 'w fetch_like \<Rightarrow> jsstring \<Rightarrow> (bytes \<Rightarrow> jsstring) \<Rightarrow> (bytes \<Rightarrow> bytes \<Rightarrow> share_blob_parts option) \<Rightarrow>
     jsstring \<Rightarrow> bytes \<Rightarrow> 'w \<Rightarrow> unit share_result \<times> 'w" where
  "sendShare wasm fetch base code_of sealShare code plaintext w =
     (if \<not> wasm then (Inl Untyped, w)
      else case normalizeCode code of
        None \<Rightarrow> (throw_kind ProtocolError, w)
      | Some normalized \<Rightarrow>
          (case client_fetchEpk fetch base normalized w of
             (Inl e, w1) \<Rightarrow> (Inl e, w1)
           | (Inr pk, w1) \<Rightarrow>
               if \<not> verifyCode code_of normalized pk then (throw_kind CommitmentMismatch, w1)
               else (case sealShare pk plaintext of
                 None \<Rightarrow> (Inl Untyped, w1)
               | Some sealed \<Rightarrow>
                   (case encodeShareBlob sealed of
                      Inl e \<Rightarrow> (Inl (Typed e), w1)
                    | Inr blob \<Rightarrow> client_uploadBlob fetch base normalized blob w1))))"

definition openSealedBlob :: "('h \<Rightarrow> share_blob_parts \<Rightarrow> bytes option) \<Rightarrow> 'h \<Rightarrow> bytes \<Rightarrow> bytes share_result" where
  "openSealedBlob openShare handle blob =
     bind_result (lift_share (decodeShareBlob blob)) (\<lambda>parts.
       case openShare handle parts of None \<Rightarrow> throw_kind ProtocolError | Some pt \<Rightarrow> Inr pt)"

text \<open>
  One turn of the polling loop: whether the signal is aborted at its start, what the download returns,
  the clock after it, and whether an abort interrupts the sleep.
\<close>

record poll_round =
  pr_aborted :: bool
  pr_download :: "bytes option share_result"
  pr_now :: int
  pr_sleep_aborted :: bool

fun poll_loop :: "(bytes \<Rightarrow> bytes share_result) \<Rightarrow> int \<Rightarrow> poll_round list \<Rightarrow> bytes share_result option" where
  "poll_loop openBlob deadline [] = None"
| "poll_loop openBlob deadline (r # rs) =
     (if pr_aborted r then Some (throw_kind NetworkError)
      else case pr_download r of
        Inl e \<Rightarrow> Some (Inl e)
      | Inr (Some blob) \<Rightarrow> Some (openBlob blob)
      | Inr None \<Rightarrow>
          if pr_now r \<ge> deadline then Some (throw_kind RendezvousExpired)
          else if pr_sleep_aborted r then Some (throw_kind NetworkError)
          else poll_loop openBlob deadline rs)"

definition DEFAULT_POLL_INTERVAL_MS :: int where "DEFAULT_POLL_INTERVAL_MS = 1500"
definition DEFAULT_POLL_TIMEOUT_MS :: int where "DEFAULT_POLL_TIMEOUT_MS = 300000"

definition poll_deadline :: "int \<Rightarrow> int option \<Rightarrow> int \<Rightarrow> int" where
  "poll_deadline start timeoutMs expiresAt =
     min (start + (case timeoutMs of None \<Rightarrow> DEFAULT_POLL_TIMEOUT_MS | Some t \<Rightarrow> t)) (expiresAt * 1000)"

text \<open>The result of polling, if it has ended within the given turns, and whether the handle was freed.\<close>

definition pollAndDecrypt ::
    "('h \<Rightarrow> share_blob_parts \<Rightarrow> bytes option) \<Rightarrow> 'h recipient_session \<Rightarrow> int \<Rightarrow> int option \<Rightarrow> poll_round list \<Rightarrow>
     bytes share_result option \<times> bool" where
  "pollAndDecrypt openShare session start timeoutMs rounds =
     (let result = poll_loop (openSealedBlob openShare (rs_handle session))
            (poll_deadline start timeoutMs (rs_expiresAt session)) rounds
      in (result, result \<noteq> None))"

section \<open>Codes in URLs\<close>

lemma code_ascii: "matches_code c \<Longrightarrow> u \<in> set c \<Longrightarrow> unat u < 0x80"
  by (auto simp: matches_code_def list_all_iff code_char_unat)

lemma percent_code: "code_char u \<Longrightarrow> percent_byte (ucast u) = [u]"
proof -
  assume u: "code_char u"
  then have "unat u < 0x80" by (auto simp: code_char_unat)
  then have "unat (ucast u :: byte) = unat u"
    by (simp add: unsigned_ucast_eq unsigned_take_bit_eq take_bit_nat_eq_self)
  with u have "unreserved (ucast u)" by (auto simp: unreserved_def code_char_unat word_le_nat_alt)
  moreover have "u \<le> 0x7F" using \<open>unat u < 0x80\<close> by (simp add: word_le_nat_alt)
  ultimately show ?thesis by (simp add: percent_byte_def ucast_ascii)
qed

lemma encodeURI_code:
  assumes "matches_code c"
  shows "encodeURIComponent c = Some c"
proof -
  have "well_formed c" "text_encode c = map ucast c"
    using assms code_ascii by (auto intro!: ascii_well_formed text_encode_ascii)
  moreover have "concat (map (\<lambda>u. percent_byte (ucast u)) c) = c"
    using assms [unfolded matches_code_def, THEN conjunct2] by (induction c) (auto simp: percent_code)
  ultimately show ?thesis by (simp add: encodeURIComponent_def comp_def)
qed

lemma code_urls:
  "matches_code c \<Longrightarrow> rendezvous_url base c = Some (base @ js ''/rendezvous/'' @ c)"
  "matches_code c \<Longrightarrow> blob_url base c = Some (base @ js ''/rendezvous/'' @ c @ js ''/blob'')"
  by (simp_all add: rendezvous_url_def blob_url_def encodeURI_code)

section \<open>What leaves the sender\<close>

text \<open>A network that keeps a log of the requests it is handed.\<close>

definition logging :: "'w fetch_like \<Rightarrow> (http_request list \<times> 'w) fetch_like" where
  "logging fetch q w = (case fetch q (snd w) of (r, w') \<Rightarrow> (r, (fst w @ [q], w')))"

definition committed_upload ::
    "(bytes \<Rightarrow> jsstring) \<Rightarrow> (bytes \<Rightarrow> bytes \<Rightarrow> share_blob_parts option) \<Rightarrow> jsstring \<Rightarrow> bytes \<Rightarrow> http_request \<Rightarrow> bool" where
  "committed_upload code_of sealShare code plaintext q \<longleftrightarrow>
     (\<exists>pk parts blob. q_body q = Some blob \<and> decodeShareBlob blob = Inr parts \<and>
        sealShare pk plaintext = Some parts \<and> length pk = 32 \<and> normalizeCode code = Some (code_of pk))"

lemma fetch_op_log:
  "fetch_op (logging fetch) q w = (m, w') \<Longrightarrow> fst w' = fst w @ (case q of None \<Rightarrow> [] | Some r \<Rightarrow> [r])"
  by (auto simp: fetch_op_def logging_def split: option.splits prod.splits)

lemma fetchEpk_log:
  assumes "client_fetchEpk (logging fetch) base code w = (m, w')"
  shows "\<exists>qs. fst w' = fst w @ qs \<and> length qs \<le> 1 \<and> (\<forall>q \<in> set qs. q_method q = GET)"
proof -
  let ?q = "map_option (\<lambda>u. \<lparr>q_method = GET, q_url = u, q_body = None\<rparr>) (rendezvous_url base code)"
  obtain m' where "fetch_op (logging fetch) ?q w = (m', w')"
    using assms by (auto simp: client_fetchEpk_def split: prod.splits sum.splits)
  from fetch_op_log [OF this] show ?thesis by (auto split: option.splits)
qed

lemma uploadBlob_log:
  assumes "client_uploadBlob (logging fetch) base code blob w = (m, w')"
  shows "\<exists>qs. fst w' = fst w @ qs \<and> length qs \<le> 1 \<and> (\<forall>q \<in> set qs. q_body q = Some blob)"
proof -
  let ?q = "map_option (\<lambda>u. \<lparr>q_method = POST, q_url = u, q_body = Some blob\<rparr>) (blob_url base code)"
  obtain m' where "fetch_op (logging fetch) ?q w = (m', w')"
    using assms by (auto simp: client_uploadBlob_def split: prod.splits sum.splits)
  from fetch_op_log [OF this] show ?thesis by (auto split: option.splits)
qed

text \<open>
  C19: the sender is not fooled by the relay. Whatever the network and the backend answer, a call of
  \<open>sendShare\<close> sends at most two requests, and every blob it sends is the plaintext sealed for a 32-byte key
  whose pickup code is exactly the code the user typed; if the key it was given has another code, no
  blob is sent and the call fails with a commitment mismatch.
\<close>

theorem sender_checks_commitment:
  "(\<forall>res log w'. sendShare wasm (logging fetch) base code_of sealShare code plaintext ([], w) = (res, (log, w')) \<longrightarrow>
      length log \<le> 2 \<and> (\<forall>q \<in> set log. q_method q = POST \<longrightarrow> committed_upload code_of sealShare code plaintext q)) \<and>
   (\<forall>n pk w1. wasm \<and> normalizeCode code = Some n \<and> client_fetchEpk fetch base n w = (Inr pk, w1) \<and> code_of pk \<noteq> n \<longrightarrow>
      sendShare wasm fetch base code_of sealShare code plaintext w = (throw_kind CommitmentMismatch, w1))"
proof (rule conjI; intro allI impI)
  fix res log w'
  assume run: "sendShare wasm (logging fetch) base code_of sealShare code plaintext ([], w) = (res, (log, w'))"
  consider "log = []"
    | n m w1 where "client_fetchEpk (logging fetch) base n ([], w) = (m, w1)" "w1 = (log, w')"
    | n pk w1 parts blob where "normalizeCode code = Some n" "client_fetchEpk (logging fetch) base n ([], w) = (Inr pk, w1)"
        "verifyCode code_of n pk" "sealShare pk plaintext = Some parts" "encodeShareBlob parts = Inr blob"
        "client_uploadBlob (logging fetch) base n blob w1 = (res, (log, w'))"
    using run by (fastforce simp: sendShare_def split: if_splits option.splits sum.splits prod.splits)
  then show "length log \<le> 2 \<and> (\<forall>q \<in> set log. q_method q = POST \<longrightarrow> committed_upload code_of sealShare code plaintext q)"
  proof cases
    case 2
    with fetchEpk_log [OF 2(1)] show ?thesis by fastforce
  next
    case 3
    obtain qs1 qs2 where "log = qs1 @ qs2" "length qs1 \<le> 1" "length qs2 \<le> 1" "\<forall>q \<in> set qs1. q_method q = GET"
        "\<forall>q \<in> set qs2. q_body q = Some blob"
      using fetchEpk_log [OF 3(2)] uploadBlob_log [OF 3(6)] by auto
    moreover have "committed_upload code_of sealShare code plaintext q" if "q_body q = Some blob" for q
      using 3 that blob_encoded_decodes [OF 3(5)]
      by (auto simp: committed_upload_def verifyCode_def X25519_PUBKEY_LEN_def)
    ultimately show ?thesis by fastforce
  qed simp
next
  fix n pk w1
  assume "wasm \<and> normalizeCode code = Some n \<and> client_fetchEpk fetch base n w = (Inr pk, w1) \<and> code_of pk \<noteq> n"
  then show "sendShare wasm fetch base code_of sealShare code plaintext w = (throw_kind CommitmentMismatch, w1)"
    by (auto simp: sendShare_def verifyCode_def)
qed

theorem sender_checks_commitment_witness:
  "sendShare True (\<lambda>q w. (Some (answer 200 (replicate 32 7)), w)) [] (\<lambda>_. js ''ZZZZZZZZZZZZ'') (\<lambda>_ _. None)
     (js ''ABCD-EFGH-JKMN'') [1, 2, 3] () = (throw_kind CommitmentMismatch, ())"
proof -
  let ?fetch = "\<lambda>(q :: http_request) (w :: unit). (Some (answer 200 (replicate 32 7)), w)"
  have code: "normalizeCode (js ''ABCD-EFGH-JKMN'') = Some (js ''ABCDEFGHJKMN'')" by code_simp
  moreover have "matches_code (js ''ABCDEFGHJKMN'')" by code_simp
  then have "client_fetchEpk ?fetch [] (js ''ABCDEFGHJKMN'') () = (Inr (replicate 32 7), ())"
    by (simp add: client_fetchEpk_def fetch_op_def answer_def response_ok_def arrayBuffer_def code_urls
        del: js_Cons)
  moreover have "js ''ZZZZZZZZZZZZ'' \<noteq> js ''ABCDEFGHJKMN''" by (simp add: js_def)
  ultimately show ?thesis
    using sender_checks_commitment [of True ?fetch "[]" "\<lambda>_. js ''ZZZZZZZZZZZZ''" "\<lambda>_ _. None"
        "js ''ABCD-EFGH-JKMN''" "[1, 2, 3]" "()"] by blast
qed

section \<open>Polling ends\<close>

lemma poll_loop_ends:
  assumes "\<forall>k < length rounds. start + int k * interval \<le> pr_now (rounds ! k)"
    and "k < length rounds" and "deadline \<le> start + int k * interval"
  shows "poll_loop openBlob deadline rounds \<noteq> None"
  using assms
proof (induction rounds arbitrary: start k)
  case (Cons r rs)
  show ?case
  proof (cases k)
    case 0
    then have "deadline \<le> pr_now r" using Cons.prems by force
    then show ?thesis by (auto split: sum.splits option.splits)
  next
    case (Suc j)
    have "\<forall>i < length rs. start + interval + int i * interval \<le> pr_now (rs ! i)"
      using Cons.prems(1) by (force simp: algebra_simps nth_Cons split: nat.splits)
    moreover have "j < length rs" "deadline \<le> start + interval + int j * interval"
      using Cons.prems Suc by (simp_all add: algebra_simps)
    ultimately have "poll_loop openBlob deadline rs \<noteq> None" by (rule Cons.IH)
    then show ?thesis by (auto split: sum.splits option.splits)
  qed
qed simp

text \<open>
  C39: waiting for a share ends. When every turn of the polling loop takes at least the interval, the
  loop ends after at most as many turns as intervals fit into the timeout, rounded up, and one more;
  with the defaults that is 201 downloads. It ends with the plaintext or with an error, and the key
  handle is freed exactly when it ends.
\<close>

theorem polling_ends:
  assumes "0 < interval" and "0 \<le> timeout"
    and "timeout = (case timeoutMs of None \<Rightarrow> DEFAULT_POLL_TIMEOUT_MS | Some t \<Rightarrow> t)"
    and "\<forall>k < length rounds. start + int k * interval \<le> pr_now (rounds ! k)"
    and "(timeout + interval - 1) div interval < int (length rounds)"
  shows "\<exists>result. pollAndDecrypt openShare session start timeoutMs rounds = (Some result, True)"
proof -
  let ?k = "nat ((timeout + interval - 1) div interval)"
  have k: "int ?k = (timeout + interval - 1) div interval" using assms(1,2) by (simp add: pos_imp_zdiv_nonneg_iff)
  have "(timeout + interval - 1) mod interval \<le> interval - 1" using pos_mod_bound [OF assms(1)] by simp
  then have "timeout \<le> int ?k * interval"
    using div_mult_mod_eq [of "timeout + interval - 1" interval] unfolding k by linarith
  then have "poll_deadline start timeoutMs (rs_expiresAt session) \<le> start + int ?k * interval"
    using assms(3) by (simp add: poll_deadline_def)
  with poll_loop_ends [OF assms(4), of ?k] assms(5) k show ?thesis
    by (fastforce simp: pollAndDecrypt_def Let_def)
qed

theorem polling_ends_witness:
  "\<exists>result. pollAndDecrypt (\<lambda>_ _. None) \<lparr>rs_code = [], rs_expiresAt = 1000, rs_handle = ()\<rparr> 0 (Some 10)
     [\<lparr>pr_aborted = False, pr_download = Inr None, pr_now = 0, pr_sleep_aborted = False\<rparr>,
      \<lparr>pr_aborted = False, pr_download = Inr None, pr_now = 10, pr_sleep_aborted = False\<rparr>] = (Some result, True)"
  by (rule polling_ends [of 10 10]) (auto simp: less_Suc_eq nth_Cons split: nat.splits)

text \<open>A connection that breaks off while the body is read: only minting reports it as a network error.\<close>

lemma broken_body_untyped:
  assumes "matches_code code"
  defines "broken \<equiv> \<lambda>(q :: http_request) (w :: unit). (Some \<lparr>h_status = 200, h_body = None\<rparr>, w)"
  shows "fst (client_mint broken base epk ()) = throw_kind NetworkError"
    and "fst (client_fetchEpk broken base code ()) = Inl Untyped"
    and "fst (client_tryDownloadBlob broken base code ()) = Inl Untyped"
  using assms(1)
  by (simp_all add: broken_def client_mint_def client_fetchEpk_def client_tryDownloadBlob_def download_request_def
      download_result_def fetch_op_def code_urls response_ok_def arrayBuffer_def networkSafe_def throw_kind_def
      del: js_Cons)

text \<open>Letters outside the Crockford alphabet pass the pattern.\<close>

lemma normalize_accepts_non_crockford: "normalizeCode (js ''ILOU-ILOU-ILOU'') = Some (js ''ILOUILOUILOU'')"
  by code_simp

end
