(* ===== verification/Json.thy ===== *)
theory Json
  imports Utf8 Js_Text
begin

text \<open>
  \<open>JSON.stringify\<close> of strings and \<open>JSON.parse\<close>, from the language definition, over UTF-16 code units.
  \<open>stringify\<close> escapes a lone surrogate, so its text is always well formed. \<open>parse\<close> is a recursive
  descent with fuel; \<open>json_value_enough\<close> shows that the fuel \<open>JSON_parse\<close> gives it never runs out. A
  number is kept as its text, since the program never looks at one.
\<close>

section \<open>Quoting\<close>

definition hex_digit :: "nat \<Rightarrow> code_unit" where
  "hex_digit d = (if d < 10 then of_nat (48 + d) else of_nat (87 + d))"

definition unicode_escape :: "code_unit \<Rightarrow> jsstring" where
  "unicode_escape u =
     (let n = unat u in [92, 117] @ map hex_digit [n div 4096 mod 16, n div 256 mod 16, n div 16 mod 16, n mod 16])"

definition quote_unit :: "code_unit \<Rightarrow> jsstring" where
  "quote_unit u =
     (if u = 8 then [92, 98] else if u = 9 then [92, 116] else if u = 10 then [92, 110]
      else if u = 12 then [92, 102] else if u = 13 then [92, 114]
      else if u = 34 then [92, 34] else if u = 92 then [92, 92]
      else if u < 32 then unicode_escape u
      else [u])"

fun quote_units :: "jsstring \<Rightarrow> jsstring" where
  "quote_units [] = []"
| "quote_units [u] = (if high_surrogate u \<or> low_surrogate u then unicode_escape u else quote_unit u)"
| "quote_units (u # v # us) =
     (if high_surrogate u \<and> low_surrogate v then u # v # quote_units us
      else (if high_surrogate u \<or> low_surrogate u then unicode_escape u else quote_unit u) @ quote_units (v # us))"

definition QuoteJSONString :: "jsstring \<Rightarrow> jsstring" where
  "QuoteJSONString s = 34 # quote_units s @ [34]"

section \<open>Parsing\<close>

datatype json = JNull | JBool bool | JNumber jsstring | JString jsstring | JArray "json list" |
  JObject "(jsstring \<times> json) list"

definition json_space :: "code_unit \<Rightarrow> bool" where
  "json_space c \<longleftrightarrow> c = 9 \<or> c = 10 \<or> c = 13 \<or> c = 32"

abbreviation json_skip :: "jsstring \<Rightarrow> jsstring" where
  "json_skip \<equiv> dropWhile json_space"

definition hex_value :: "code_unit \<Rightarrow> nat option" where
  "hex_value c =
     (if 48 \<le> unat c \<and> unat c \<le> 57 then Some (unat c - 48)
      else if 97 \<le> unat c \<and> unat c \<le> 102 then Some (unat c - 87)
      else if 65 \<le> unat c \<and> unat c \<le> 70 then Some (unat c - 55)
      else None)"

definition hex_unit :: "code_unit \<Rightarrow> code_unit \<Rightarrow> code_unit \<Rightarrow> code_unit \<Rightarrow> code_unit option" where
  "hex_unit a b c d =
     (case (hex_value a, hex_value b, hex_value c, hex_value d) of
        (Some w, Some x, Some y, Some z) \<Rightarrow> Some (of_nat (w * 4096 + x * 256 + y * 16 + z))
      | _ \<Rightarrow> None)"

definition simple_escape :: "code_unit \<Rightarrow> code_unit option" where
  "simple_escape e =
     (if e = 34 \<or> e = 92 \<or> e = 47 then Some e
      else if e = 98 then Some 8 else if e = 102 then Some 12 else if e = 110 then Some 10
      else if e = 114 then Some 13 else if e = 116 then Some 9 else None)"

text \<open>The rest of a string literal after its opening quote: the characters and what follows.\<close>

definition put :: "'a \<Rightarrow> ('a list \<times> 'b) option \<Rightarrow> ('a list \<times> 'b) option" where
  "put x = map_option (\<lambda>(xs, r). (x # xs, r))"

fun json_string :: "jsstring \<Rightarrow> (jsstring \<times> jsstring) option" where
  "json_string [] = None"
| "json_string (c # cs) =
     (if c = 34 then Some ([], cs)
      else if c < 32 then None
      else if c \<noteq> 92 then put c (json_string cs)
      else case cs of
        [] \<Rightarrow> None
      | e # r \<Rightarrow>
          if e = 117 then
            (case r of
               h1 # h2 # h3 # h4 # r' \<Rightarrow>
                 (case hex_unit h1 h2 h3 h4 of None \<Rightarrow> None | Some u \<Rightarrow> put u (json_string r'))
             | _ \<Rightarrow> None)
          else (case simple_escape e of None \<Rightarrow> None | Some u \<Rightarrow> put u (json_string r)))"

definition json_digit :: "code_unit \<Rightarrow> bool" where
  "json_digit c \<longleftrightarrow> 48 \<le> c \<and> c \<le> 57"

text \<open>The optional fraction and exponent of a number: \<open>None\<close> is a malformed one.\<close>

definition json_fraction :: "jsstring \<Rightarrow> jsstring option" where
  "json_fraction s =
     (case s of
        [] \<Rightarrow> Some s
      | c # cs \<Rightarrow> if c \<noteq> 46 then Some s
                  else if takeWhile json_digit cs = [] then None else Some (dropWhile json_digit cs))"

definition json_exponent :: "jsstring \<Rightarrow> jsstring option" where
  "json_exponent s =
     (case s of
        [] \<Rightarrow> Some s
      | c # cs \<Rightarrow> if c \<noteq> 101 \<and> c \<noteq> 69 then Some s
                  else let ds = (case cs of [] \<Rightarrow> [] | x # xs \<Rightarrow> if x = 43 \<or> x = 45 then xs else cs)
                       in if takeWhile json_digit ds = [] then None else Some (dropWhile json_digit ds))"

definition json_integer :: "jsstring \<Rightarrow> jsstring option" where
  "json_integer s =
     (case s of
        [] \<Rightarrow> None
      | c # cs \<Rightarrow> if c = 48 then Some cs else if json_digit c then Some (dropWhile json_digit cs) else None)"

definition json_number :: "jsstring \<Rightarrow> (json \<times> jsstring) option" where
  "json_number s =
     map_option (\<lambda>r. (JNumber (take (length s - length r) s), r))
       (Option.bind (Option.bind (json_integer (case s of [] \<Rightarrow> [] | c # cs \<Rightarrow> if c = 45 then cs else s))
          json_fraction) json_exponent)"

definition json_word :: "jsstring \<Rightarrow> jsstring \<Rightarrow> json \<Rightarrow> (json \<times> jsstring) option" where
  "json_word s w v = (if take (length w) s = w then Some (v, drop (length w) s) else None)"

definition json_scalar :: "jsstring \<Rightarrow> (json \<times> jsstring) option" where
  "json_scalar s =
     (case json_word s (js ''null'') JNull of Some r \<Rightarrow> Some r | None \<Rightarrow>
      (case json_word s (js ''true'') (JBool True) of Some r \<Rightarrow> Some r | None \<Rightarrow>
       (case json_word s (js ''false'') (JBool False) of Some r \<Rightarrow> Some r | None \<Rightarrow> json_number s)))"

fun json_value :: "nat \<Rightarrow> jsstring \<Rightarrow> (json \<times> jsstring) option"
  and json_elements :: "nat \<Rightarrow> jsstring \<Rightarrow> (json list \<times> jsstring) option"
  and json_members :: "nat \<Rightarrow> jsstring \<Rightarrow> ((jsstring \<times> json) list \<times> jsstring) option"
where
  "json_value 0 s = None"
| "json_value (Suc f) s =
     (case json_skip s of
        [] \<Rightarrow> None
      | c # cs \<Rightarrow>
          if c = 34 then map_option (\<lambda>(t, r). (JString t, r)) (json_string cs)
          else if c = 91 then
            (if take 1 (json_skip cs) = [93] then Some (JArray [], drop 1 (json_skip cs))
             else map_option (\<lambda>(vs, r). (JArray vs, r)) (json_elements f cs))
          else if c = 123 then
            (if take 1 (json_skip cs) = [125] then Some (JObject [], drop 1 (json_skip cs))
             else map_option (\<lambda>(ms, r). (JObject ms, r)) (json_members f cs))
          else json_scalar (c # cs))"
| "json_elements 0 s = None"
| "json_elements (Suc f) s =
     (case json_value f s of
        None \<Rightarrow> None
      | Some (v, r) \<Rightarrow>
          (case json_skip r of
             [] \<Rightarrow> None
           | c # t \<Rightarrow> if c = 44 then put v (json_elements f t) else if c = 93 then Some ([v], t) else None))"
| "json_members 0 s = None"
| "json_members (Suc f) s =
     (case json_skip s of
        [] \<Rightarrow> None
      | c # cs \<Rightarrow>
          if c \<noteq> 34 then None
          else case json_string cs of
            None \<Rightarrow> None
          | Some (k, r) \<Rightarrow>
              (case json_skip r of
                 [] \<Rightarrow> None
               | d # r' \<Rightarrow>
                   if d \<noteq> 58 then None
                   else case json_value f r' of
                     None \<Rightarrow> None
                   | Some (v, r'') \<Rightarrow>
                       (case json_skip r'' of
                          [] \<Rightarrow> None
                        | e # t \<Rightarrow>
                            if e = 44 then put (k, v) (json_members f t)
                            else if e = 125 then Some ([(k, v)], t) else None)))"

definition JSON_parse :: "jsstring \<Rightarrow> json option" where
  "JSON_parse s =
     (case json_value (2 * length s + 1) s of
        None \<Rightarrow> None
      | Some (v, r) \<Rightarrow> if json_skip r = [] then Some v else None)"

section \<open>Enough fuel\<close>

lemma put_eq_Some: "put x m = Some (ys, r) \<longleftrightarrow> (\<exists>xs. m = Some (xs, r) \<and> ys = x # xs)"
  by (cases m) (auto simp: put_def)

lemma json_string_shorter: "json_string s = Some (t, r) \<Longrightarrow> length r < length s"
proof (induction s arbitrary: t rule: json_string.induct)
  case (2 c cs)
  from "2.prems" show ?case
    by (simp split: if_splits list.splits option.splits) (use "2.IH" in \<open>fastforce simp: put_eq_Some\<close>)+
qed simp

lemma json_skip_shorter: "json_skip s = c # cs \<Longrightarrow> length cs < length s"
  by (metis length_Cons length_dropWhile_le less_eq_Suc_le)

lemma json_integer_shorter: "json_integer s = Some r \<Longrightarrow> length r < length s"
  by (auto simp: json_integer_def le_imp_less_Suc length_dropWhile_le split: list.splits if_splits)

lemma dropWhile_le2: "length s \<le> n \<Longrightarrow> length (dropWhile P s) \<le> n"
  using length_dropWhile_le le_trans by blast

lemma json_fraction_shorter: "json_fraction s = Some r \<Longrightarrow> length r \<le> length s"
  by (auto simp: json_fraction_def dropWhile_le2 split: list.splits if_splits)

lemma json_exponent_shorter: "json_exponent s = Some r \<Longrightarrow> length r \<le> length s"
  by (auto simp: json_exponent_def Let_def intro!: dropWhile_le2 split: list.splits if_splits)

lemma json_number_shorter: "json_number s = Some (v, r) \<Longrightarrow> length r < length s"
  by (auto simp: json_number_def bind_eq_Some_conv split: list.splits if_splits
      dest!: json_integer_shorter json_fraction_shorter json_exponent_shorter)

lemma json_word_shorter: "json_word s w v = Some (v', r) \<Longrightarrow> w \<noteq> [] \<Longrightarrow> length r < length s"
  by (cases "s = []") (auto simp: json_word_def split: if_splits)

lemma json_scalar_shorter: "json_scalar s = Some (v, r) \<Longrightarrow> length r < length s"
  unfolding json_scalar_def
  by (auto dest!: json_word_shorter json_number_shorter split: option.splits)

text \<open>A parser run with some fuel shortens its input, and any fuel above the bound gives the same result.\<close>

definition steady :: "nat \<Rightarrow> (nat \<Rightarrow> jsstring \<Rightarrow> ('a \<times> jsstring) option) \<Rightarrow> nat \<Rightarrow> bool" where
  "steady k p f \<longleftrightarrow> (\<forall>s v r. p f s = Some (v, r) \<longrightarrow>
     length r < length s \<and> (\<forall>g. 2 * length s + k < g \<longrightarrow> p g s = Some (v, r)))"

lemma steadyD:
  assumes "steady k p f" and "p f s = Some (v, r)"
  shows "length r < length s" and "2 * length s + k < g \<Longrightarrow> p g s = Some (v, r)"
  using assms unfolding steady_def by blast+

lemma value_steady:
  assumes "steady 1 json_elements f" and "steady 1 json_members f"
  shows "steady 0 json_value (Suc f)"
  unfolding steady_def
proof (intro allI impI)
  fix s v r assume prem: "json_value (Suc f) s = Some (v, r)"
  then obtain c cs where skip: "json_skip s = c # cs" by (auto split: list.splits)
  note short = json_skip_shorter [OF skip]
  have skipped: "length (json_skip cs) \<le> length cs" "length (c # cs) \<le> length s"
    using length_dropWhile_le [of json_space cs] length_dropWhile_le [of json_space s] skip by simp_all
  consider t where "c = 34" "json_string cs = Some (t, r)"
    | vs where "c = 91" "json_elements f cs = Some (vs, r)"
    | ms where "c = 123" "json_members f cs = Some (ms, r)"
    | "r = drop 1 (json_skip cs)"
    | "json_scalar (c # cs) = Some (v, r)"
    using prem skip by (auto split: if_splits)
  then have "length r < length s"
  proof cases
    case 1
    with json_string_shorter [of cs] short show ?thesis by fastforce
  next
    case 2
    with steadyD(1) [OF assms(1)] short show ?thesis by fastforce
  next
    case 3
    with steadyD(1) [OF assms(2)] short show ?thesis by fastforce
  next
    case 4
    then have "length r = length (json_skip cs) - 1" by simp
    with skipped(1) short show ?thesis by linarith
  next
    case 5
    with json_scalar_shorter [of "c # cs"] skipped(2) show ?thesis by fastforce
  qed
  moreover have "json_value g s = Some (v, r)" if g: "2 * length s + 0 < g" for g
  proof -
    obtain g' where g: "g = Suc g'" "2 * length cs + 1 < g'" using short g by (cases g) auto
    have "json_elements g' cs = Some x" if "json_elements f cs = Some x" for x
      using steadyD(2) [OF assms(1)] that g(2) by (cases x) blast
    moreover have "json_members g' cs = Some x" if "json_members f cs = Some x" for x
      using steadyD(2) [OF assms(2)] that g(2) by (cases x) blast
    ultimately show ?thesis using prem skip by (simp add: g split: if_splits) auto
  qed
  ultimately show "length r < length s \<and> (\<forall>g. 2 * length s + 0 < g \<longrightarrow> json_value g s = Some (v, r))"
    by blast
qed

lemma elements_steady:
  assumes "steady 0 json_value f" and "steady 1 json_elements f"
  shows "steady 1 json_elements (Suc f)"
  unfolding steady_def
proof (intro allI impI)
  fix s vs r assume prem: "json_elements (Suc f) s = Some (vs, r)"
  then obtain v r' c t where *: "json_value f s = Some (v, r')" "json_skip r' = c # t"
    and last: "c = 44 \<and> put v (json_elements f t) = Some (vs, r) \<or> c = 93 \<and> vs = [v] \<and> r = t"
    by (auto split: option.splits list.splits if_splits)
  have short: "length r' < length s" "length t < length r'"
    using steadyD(1) [OF assms(1) *(1)] json_skip_shorter [OF *(2)] by auto
  have "length r < length s"
    using last short steadyD(1) [OF assms(2), of t] by (fastforce simp: put_eq_Some)
  moreover have "json_elements g s = Some (vs, r)" if g: "2 * length s + 1 < g" for g
  proof -
    obtain g' where g: "g = Suc g'" "2 * length s < g'" "2 * length t + 1 < g'" using short g by (cases g) auto
    then show ?thesis
      using steadyD(2) [OF assms(1) *(1), of g'] steadyD(2) [OF assms(2), of t _ _ g'] * last
      by (auto simp: put_eq_Some)
  qed
  ultimately show "length r < length s \<and> (\<forall>g. 2 * length s + 1 < g \<longrightarrow> json_elements g s = Some (vs, r))"
    by blast
qed

lemma members_steady:
  assumes "steady 0 json_value f" and "steady 1 json_members f"
  shows "steady 1 json_members (Suc f)"
  unfolding steady_def
proof (intro allI impI)
  fix s ms r assume prem: "json_members (Suc f) s = Some (ms, r)"
  then obtain cs k r1 r2 v r3 e t where *: "json_skip s = 34 # cs" "json_string cs = Some (k, r1)"
      "json_skip r1 = 58 # r2" "json_value f r2 = Some (v, r3)" "json_skip r3 = e # t"
    and last: "e = 44 \<and> put (k, v) (json_members f t) = Some (ms, r) \<or> e = 125 \<and> ms = [(k, v)] \<and> r = t"
    by (auto split: option.splits list.splits if_splits)
  have short: "length r2 < length s" "length r3 < length r2" "length t < length r3"
    using json_skip_shorter [OF *(1)] json_string_shorter [OF *(2)] json_skip_shorter [OF *(3)]
      json_skip_shorter [OF *(5)] steadyD(1) [OF assms(1) *(4)] by auto
  have "length r < length s"
    using last short steadyD(1) [OF assms(2), of t] by (fastforce simp: put_eq_Some)
  moreover have "json_members g s = Some (ms, r)" if g: "2 * length s + 1 < g" for g
  proof -
    obtain g' where g: "g = Suc g'" "2 * length r2 < g'" "2 * length t + 1 < g'" using short g by (cases g) auto
    then show ?thesis
      using steadyD(2) [OF assms(1) *(4), of g'] steadyD(2) [OF assms(2), of t _ _ g'] * last
      by (auto simp: put_eq_Some)
  qed
  ultimately show "length r < length s \<and> (\<forall>g. 2 * length s + 1 < g \<longrightarrow> json_members g s = Some (ms, r))"
    by blast
qed

lemma json_steady: "steady 0 json_value f \<and> steady 1 json_elements f \<and> steady 1 json_members f"
proof (induction f)
  case (Suc f)
  then show ?case using value_steady elements_steady members_steady by blast
qed (simp add: steady_def)

lemma json_value_enough:
  assumes "json_value f s = Some (v, r)"
  shows "json_value (2 * length s + 1) s = Some (v, r)"
  using json_steady [of f] steadyD(2) [of 0 json_value f s v r "2 * length s + 1"] assms by simp

section \<open>Quoted strings are read back\<close>

lemma unat_hex_digit: "d < 16 \<Longrightarrow> unat (hex_digit d) = (if d < 10 then 48 + d else 87 + d)"
  by (simp add: hex_digit_def unat_of_nat take_bit_nat_eq_self del: of_nat_add)

lemma hex_value_digit: "d < 16 \<Longrightarrow> hex_value (hex_digit d) = Some d"
  by (simp add: hex_value_def unat_hex_digit)

lemma hex_digit_plain: "d < 16 \<Longrightarrow> unat (hex_digit d) < 0x80"
  by (simp add: unat_hex_digit)

lemma four_hex_digits:
  assumes "n < 65536"
  shows "n div 4096 mod 16 * 4096 + n div 256 mod 16 * 256 + n div 16 mod 16 * 16 + n mod 16 = (n :: nat)"
proof -
  have digits: "n div 256 = n div 16 div 16" "n div 4096 = n div 16 div 16 div 16"
    by (simp_all add: div_mult2_eq [symmetric])
  have "n div 16 div 16 div 16 mod 16 = n div 16 div 16 div 16" using assms by simp
  then show ?thesis
    using div_mult_mod_eq [of n 16] div_mult_mod_eq [of "n div 16" 16] div_mult_mod_eq [of "n div 16 div 16" 16]
    unfolding digits by linarith
qed

lemma hex_unit_digits:
  "hex_unit (hex_digit (unat u div 4096 mod 16)) (hex_digit (unat u div 256 mod 16))
     (hex_digit (unat u div 16 mod 16)) (hex_digit (unat u mod 16)) = Some u" for u :: code_unit
proof -
  have "unat u < 65536" using unsigned_less [of u] by simp
  then have "word_of_nat (unat u div 4096 mod 16 * 4096 + unat u div 256 mod 16 * 256 +
      unat u div 16 mod 16 * 16 + unat u mod 16) = u"
    by (simp only: four_hex_digits) simp
  then show ?thesis unfolding hex_unit_def by (simp add: hex_value_digit del: of_nat_add of_nat_mult)
qed

lemma json_string_escape: "json_string (unicode_escape u @ s) = put u (json_string s)"
  by (simp add: unicode_escape_def Let_def hex_unit_digits)

lemma json_string_unit: "json_string (quote_unit u @ s) = put u (json_string s)"
  by (simp add: quote_unit_def json_string_escape simple_escape_def)

lemma surrogate_plain: "high_surrogate u \<or> low_surrogate u \<Longrightarrow> json_string (u # s) = put u (json_string s)"
  by (auto simp: high_surrogate_def low_surrogate_def word_less_nat_alt)

lemma json_string_quote: "json_string (quote_units s @ 34 # rest) = Some (s, rest)"
proof (induction s rule: quote_units.induct)
  case 1
  show ?case by simp
next
  case (2 u)
  show ?case by (simp add: json_string_escape json_string_unit) (simp add: put_def)
next
  case (3 u v us)
  then show ?case
    by (simp add: json_string_escape json_string_unit surrogate_plain del: json_string.simps)
      (simp add: put_def)
qed

lemma json_value_quote:
  "json_value (Suc f) (QuoteJSONString s @ rest) = Some (JString s, rest)"
  by (simp add: QuoteJSONString_def json_space_def json_string_quote)

lemma json_members_quote:
  "json_members (Suc f) (QuoteJSONString k @ 58 # s) =
     (case json_value f s of
        None \<Rightarrow> None
      | Some (v, r) \<Rightarrow>
          (case json_skip r of
             [] \<Rightarrow> None
           | e # t \<Rightarrow>
               if e = 44 then put (k, v) (json_members f t)
               else if e = 125 then Some ([(k, v)], t) else None))"
  by (simp add: QuoteJSONString_def json_space_def json_string_quote)

lemma json_value_brace:
  "json_value (Suc f) (123 # QuoteJSONString k @ s) =
     map_option (\<lambda>(ms, r). (JObject ms, r)) (json_members f (QuoteJSONString k @ s))"
  by (simp add: QuoteJSONString_def json_space_def)

lemma well_formed_append: "well_formed a \<Longrightarrow> well_formed b \<Longrightarrow> well_formed (a @ b)"
proof (induction a rule: well_formed.induct)
  case (2 u)
  then show ?case by (cases b) auto
qed (auto split: if_splits)

lemma well_formed_plain: "(\<And>c. c \<in> set s \<Longrightarrow> \<not> high_surrogate c \<and> \<not> low_surrogate c) \<Longrightarrow> well_formed s"
  by (induction s rule: well_formed.induct) auto

lemma ascii_not_surrogate: "unat c < 0x80 \<Longrightarrow> \<not> high_surrogate c \<and> \<not> low_surrogate c"
  by (simp add: high_surrogate_def low_surrogate_def)

lemma escape_well_formed: "well_formed (unicode_escape u)"
  by (rule well_formed_plain, rule ascii_not_surrogate)
    (auto simp: unicode_escape_def Let_def hex_digit_plain)

lemma quote_unit_units: "c \<in> set (quote_unit u) \<Longrightarrow> c = u \<or> unat c < 0x80"
  by (auto simp: quote_unit_def unicode_escape_def Let_def hex_digit_plain split: if_splits)

lemma quote_unit_well_formed:
  "\<not> high_surrogate u \<Longrightarrow> \<not> low_surrogate u \<Longrightarrow> well_formed (quote_unit u)"
  using quote_unit_units ascii_not_surrogate by (blast intro: well_formed_plain)

lemma quote_units_well_formed: "well_formed (quote_units s)"
  by (induction s rule: quote_units.induct)
    (auto intro!: well_formed_append escape_well_formed quote_unit_well_formed)

lemma quoted_well_formed: "well_formed (QuoteJSONString s)"
proof -
  have quote: "well_formed [34]" by (simp add: high_surrogate_def low_surrogate_def)
  have "well_formed ([34] @ quote_units s @ [34])"
    by (intro well_formed_append quote quote_units_well_formed)
  then show ?thesis by (simp add: QuoteJSONString_def)
qed

section \<open>Numbers are read back\<close>

lemma decimal_digits_head: "0 < n \<Longrightarrow> hd (decimal_digits n) \<noteq> 0"
proof (induction n rule: decimal_digits.induct)
  case (1 n)
  show ?case
  proof (cases "n < 10")
    case False
    then have "hd (decimal_digits (n div 10)) \<noteq> 0" using 1 by simp
    with False show ?thesis by (subst decimal_digits.simps) simp
  qed (use 1 in \<open>simp add: decimal_digits.simps [of n]\<close>)
qed

lemma json_digit_is_digit: "json_digit = is_digit"
  by (simp add: fun_eq_iff json_digit_def is_digit_def)

lemma json_integer_show:
  assumes "\<not> is_digit e"
  shows "json_integer (show_nat n @ e # rest) = Some (e # rest)"
proof (cases "n = 0")
  case True
  then show ?thesis by (simp add: show_nat_def decimal_digits.simps [of 0] json_integer_def)
next
  case False
  obtain d ds where dd: "decimal_digits n = d # ds" by (cases "decimal_digits n") auto
  have d: "0 < d" "d < 10"
    using decimal_digits_head [of n] decimal_digits_less [of d n] False dd by auto
  have "unat (48 + of_nat d :: code_unit) = 48 + d" using d(2) by (rule unat_digit_unit)
  then have first: "48 + of_nat d \<noteq> (48 :: code_unit)" using d(1) by auto
  have all: "\<forall>c \<in> set (show_nat n). is_digit c" using show_nat_digits by blast
  then have "json_digit (48 + of_nat d)"
      "dropWhile json_digit (map (\<lambda>d. 48 + of_nat d) ds @ e # rest) = e # rest"
    using assms dropWhile_append2 [of "map (\<lambda>d. 48 + of_nat d) ds" is_digit "e # rest"]
    by (auto simp: json_digit_is_digit show_nat_def dd)
  with first show ?thesis by (simp add: show_nat_def dd json_integer_def)
qed

lemma json_number_show:
  "json_number (show_nat n @ 125 # rest) = Some (JNumber (show_nat n), 125 # rest)"
proof -
  have "json_integer (show_nat n @ 125 # rest) = Some (125 # rest)"
    by (rule json_integer_show) (simp add: is_digit_def)
  moreover obtain c cs where c: "show_nat n = c # cs" by (cases "show_nat n") auto
  moreover have "c \<noteq> 45" using show_nat_digits [of c n] c by (auto simp: is_digit_def)
  ultimately show ?thesis by (simp add: json_number_def json_fraction_def json_exponent_def)
qed

lemma json_value_show:
  "json_value (Suc f) (show_nat n @ 125 # rest) = Some (JNumber (show_nat n), 125 # rest)"
proof -
  obtain c cs where c: "show_nat n = c # cs" by (cases "show_nat n") auto
  then have "is_digit c" using show_nat_digits [of c n] by simp
  then have "\<not> json_space c" "c \<noteq> 34" "c \<noteq> 91" "c \<noteq> 123" "c \<noteq> 110" "c \<noteq> 116" "c \<noteq> 102"
    by (auto simp: is_digit_def json_space_def)
  then show ?thesis
    using json_number_show [of n rest] by (simp add: c json_scalar_def json_word_def)
qed

end
