(* ===== verification/Share_Note.thy ===== *)
theory Share_Note
  imports Json Js_Text
begin

text \<open>
  The plaintext of a shared note (\<open>apps/web/src/share/note-codec.ts\<close>): \<open>JSON.stringify\<close> of its title and
  body in UTF-8, and the reader, which refuses bytes that are not UTF-8, text that is not JSON, and
  values without the two strings.
\<close>

record shared_note =
  sn_title :: jsstring
  sn_body :: jsstring

datatype shared_note_error = NotUtf8 | NotJson | PropertyOfNull | MissingTitleOrBody

definition shared_note_json :: "shared_note \<Rightarrow> jsstring" where
  "shared_note_json n =
     123 # QuoteJSONString (js ''title'') @ 58 # QuoteJSONString (sn_title n) @
     44 # QuoteJSONString (js ''body'') @ 58 # QuoteJSONString (sn_body n) @ [125]"

definition encodeSharedNote :: "shared_note \<Rightarrow> bytes" where
  "encodeSharedNote n = text_encode (shared_note_json n)"

text \<open>Reading a property of a parsed value; of several members of one name the last counts.\<close>

fun property :: "jsstring \<Rightarrow> json \<Rightarrow> json option" where
  "property k (JObject ms) = map_of (rev ms) k"
| "property k v = None"

definition decodeSharedNote :: "bytes \<Rightarrow> shared_note_error + shared_note" where
  "decodeSharedNote bs =
     (case text_decode_fatal bs of
        None \<Rightarrow> Inl NotUtf8
      | Some s \<Rightarrow>
          (case JSON_parse s of
             None \<Rightarrow> Inl NotJson
           | Some v \<Rightarrow>
               if v = JNull then Inl PropertyOfNull
               else case (property (js ''title'') v, property (js ''body'') v) of
                 (Some (JString t), Some (JString b)) \<Rightarrow> Inr \<lparr>sn_title = t, sn_body = b\<rparr>
               | _ \<Rightarrow> Inl MissingTitleOrBody))"

lemma json_value_note:
  "json_value (Suc (Suc (Suc (Suc 0)))) (shared_note_json n) =
     Some (JObject [(js ''title'', JString (sn_title n)), (js ''body'', JString (sn_body n))], [])"
  unfolding shared_note_json_def
  by (simp add: json_value_brace json_members_quote json_value_quote json_space_def put_def
      del: json_value.simps json_members.simps js_Cons)

lemma JSON_parse_note:
  "JSON_parse (shared_note_json n) =
     Some (JObject [(js ''title'', JString (sn_title n)), (js ''body'', JString (sn_body n))])"
  using json_value_enough [OF json_value_note [of n]] by (simp add: JSON_parse_def)

lemma shared_note_text: "well_formed (shared_note_json n) \<and> \<not> starts_with_bom (shared_note_json n)"
proof -
  have unit: "well_formed [c]" if "c \<in> {123, 58, 44, 125}" for c :: code_unit
    using that by (auto simp: high_surrogate_def low_surrogate_def)
  have "well_formed ([123] @ QuoteJSONString (js ''title'') @ [58] @ QuoteJSONString (sn_title n) @
      [44] @ QuoteJSONString (js ''body'') @ [58] @ QuoteJSONString (sn_body n) @ [125])"
    by (intro well_formed_append quoted_well_formed unit) simp_all
  then show ?thesis by (simp add: shared_note_json_def starts_with_bom_def)
qed

text \<open>
  A shared note arrives as it was sent. For every title and body, including text with quotes,
  control characters, unpaired surrogates or a leading byte order mark, the reader recovers exactly
  the title and body from the bytes the writer produced.
\<close>

theorem shared_note_round_trip: "decodeSharedNote (encodeSharedNote n) = Inr n"
proof -
  have "text_decode_fatal (encodeSharedNote n) = Some (shared_note_json n)"
    unfolding encodeSharedNote_def using shared_note_text by (intro text_round_trip) blast+
  moreover have "js ''title'' \<noteq> js ''body''" by (simp add: js_def)
  ultimately show ?thesis by (simp add: decodeSharedNote_def JSON_parse_note del: js_Cons)
qed

end
