(* ===== verification/Share_Server.thy ===== *)
theory Share_Server
  imports Share_Backend
begin

text \<open>
  The rendezvous backend as a server: the process configuration (\<open>main.rs\<close>, \<open>state.rs\<close>), the origin check
  (\<open>cors.rs\<close>), the client's rate-limit bucket (\<open>handlers.rs\<close>) and the router (\<open>router.rs\<close>) over the handlers
  of \<open>Share_Backend\<close>. A request reaches the model parsed: its method, the decoded segments of its path, its
  headers under lowercase names (a value that is not visible ASCII is \<open>None\<close>) and its body, whose length the
  request declares. The texts of error bodies are left out. Every request comes with the wall clock of the sweep and the clock of the handlers.
\<close>

section \<open>Configuration\<close>

definition ascii_space :: "char \<Rightarrow> bool" where
  "ascii_space c \<longleftrightarrow> of_char c \<in> {9, 10, 11, 12, 13, 32 :: nat}"

definition ascii_trim :: "string \<Rightarrow> string" where
  "ascii_trim s = rev (dropWhile ascii_space (rev (dropWhile ascii_space s)))"

fun split_comma :: "string \<Rightarrow> string list" where
  "split_comma [] = [[]]"
| "split_comma (c # cs) =
     (if c = CHR '','' then [] # split_comma cs
      else case split_comma cs of [] \<Rightarrow> [[c]] | w # ws \<Rightarrow> (c # w) # ws)"

definition parse_allowed_origins :: "string option \<Rightarrow> string list" where
  "parse_allowed_origins raw =
     filter (\<lambda>s. s \<noteq> []) (map ascii_trim (split_comma (case raw of None \<Rightarrow> [] | Some r \<Rightarrow> r)))"

definition ascii_lower :: "char \<Rightarrow> char" where
  "ascii_lower c = (if 65 \<le> (of_char c :: nat) \<and> (of_char c :: nat) \<le> 90 then char_of ((of_char c :: nat) + 32) else c)"

record app_state =
  as_allowed_origins :: "string list"
  as_trusted_ip_header :: "string option"

text \<open>The environment variables \<open>ALLOWED_ORIGINS\<close> and \<open>TRUSTED_IP_HEADER\<close>; an empty one counts as unset.\<close>

definition app_state_new :: "string option \<Rightarrow> string option \<Rightarrow> app_state" where
  "app_state_new origins trusted =
     \<lparr>as_allowed_origins = parse_allowed_origins origins,
      as_trusted_ip_header = (case trusted of None \<Rightarrow> None | Some h \<Rightarrow> if h = [] then None else Some (map ascii_lower h))\<rparr>"

section \<open>Requests\<close>

datatype server_method = MGet | MHead | MPost | MOptions | MOther

record server_request =
  rq_method :: server_method
  rq_path :: "jsstring list"
  rq_headers :: "(string \<times> string option) list"
  rq_body :: bytes

record server_response =
  sr_status :: nat
  sr_body :: bytes
  sr_headers :: "(string \<times> string) list"

definition header_str :: "string \<Rightarrow> server_request \<Rightarrow> string option" where
  "header_str name rq = (case map_of (rq_headers rq) name of None \<Rightarrow> None | Some v \<Rightarrow> v)"

definition UNKNOWN_CLIENT_BUCKET :: string where "UNKNOWN_CLIENT_BUCKET = ''unknown''"

definition client_ip :: "app_state \<Rightarrow> server_request \<Rightarrow> string" where
  "client_ip app rq =
     (case as_trusted_ip_header app of
        None \<Rightarrow> UNKNOWN_CLIENT_BUCKET
      | Some name \<Rightarrow>
          (case map_option ascii_trim (header_str name rq) of
             None \<Rightarrow> UNKNOWN_CLIENT_BUCKET
           | Some s \<Rightarrow> if s = [] then UNKNOWN_CLIENT_BUCKET else s))"

section \<open>Routes\<close>

text \<open>A \<open>GET\<close> route also answers \<open>HEAD\<close>, without the body.\<close>

definition headless :: "http_response \<Rightarrow> http_response" where
  "headless r = r\<lparr>h_body := Some []\<rparr>"

definition route_request ::
  "(bytes \<Rightarrow> jsstring) \<Rightarrow> app_state \<Rightarrow> nat \<Rightarrow> nat \<Rightarrow> server_request \<Rightarrow> rendezvous_store \<Rightarrow> http_response \<times> rendezvous_store" where
  "route_request code_of app wall now rq s =
     (if length (rq_body rq) > MAX_BLOB_BYTES then (answer 413 [], s)
      else case rq_path rq of
        [p] \<Rightarrow>
          if p \<noteq> js ''rendezvous'' then (answer 404 [], s)
          else (case rq_method rq of
                  MPost \<Rightarrow> mint_rendezvous code_of (client_ip app rq) wall now (rq_body rq) s
                | _ \<Rightarrow> (answer 405 [], s))
      | [p, code] \<Rightarrow>
          if p \<noteq> js ''rendezvous'' \<or> code = [] then (answer 404 [], s)
          else (case rq_method rq of
                  MGet \<Rightarrow> fetch_rendezvous now code s
                | MHead \<Rightarrow> apfst headless (fetch_rendezvous now code s)
                | _ \<Rightarrow> (answer 405 [], s))
      | [p, code, b] \<Rightarrow>
          if p \<noteq> js ''rendezvous'' \<or> code = [] \<or> b \<noteq> js ''blob'' then (answer 404 [], s)
          else (case rq_method rq of
                  MGet \<Rightarrow> download_blob now code s
                | MHead \<Rightarrow> apfst headless (download_blob now code s)
                | MPost \<Rightarrow> upload_blob wall now code (rq_body rq) s
                | _ \<Rightarrow> (answer 405 [], s))
      | _ \<Rightarrow> (answer 404 [], s))"

section \<open>The origin check\<close>

definition origin_is_allowed :: "string \<Rightarrow> string list \<Rightarrow> bool" where
  "origin_is_allowed origin allowed \<longleftrightarrow> list_ex (\<lambda>a. a = origin) allowed"

definition cors_headers :: "string \<Rightarrow> (string \<times> string) list" where
  "cors_headers origin =
     [(''access-control-allow-origin'', origin), (''vary'', ''origin''),
      (''access-control-allow-methods'', ''GET, POST, OPTIONS''),
      (''access-control-allow-headers'', ''content-type''), (''access-control-max-age'', ''86400'')]"

definition apply_cors_headers :: "string \<Rightarrow> server_response \<Rightarrow> server_response" where
  "apply_cors_headers origin r = r\<lparr>sr_headers := cors_headers origin @ sr_headers r\<rparr>"

definition preflight_response :: "string option \<Rightarrow> string list \<Rightarrow> server_response" where
  "preflight_response origin allowed =
     (case origin of
        Some o' \<Rightarrow>
          if origin_is_allowed o' allowed
          then apply_cors_headers o' \<lparr>sr_status = 204, sr_body = [], sr_headers = []\<rparr>
          else \<lparr>sr_status = 403, sr_body = [], sr_headers = []\<rparr>
      | None \<Rightarrow> \<lparr>sr_status = 403, sr_body = [], sr_headers = []\<rparr>)"

definition forbidden_origin :: server_response where
  "forbidden_origin = \<lparr>sr_status = 403, sr_body = [], sr_headers = [(''content-type'', ''application/json'')]\<rparr>"

text \<open>The response of a route as the origin check sees it.\<close>

definition routed :: "http_response \<Rightarrow> server_response" where
  "routed r = \<lparr>sr_status = h_status r, sr_body = (case h_body r of None \<Rightarrow> [] | Some b \<Rightarrow> b), sr_headers = []\<rparr>"

definition cors_layer ::
  "(bytes \<Rightarrow> jsstring) \<Rightarrow> app_state \<Rightarrow> nat \<Rightarrow> nat \<Rightarrow> server_request \<Rightarrow> rendezvous_store \<Rightarrow> server_response \<times> rendezvous_store" where
  "cors_layer code_of app wall now rq s =
     (let origin = header_str ''origin'' rq
      in if rq_method rq = MOptions then (preflight_response origin (as_allowed_origins app), s)
         else case origin of
           Some o' \<Rightarrow>
             if \<not> origin_is_allowed o' (as_allowed_origins app) then (forbidden_origin, s)
             else (case route_request code_of app wall now rq s of
                     (r, s') \<Rightarrow> (apply_cors_headers o' (routed r), s'))
         | None \<Rightarrow> (case route_request code_of app wall now rq s of (r, s') \<Rightarrow> (routed r, s')))"

section \<open>The server over time\<close>

text \<open>
  The store with a record of what the server did: blobs accepted and blobs handed out, by code, and the
  buckets that were given a rendezvous.
\<close>

record server_log =
  sl_store :: rendezvous_store
  sl_uploaded :: "(jsstring \<times> bytes) list"
  sl_delivered :: "(jsstring \<times> bytes) list"
  sl_minted :: "string list"

type_synonym timed_request = "nat \<times> nat \<times> server_request"

definition is_upload :: "server_request \<Rightarrow> nat \<Rightarrow> bool" where
  "is_upload rq status \<longleftrightarrow> length (rq_path rq) = 3 \<and> rq_method rq = MPost \<and> status = 204"

definition is_download :: "server_request \<Rightarrow> nat \<Rightarrow> bool" where
  "is_download rq status \<longleftrightarrow> length (rq_path rq) = 3 \<and> rq_method rq = MGet \<and> status = 200"

definition is_mint :: "server_request \<Rightarrow> nat \<Rightarrow> bool" where
  "is_mint rq status \<longleftrightarrow> length (rq_path rq) = 1 \<and> rq_method rq = MPost \<and> status = 200"

definition server_step :: "(bytes \<Rightarrow> jsstring) \<Rightarrow> app_state \<Rightarrow> timed_request \<Rightarrow> server_log \<Rightarrow> server_log" where
  "server_step code_of app q l =
     (case q of (wall, now, rq) \<Rightarrow>
        case cors_layer code_of app wall now rq (sl_store l) of (r, s) \<Rightarrow>
          \<lparr>sl_store = s,
           sl_uploaded = sl_uploaded l @ (if is_upload rq (sr_status r) then [(rq_path rq ! 1, rq_body rq)] else []),
           sl_delivered = sl_delivered l @ (if is_download rq (sr_status r) then [(rq_path rq ! 1, sr_body r)] else []),
           sl_minted = sl_minted l @ (if is_mint rq (sr_status r) then [client_ip app rq] else [])\<rparr>)"

definition server_start :: "rendezvous_store \<Rightarrow> server_log" where
  "server_start s = \<lparr>sl_store = s, sl_uploaded = [], sl_delivered = [], sl_minted = []\<rparr>"

lemma cors_routed:
  assumes "cors_layer code_of app wall now rq s = (r, s')"
  shows "rq_method rq = MOptions \<and> s' = s \<or> sr_status r = 403 \<and> s' = s \<or>
    (\<exists>h. route_request code_of app wall now rq s = (h, s') \<and> sr_status r = h_status h \<and>
       sr_body r = (case h_body h of None \<Rightarrow> [] | Some b \<Rightarrow> b))"
  using assms
  by (auto simp: cors_layer_def Let_def forbidden_origin_def apply_cors_headers_def routed_def
      split: if_splits option.splits prod.splits)

section \<open>A blob is delivered once\<close>

definition stored_blob :: "jsstring \<times> bytes \<Rightarrow> rendezvous_store \<Rightarrow> nat" where
  "stored_blob cb s = (case st_blobs s (fst cb) of Some (b, e) \<Rightarrow> if b = snd cb then 1 else 0 | None \<Rightarrow> 0)"

lemma sweep_blob: "stored_blob cb (sweep wall s) \<le> stored_blob cb s"
  by (auto simp: stored_blob_def sweep_def retain_unexpired_def split: option.splits)

lemma mint_blob:
  assumes "mint_rendezvous code_of ip wall now body s = (r, s')"
  shows "stored_blob cb s' \<le> stored_blob cb s"
proof -
  have "st_blobs s' = st_blobs (sweep wall s) \<or> st_blobs s' = st_blobs (sweep wall (sweep wall s))"
    using assms
    by (auto simp: mint_rendezvous_def increment_mint_counter_def put_rendezvous_def Let_def sweep_def
        split: if_splits prod.splits)
  then show ?thesis using sweep_blob [of cb wall s] sweep_blob [of cb wall "sweep wall s"]
    by (auto simp: stored_blob_def)
qed

lemma upload_outcome:
  assumes "upload_blob wall now code body s = (r, s')"
  shows "h_status r = 204 \<and> stored_blob cb s' \<le> stored_blob cb s + (if cb = (code, body) then 1 else 0) \<or>
    h_status r \<noteq> 204 \<and> stored_blob cb s' \<le> stored_blob cb s"
proof -
  consider "s' = s" "h_status r \<noteq> 204"
    | "s' = sweep wall s" "h_status r \<noteq> 204"
    | e where "s' = (sweep wall s)\<lparr>st_blobs := (st_blobs (sweep wall s))(code \<mapsto> (body, e))\<rparr>" "h_status r = 204"
    using assms
    by (auto simp: upload_blob_def put_blob_def answer_def Let_def split: if_splits option.splits prod.splits)
  then show ?thesis
  proof cases
    case 3
    have "stored_blob cb s' \<le> stored_blob cb (sweep wall s) + (if cb = (code, body) then 1 else 0)"
      using 3 by (auto simp: stored_blob_def split: option.splits)
    with 3 sweep_blob [of cb wall s] show ?thesis by auto
  qed (use sweep_blob in auto)
qed

lemma download_outcome:
  assumes "download_blob now code s = (r, s')"
  shows "h_status r = 200 \<and> (\<exists>b. h_body r = Some b \<and>
      stored_blob cb s' + (if cb = (code, b) then 1 else 0) \<le> stored_blob cb s) \<or>
    h_status r \<noteq> 200 \<and> stored_blob cb s' \<le> stored_blob cb s"
proof (cases "assert_code code \<and> st_blobs s code \<noteq> None")
  case True
  then obtain b e where b: "st_blobs s code = Some (b, e)" by auto
  define s1 where "s1 = s\<lparr>st_blobs := (st_blobs s)(code := None)\<rparr>"
  have "stored_blob cb s1 + (if cb = (code, b) then 1 else 0) \<le> stored_blob cb s"
    using b by (auto simp: s1_def stored_blob_def)
  moreover have "s' = s1" "r = (if e \<le> now then answer 404 [] else answer 200 b)"
    using assms True b by (cases "e \<le> now"; simp add: download_blob_def take_blob_def s1_def)+
  ultimately show ?thesis by (auto simp: answer_def)
next
  case False
  then have "s' = s" "h_status r \<noteq> 200"
    using assms by (cases "st_blobs s code"; auto simp: download_blob_def take_blob_def answer_def split: if_splits)+
  then show ?thesis by simp
qed

text \<open>One request keeps the balance of blobs accepted, handed out and stored.\<close>

definition handed_out :: "jsstring \<times> bytes \<Rightarrow> server_request \<Rightarrow> nat \<Rightarrow> bytes \<Rightarrow> nat" where
  "handed_out cb rq status body = (if is_download rq status \<and> cb = (rq_path rq ! 1, body) then 1 else 0)"

definition taken_in :: "jsstring \<times> bytes \<Rightarrow> server_request \<Rightarrow> nat \<Rightarrow> nat" where
  "taken_in cb rq status = (if is_upload rq status \<and> cb = (rq_path rq ! 1, rq_body rq) then 1 else 0)"

lemma fetch_keeps: "snd (fetch_rendezvous now code s) = s"
  by (simp add: fetch_rendezvous_def split: option.splits)

lemma not_logged:
  "length (rq_path rq) \<noteq> 3 \<Longrightarrow> handed_out cb rq st body = 0 \<and> taken_in cb rq st = 0"
  "rq_method rq \<noteq> MGet \<Longrightarrow> handed_out cb rq st body = 0"
  "rq_method rq \<noteq> MPost \<Longrightarrow> taken_in cb rq st = 0"
  "st \<noteq> 200 \<Longrightarrow> handed_out cb rq st body = 0"
  "st \<noteq> 204 \<Longrightarrow> taken_in cb rq st = 0"
  by (simp_all add: handed_out_def taken_in_def is_download_def is_upload_def)

lemma route_cases:
  assumes "route_request code_of app wall now rq s = (r, s')"
  obtains (rejected) "s' = s" "h_status r \<in> {404, 405, 413}"
    | (mint) "length (rq_path rq) = 1" "rq_method rq = MPost"
        "mint_rendezvous code_of (client_ip app rq) wall now (rq_body rq) s = (r, s')"
    | (fetch) "length (rq_path rq) = 2" "s' = s"
    | (download) code where "length (rq_path rq) = 3" "rq_path rq ! 1 = code" "rq_method rq = MGet"
        "download_blob now code s = (r, s')"
    | (head) code r' where "length (rq_path rq) = 3" "rq_method rq = MHead" "download_blob now code s = (r', s')"
    | (upload) code where "length (rq_path rq) = 3" "rq_path rq ! 1 = code" "rq_method rq = MPost"
        "upload_blob wall now code (rq_body rq) s = (r, s')"
proof -
  have split: "rq_path rq = [p] \<or> rq_path rq = [p, c] \<or> rq_path rq = [p, c, b] \<or> length (rq_path rq) \<notin> {1, 2, 3}"
    if "p = rq_path rq ! 0" "c = rq_path rq ! 1" "b = rq_path rq ! 2" for p c b
    using that by (auto simp: list_eq_iff_nth_eq less_Suc_eq numeral_2_eq_2 numeral_3_eq_3)
  then consider "length (rq_path rq) \<notin> {1, 2, 3}" | p where "rq_path rq = [p]" | p c where "rq_path rq = [p, c]"
    | p c b where "rq_path rq = [p, c, b]" by blast
  then show thesis
  proof cases
    case 1
    then have "s' = s" "h_status r \<in> {404, 413}"
      using assms by (auto simp: route_request_def answer_def split: if_splits list.splits)
    then show thesis by (intro rejected) auto
  next
    case (2 p)
    then show thesis
      using assms mint rejected
      by (cases "rq_method rq") (auto simp: route_request_def answer_def split: if_splits)
  next
    case (3 p c)
    then show thesis
      using assms fetch rejected fetch_keeps [of now c s]
      by (cases "rq_method rq") (auto simp: route_request_def answer_def apfst_def map_prod_def split: if_splits prod.splits)
  next
    case (4 p c b)
    then show thesis
      using assms download head upload rejected
      by (cases "rq_method rq") (auto simp: route_request_def answer_def apfst_def map_prod_def split: if_splits prod.splits)
  qed
qed

lemma route_balance:
  assumes "route_request code_of app wall now rq s = (r, s')"
  shows "stored_blob cb s' + handed_out cb rq (h_status r) (case h_body r of None \<Rightarrow> [] | Some b \<Rightarrow> b) \<le>
    stored_blob cb s + taken_in cb rq (h_status r)"
  using assms
proof (cases rule: route_cases)
  case rejected
  then show ?thesis by (auto simp: not_logged)
next
  case mint
  then show ?thesis using mint_blob [OF mint(3)] by (simp add: not_logged)
next
  case fetch
  then show ?thesis by (simp add: not_logged)
next
  case (download code)
  then show ?thesis
    using download_outcome [OF download(4), of cb] by (auto simp: handed_out_def taken_in_def is_download_def)
next
  case (head code r')
  then show ?thesis
    using download_outcome [OF head(3), of cb] by (auto simp: handed_out_def taken_in_def is_download_def)
next
  case (upload code)
  then show ?thesis
    using upload_outcome [OF upload(4), of cb] by (auto simp: handed_out_def taken_in_def is_upload_def is_download_def)
qed

lemma cors_balance:
  assumes "cors_layer code_of app wall now rq s = (r, s')"
  shows "stored_blob cb s' + handed_out cb rq (sr_status r) (sr_body r) \<le>
    stored_blob cb s + taken_in cb rq (sr_status r)"
  using cors_routed [OF assms] route_balance [of code_of app wall now rq s _ s' cb]
  by (auto simp: not_logged)

definition blobs_balanced :: "server_log \<Rightarrow> bool" where
  "blobs_balanced l \<longleftrightarrow>
     (\<forall>cb. stored_blob cb (sl_store l) + count_list (sl_delivered l) cb \<le> count_list (sl_uploaded l) cb)"

lemma balance_arith: "a + (d :: nat) \<le> u \<Longrightarrow> s + h \<le> a + t \<Longrightarrow> s + (d + h) \<le> u + t"
  by linarith

lemma server_step_balanced:
  assumes "blobs_balanced l"
  shows "blobs_balanced (server_step code_of app q l)"
proof -
  obtain wall now rq where q: "q = (wall, now, rq)" using prod_cases3 by blast
  obtain r s where c: "cors_layer code_of app wall now rq (sl_store l) = (r, s)" by fastforce
  have "count_list (sl_delivered (server_step code_of app q l)) cb =
      count_list (sl_delivered l) cb + handed_out cb rq (sr_status r) (sr_body r)"
    "count_list (sl_uploaded (server_step code_of app q l)) cb =
      count_list (sl_uploaded l) cb + taken_in cb rq (sr_status r)"
    "sl_store (server_step code_of app q l) = s" for cb
    using c by (auto simp: server_step_def q handed_out_def taken_in_def)
  moreover have bal: "stored_blob cb (sl_store l) + count_list (sl_delivered l) cb \<le> count_list (sl_uploaded l) cb" for cb
    using assms unfolding blobs_balanced_def by (rule spec)
  ultimately have "stored_blob cb (sl_store (server_step code_of app q l)) +
      count_list (sl_delivered (server_step code_of app q l)) cb \<le> count_list (sl_uploaded (server_step code_of app q l)) cb" for cb
    using balance_arith [OF bal cors_balance [OF c]] by simp
  then show ?thesis unfolding blobs_balanced_def by (rule allI)
qed

interpretation share_server: event_invariant
  "\<lambda>l. \<exists>s. st_blobs s = (\<lambda>_. None) \<and> l = server_start s" "server_step code_of app" blobs_balanced
  for code_of app
proof (unfold_locales, goal_cases)
  case (1 l)
  then show ?case by (auto simp: blobs_balanced_def server_start_def stored_blob_def)
qed (rule server_step_balanced)

section \<open>The mint limit\<close>

text \<open>What a bucket has used up of the window that starts at \<open>w\<close>.\<close>

definition bucket_used :: "nat \<Rightarrow> string \<Rightarrow> nat \<Rightarrow> rendezvous_store \<Rightarrow> bool" where
  "bucket_used w ip k s \<longleftrightarrow>
     k = 0 \<or> (\<exists>c e. st_counters s ip = Some (c, e) \<and> min k (2 ^ 32 - 1) \<le> c \<and> w + RENDEZVOUS_TTL_SECONDS \<le> e)"

lemma sweep_used:
  "bucket_used w ip k s \<Longrightarrow> wall < w + RENDEZVOUS_TTL_SECONDS \<Longrightarrow> bucket_used w ip k (sweep wall s)"
  by (auto simp: bucket_used_def sweep_def retain_unexpired_def)

lemma used_counters: "st_counters s' = st_counters s \<Longrightarrow> bucket_used w ip k s' = bucket_used w ip k s"
  by (simp add: bucket_used_def)

lemma counter_used:
  assumes "bucket_used w ip k s" and "w \<le> wall" and "wall < w + RENDEZVOUS_TTL_SECONDS"
    and "increment_mint_counter wall ip' RENDEZVOUS_TTL_SECONDS s = (n, s')"
  shows "bucket_used w ip (if ip' = ip then Suc k else k) s'" and "ip' = ip \<Longrightarrow> min (Suc k) (2 ^ 32 - 1) \<le> n"
  using sweep_used [OF assms(1,3)] assms(2,4)
  by (auto simp: increment_mint_counter_def bucket_used_def Let_def split: option.splits)

text \<open>A request changes the counters by sweeping and, when it mints, by counting its bucket.\<close>

lemma mint_counters:
  assumes "mint_rendezvous code_of ip wall now body s = (r, s')"
    and "increment_mint_counter wall ip RENDEZVOUS_TTL_SECONDS s = (n, s1)"
  shows "st_counters s' = st_counters s1 \<or> st_counters s' = st_counters (sweep wall s1)"
    and "h_status r = 200 \<Longrightarrow> n \<le> 10"
  using assms
  by (auto simp: mint_rendezvous_def put_rendezvous_def answer_def MINT_RATE_LIMIT_def Let_def
      split: if_splits)

lemma upload_counters:
  assumes "upload_blob wall now code body s = (r, s')"
  shows "st_counters s' = st_counters s \<or> st_counters s' = st_counters (sweep wall s)"
proof -
  have "s' = s \<or> (\<exists>e. s' = snd (put_blob wall code body e s))"
    using assms by (auto simp: upload_blob_def split: if_splits option.splits prod.splits) (metis snd_conv)+
  then show ?thesis by (auto simp: put_blob_def Let_def)
qed

lemma download_counters:
  assumes "download_blob now code s = (r, s')"
  shows "st_counters s' = st_counters s"
proof -
  have "s' = s \<or> s' = snd (take_blob now code s)"
    using assms by (auto simp: download_blob_def split: if_splits option.splits prod.splits)
  then show ?thesis by (auto simp: take_blob_def split: option.splits)
qed

lemma mint_used:
  assumes "bucket_used w ip k s" and "w \<le> wall" and "wall < w + RENDEZVOUS_TTL_SECONDS"
    and "mint_rendezvous code_of ip' wall now body s = (r, s')"
  shows "bucket_used w ip (if ip' = ip then Suc k else k) s' \<and> (h_status r = 200 \<and> ip' = ip \<longrightarrow> Suc k \<le> 10)"
proof -
  obtain n s1 where count: "increment_mint_counter wall ip' RENDEZVOUS_TTL_SECONDS s = (n, s1)" by fastforce
  note used = counter_used [OF assms(1-3) count] and counters = mint_counters [OF assms(4) count]
  have "bucket_used w ip (if ip' = ip then Suc k else k) s'"
    using counters(1) used(1) sweep_used [OF used(1) assms(3)] used_counters by metis
  moreover have "Suc k \<le> 10" if "h_status r = 200" "ip' = ip"
    using used(2) counters(2) that by (simp add: min_def split: if_splits)
  ultimately show ?thesis by blast
qed

lemma route_used:
  assumes "bucket_used w ip k s" and "w \<le> wall" and "wall < w + RENDEZVOUS_TTL_SECONDS"
    and "route_request code_of app wall now rq s = (r, s')"
  shows "\<exists>k'. bucket_used w ip k' s' \<and> k \<le> k' \<and>
    (is_mint rq (h_status r) \<and> client_ip app rq = ip \<longrightarrow> k' = Suc k \<and> k' \<le> 10)"
proof -
  have same: ?thesis if "st_counters s' = st_counters s \<or> st_counters s' = st_counters (sweep wall s)"
      "\<not> is_mint rq (h_status r)"
  proof (intro exI conjI)
    show "bucket_used w ip k s'"
      using that(1) assms(1) sweep_used [OF assms(1,3)]
      by (elim disjE) (simp_all add: used_counters [of s' s] used_counters [of s' "sweep wall s"])
  qed (use that(2) in simp_all)
  show ?thesis using assms(4)
  proof (cases rule: route_cases)
    case rejected
    then show ?thesis by (intro same) (auto simp: is_mint_def)
  next
    case mint
    with mint_used [OF assms(1-3) mint(3)] show ?thesis
      by (intro exI [of _ "if client_ip app rq = ip then Suc k else k"]) (simp add: is_mint_def)
  next
    case fetch
    then show ?thesis by (intro same) (auto simp: is_mint_def)
  next
    case (download code)
    then show ?thesis using download_counters by (intro same) (auto simp: is_mint_def)
  next
    case (head code r')
    then show ?thesis using download_counters by (intro same) (auto simp: is_mint_def)
  next
    case (upload code)
    then show ?thesis using upload_counters by (intro same) (auto simp: is_mint_def)
  qed
qed

definition mints_counted :: "nat \<Rightarrow> string \<Rightarrow> server_log \<Rightarrow> bool" where
  "mints_counted w ip l \<longleftrightarrow>
     (\<exists>k. bucket_used w ip k (sl_store l) \<and> count_list (sl_minted l) ip \<le> k \<and> count_list (sl_minted l) ip \<le> 10)"

lemma server_step_counted:
  assumes "mints_counted w ip l" and "w \<le> wall" and "wall < w + RENDEZVOUS_TTL_SECONDS"
  shows "mints_counted w ip (server_step code_of app (wall, now, rq) l)"
proof -
  obtain k where k: "bucket_used w ip k (sl_store l)" "count_list (sl_minted l) ip \<le> k" "count_list (sl_minted l) ip \<le> 10"
    using assms(1) by (auto simp: mints_counted_def)
  obtain r s where c: "cors_layer code_of app wall now rq (sl_store l) = (r, s)" by fastforce
  have "\<exists>k'. bucket_used w ip k' s \<and> k \<le> k' \<and> (is_mint rq (sr_status r) \<and> client_ip app rq = ip \<longrightarrow> k' = Suc k \<and> k' \<le> 10)"
    using cors_routed [OF c]
  proof (elim disjE)
    assume "\<exists>h. route_request code_of app wall now rq (sl_store l) = (h, s) \<and> sr_status r = h_status h \<and>
       sr_body r = (case h_body h of None \<Rightarrow> [] | Some b \<Rightarrow> b)"
    then show ?thesis using route_used [OF k(1) assms(2,3)] by fastforce
  qed (use k(1) in \<open>auto simp: is_mint_def\<close>)
  then obtain k' where k': "bucket_used w ip k' s" "k \<le> k'"
      "is_mint rq (sr_status r) \<and> client_ip app rq = ip \<longrightarrow> k' = Suc k \<and> k' \<le> 10" by blast
  have "sl_store (server_step code_of app (wall, now, rq) l) = s"
    "count_list (sl_minted (server_step code_of app (wall, now, rq) l)) ip =
      count_list (sl_minted l) ip + (if is_mint rq (sr_status r) \<and> client_ip app rq = ip then 1 else 0)"
    using c by (auto simp: server_step_def)
  with k k' show ?thesis unfolding mints_counted_def by (intro exI [of _ k']) auto
qed

lemma server_run_counted:
  assumes "list_all (\<lambda>(wall, now, rq). w \<le> wall \<and> wall < w + RENDEZVOUS_TTL_SECONDS) qs" and "mints_counted w ip l"
  shows "mints_counted w ip (fold (server_step code_of app) qs l)"
  using assms by (induction qs arbitrary: l) (auto simp: server_step_counted)

section \<open>Properties\<close>

text \<open>A page of another origin is refused before any handler runs, and learns nothing it may read.\<close>

lemma foreign_origin_refused:
  assumes "cors_layer code_of app wall now rq s = (r, s')" and "header_str ''origin'' rq = Some origin"
    and "origin \<notin> set (as_allowed_origins app)"
  shows "sr_status r = 403 \<and> s' = s \<and> map_of (sr_headers r) ''access-control-allow-origin'' = None"
  using assms
  by (auto simp: cors_layer_def Let_def preflight_response_def forbidden_origin_def origin_is_allowed_def list_ex_iff
      split: if_splits)

text \<open>A \<open>HEAD\<close> request to the blob's route uses up the blob.\<close>

lemma head_burns_blob:
  assumes "assert_code code" and "code \<noteq> []" and "st_blobs s code = Some (blob, e)" and "now < e"
    and "rq_path rq = [js ''rendezvous'', code, js ''blob'']" and "rq_method rq = MHead" and "rq_body rq = []"
  shows "route_request code_of app wall now rq s =
    (\<lparr>h_status = 200, h_body = Some []\<rparr>, s\<lparr>st_blobs := (st_blobs s)(code := None)\<rparr>)"
  using assms by (simp add: route_request_def download_blob_def take_blob_def headless_def answer_def)

text \<open>
  C20: a shared note is picked up at most once. Over any sequence of requests to the backend, at any
  clock readings, with codes reused, uploads repeated and swept, requests from any origin, and retries of the
  same download: a blob is handed out under a code at most as often as the server accepted exactly that
  blob under that code.
\<close>

theorem blob_delivered_once:
  assumes "st_blobs s = (\<lambda>_. None)"
  shows "count_list (sl_delivered (fold (server_step code_of app) qs (server_start s))) (code, blob)
    \<le> count_list (sl_uploaded (fold (server_step code_of app) qs (server_start s))) (code, blob)"
proof -
  have "blobs_balanced (fold (server_step code_of app) qs (server_start s))"
    by (rule share_server.run_inv) (use assms in blast)
  then show ?thesis by (auto simp: blobs_balanced_def intro: add_leD2)
qed

text \<open>A rendezvous, one upload to it and three downloads by a page of the allowed origin.\<close>

definition sample_code :: jsstring where "sample_code = replicate 12 48"

definition sample_app :: app_state where
  "sample_app = app_state_new (Some ''https://notes.example'') (Some ''X-Real-IP'')"

definition sample_request :: "server_method \<Rightarrow> jsstring list \<Rightarrow> bytes \<Rightarrow> server_request" where
  "sample_request m path body =
     \<lparr>rq_method = m, rq_path = path, rq_headers = [(''origin'', Some ''https://notes.example'')], rq_body = body\<rparr>"

definition blob_path :: "jsstring list" where
  "blob_path = [js ''rendezvous'', sample_code, js ''blob'']"

definition sample_requests :: "timed_request list" where
  "sample_requests = [(0, 0, sample_request MPost blob_path [1]), (1, 1, sample_request MGet blob_path []),
     (2, 2, sample_request MGet blob_path [])]"

definition sample_store :: rendezvous_store where
  "sample_store = \<lparr>st_records = [sample_code \<mapsto> (replicate 32 7, 300)], st_blobs = (\<lambda>_. None), st_counters = (\<lambda>_. None)\<rparr>"

definition sample_code_of :: "bytes \<Rightarrow> jsstring" where
  "sample_code_of = code_for_pubkey (\<lambda>_. replicate 32 0) (\<lambda>x. replicate ((length x * 8 + 4) div 5) 48)"

lemma sample_app_simps:
  "as_allowed_origins sample_app = [''https://notes.example'']" "as_trusted_ip_header sample_app = Some ''x-real-ip''"
  by code_simp+

lemma sample_assert: "assert_code sample_code"
  using text_encode_ascii [of sample_code] by (simp add: assert_code_def sample_code_def CODE_LEN_def)

lemma sample_cors:
  "m \<noteq> MOptions \<Longrightarrow> cors_layer code_of sample_app wall now (sample_request m path body) s =
     (case route_request code_of sample_app wall now (sample_request m path body) s of
        (r, s') \<Rightarrow> (apply_cors_headers ''https://notes.example'' (routed r), s'))"
  by (simp add: cors_layer_def header_str_def sample_request_def sample_app_simps origin_is_allowed_def)

lemma sample_routes:
  "route_request code_of app wall now (sample_request MPost blob_path [1]) s = upload_blob wall now sample_code [1] s"
  "route_request code_of app wall now (sample_request MGet blob_path []) s = download_blob now sample_code s"
  by (simp_all add: route_request_def sample_request_def blob_path_def MAX_BLOB_BYTES_def sample_code_def)

lemma sample_upload:
  "upload_blob 0 0 sample_code [1] sample_store =
     (answer 204 [], sample_store\<lparr>st_blobs := [sample_code \<mapsto> ([1], 300)]\<rparr>)"
  by (simp add: upload_blob_def sample_assert get_rendezvous_def put_blob_def sweep_def retain_unexpired_def
      sample_store_def answer_def MAX_BLOB_BYTES_def Let_def fun_eq_iff)

lemma sample_logged:
  "sl_uploaded (server_step code_of sample_app (wall, now, sample_request MGet path body) l) = sl_uploaded l"
  by (simp add: server_step_def is_upload_def sample_request_def split: prod.splits)

theorem blob_delivered_once_witness:
  "sl_uploaded (fold (server_step sample_code_of sample_app) sample_requests (server_start sample_store)) = [(sample_code, [1])] \<and>
   count_list (sl_delivered (fold (server_step sample_code_of sample_app) sample_requests (server_start sample_store))) (sample_code, [1]) \<le> 1"
proof -
  define l where "l = fold (server_step sample_code_of sample_app) sample_requests (server_start sample_store)"
  have "sl_uploaded (server_step sample_code_of sample_app (0, 0, sample_request MPost blob_path [1]) (server_start sample_store)) =
      [(sample_code, [1])]"
    by (simp add: server_step_def server_start_def sample_cors sample_routes sample_upload answer_def routed_def
        apply_cors_headers_def is_upload_def)
      (simp add: sample_request_def blob_path_def)
  then have "sl_uploaded l = [(sample_code, [1])]"
    by (simp add: l_def sample_requests_def sample_logged)
  moreover have empty: "st_blobs sample_store = (\<lambda>_. None)" by (simp add: sample_store_def)
  ultimately show ?thesis
    using blob_delivered_once [OF empty, of sample_code_of sample_app sample_requests sample_code "[1]"]
    unfolding l_def [symmetric] by simp
qed

text \<open>
  C38: the mint limit. Whatever the backend's state and whatever requests come, within any 300 seconds of
  its wall clock, which may even jump back and forth, one client bucket is given at most ten rendezvous.
\<close>

theorem mint_limit:
  assumes "list_all (\<lambda>(wall, now, rq). w \<le> wall \<and> wall < w + RENDEZVOUS_TTL_SECONDS) qs"
  shows "count_list (sl_minted (fold (server_step code_of app) qs (server_start s))) ip \<le> 10"
proof -
  have "mints_counted w ip (server_start s)"
    by (auto simp: mints_counted_def server_start_def bucket_used_def)
  from server_run_counted [OF assms this] show ?thesis by (auto simp: mints_counted_def)
qed

text \<open>Twelve requests of one client, one per second, whatever they ask for.\<close>

theorem mint_limit_witness:
  "count_list (sl_minted (fold (server_step sample_code_of sample_app)
     (map (\<lambda>i. (i, i, sample_request MPost [js ''rendezvous''] (replicate 32 (of_nat i)))) [0..<12])
     (server_start sample_store))) ''unknown'' \<le> 10"
  by (rule mint_limit [where w = 0]) (simp add: RENDEZVOUS_TTL_SECONDS_def list_all_iff)

end
