(* ===== verification/Share_Flow.thy ===== *)
theory Share_Flow
  imports Share_Client Share_Note Share_Server
begin

text \<open>
  A note shared from one user to another: client, wire formats, backend and note codec together. \<open>serve\<close> is
  the network between a page and the backend of \<open>Share_Server\<close>: the request passes the origin check and the
  router with the headers that browser and proxy add, for codes whose path segment needs no decoding.
\<close>

section \<open>The backend behind the network\<close>

type_synonym page_headers = "(string \<times> string option) list"

definition backend_request :: "page_headers \<Rightarrow> jsstring \<Rightarrow> http_request \<Rightarrow> server_request" where
  "backend_request hdrs base q =
     \<lparr>rq_method = (case q_method q of GET \<Rightarrow> MGet | POST \<Rightarrow> MPost),
      rq_path = tl (split_unit 47 (drop (length base) (q_url q))),
      rq_headers = hdrs,
      rq_body = (case q_body q of None \<Rightarrow> [] | Some b \<Rightarrow> b)\<rparr>"

definition serve ::
    "(bytes \<Rightarrow> jsstring) \<Rightarrow> app_state \<Rightarrow> page_headers \<Rightarrow> jsstring \<Rightarrow> nat \<Rightarrow> nat \<Rightarrow> rendezvous_store fetch_like" where
  "serve code_of app hdrs base wall now q s =
     (if \<not> starts_with base (q_url q) then (Some (answer 404 []), s)
      else case cors_layer code_of app wall now (backend_request hdrs base q) s of
        (r, s') \<Rightarrow> (Some (answer (sr_status r) (sr_body r)), s'))"

text \<open>The page is served from an origin that the backend allows, or the request names none.\<close>

definition page_allowed :: "app_state \<Rightarrow> page_headers \<Rightarrow> bool" where
  "page_allowed app hdrs \<longleftrightarrow>
     (case map_of hdrs ''origin'' of Some (Some o') \<Rightarrow> origin_is_allowed o' (as_allowed_origins app) | _ \<Rightarrow> True)"

definition page_ip :: "app_state \<Rightarrow> page_headers \<Rightarrow> string" where
  "page_ip app hdrs = client_ip app \<lparr>rq_method = MGet, rq_path = [], rq_headers = hdrs, rq_body = []\<rparr>"

lemma client_ip_page [simp]:
  "client_ip app \<lparr>rq_method = m, rq_path = p, rq_headers = hdrs, rq_body = b\<rparr> = page_ip app hdrs"
  by (simp add: page_ip_def client_ip_def header_str_def cong: option.case_cong)

lemma serve_routes:
  assumes "page_allowed app hdrs" and "starts_with base (q_url q)"
  shows "serve code_of app hdrs base wall now q s =
    (case route_request code_of app wall now (backend_request hdrs base q) s of
       (r, s') \<Rightarrow> (Some (answer (h_status r) (case h_body r of None \<Rightarrow> [] | Some b \<Rightarrow> b)), s'))"
proof -
  have "rq_method (backend_request hdrs base q) \<noteq> MOptions"
    by (simp add: backend_request_def split: http_method.splits)
  moreover have "header_str ''origin'' (backend_request hdrs base q) = Some o' \<Longrightarrow>
      origin_is_allowed o' (as_allowed_origins app)" for o'
    using assms(1) by (simp add: page_allowed_def header_str_def backend_request_def split: option.splits)
  ultimately have "cors_layer code_of app wall now (backend_request hdrs base q) s =
      (case route_request code_of app wall now (backend_request hdrs base q) s of
         (r, s') \<Rightarrow> (case header_str ''origin'' (backend_request hdrs base q) of
            Some o' \<Rightarrow> apply_cors_headers o' (routed r) | None \<Rightarrow> routed r, s'))"
    by (cases "header_str ''origin'' (backend_request hdrs base q)") (simp_all add: cors_layer_def split: prod.splits)
  then show ?thesis
    using assms(2) by (simp add: serve_def routed_def apply_cors_headers_def split: prod.splits option.splits)
qed

text \<open>Every handler answers with a body, which is what the page receives.\<close>

lemma handlers_answer:
  "h_body (fst (mint_rendezvous code_of ip wall now body s)) \<noteq> None"
  "h_body (fst (fetch_rendezvous now code s)) \<noteq> None"
  "h_body (fst (upload_blob wall now code body s)) \<noteq> None"
  "h_body (fst (download_blob now code s)) \<noteq> None"
  by (simp_all add: mint_rendezvous_def fetch_rendezvous_def upload_blob_def download_blob_def answer_def Let_def
      split: prod.splits option.splits)

lemma received_answer:
  "h_body (fst x) \<noteq> None \<Longrightarrow>
     (case x of (r, s') \<Rightarrow> (Some (answer (h_status r) (case h_body r of None \<Rightarrow> [] | Some b \<Rightarrow> b)), s')) = apfst Some x"
  by (cases x) (auto simp: answer_def)

text \<open>What the cryptography promises: sealed for a key, opened with its handle.\<close>

definition share_crypto ::
    "('h \<Rightarrow> bytes) \<Rightarrow> (bytes \<Rightarrow> bytes \<Rightarrow> share_blob_parts option) \<Rightarrow> ('h \<Rightarrow> share_blob_parts \<Rightarrow> bytes option) \<Rightarrow> bool" where
  "share_crypto pubkey sealShare openShare \<longleftrightarrow>
     (\<forall>h. length (pubkey h) = 32) \<and>
     (\<forall>h pt. \<exists>parts. sealShare (pubkey h) pt = Some parts \<and> blob_ok parts \<and>
        length (bp_ciphertext parts) = length pt + 16 \<and> openShare h parts = Some pt)"

lemma slash_not_code: "matches_code c \<Longrightarrow> 47 \<notin> set c"
  by (auto simp: matches_code_def list_all_iff code_char_unat)

lemma split_routes:
  "split_unit 47 (js ''/rendezvous'') = [[], js ''rendezvous'']"
  "matches_code c \<Longrightarrow> split_unit 47 (js ''/rendezvous/'' @ c) = [[], js ''rendezvous'', c]"
  "matches_code c \<Longrightarrow> split_unit 47 (js ''/rendezvous/'' @ c @ js ''/blob'') = [[], js ''rendezvous'', c, js ''blob'']"
proof -
  show "split_unit 47 (js ''/rendezvous'') = [[], js ''rendezvous'']" by simp
  assume c: "matches_code c"
  then show "split_unit 47 (js ''/rendezvous/'' @ c) = [[], js ''rendezvous'', c]"
    using split_unit_no_sep [OF slash_not_code [OF c]] by simp
  have "split_unit 47 (c @ 47 # js ''blob'') = [c, js ''blob'']"
    using split_unit_append_sep [OF slash_not_code [OF c]] by simp
  then show "split_unit 47 (js ''/rendezvous/'' @ c @ js ''/blob'') = [[], js ''rendezvous'', c, js ''blob'']"
    by simp
qed

lemma assert_code_matches: "matches_code c \<Longrightarrow> assert_code c"
  using code_ascii [of c] text_encode_ascii [of c] by (simp add: assert_code_def matches_code_def)

lemma served_mint:
  "page_allowed app hdrs \<Longrightarrow> length epk \<le> MAX_BLOB_BYTES \<Longrightarrow>
     serve code_of app hdrs base wall now \<lparr>q_method = POST, q_url = base @ js ''/rendezvous'', q_body = Some epk\<rparr> s =
       apfst Some (mint_rendezvous code_of (page_ip app hdrs) wall now epk s)"
  by (simp add: serve_routes backend_request_def split_routes route_request_def received_answer handlers_answer
      del: js_Cons)

lemma matches_nonempty: "matches_code c \<Longrightarrow> c \<noteq> []"
  by (auto simp: matches_code_def CODE_LEN_def)

lemma served_epk:
  "page_allowed app hdrs \<Longrightarrow> matches_code c \<Longrightarrow>
     serve code_of app hdrs base wall now \<lparr>q_method = GET, q_url = base @ js ''/rendezvous/'' @ c, q_body = None\<rparr> s =
       apfst Some (fetch_rendezvous now c s)"
  by (simp add: serve_routes backend_request_def split_routes route_request_def received_answer handlers_answer
      matches_nonempty del: js_Cons)

lemma served_blob:
  assumes "page_allowed app hdrs" and "matches_code c"
  shows "length b \<le> MAX_BLOB_BYTES \<Longrightarrow> serve code_of app hdrs base wall now
      \<lparr>q_method = POST, q_url = base @ js ''/rendezvous/'' @ c @ js ''/blob'', q_body = Some b\<rparr> s =
        apfst Some (upload_blob wall now c b s)"
    and "serve code_of app hdrs base wall now
      \<lparr>q_method = GET, q_url = base @ js ''/rendezvous/'' @ c @ js ''/blob'', q_body = None\<rparr> s =
        apfst Some (download_blob now c s)"
  using assms
  by (simp_all add: serve_routes backend_request_def split_routes route_request_def received_answer handlers_answer
      matches_nonempty del: js_Cons)

section \<open>Minting, sending and receiving\<close>

lemma minted_session:
  assumes "commitment_crates blake3 base32_encode" and "code_of = code_for_pubkey blake3 base32_encode"
    and "t0 + 300 < 2 ^ 53" and "page_allowed app hdrs" and "length (pubkey h) = 32"
    and "prepareReceive True (serve code_of app hdrs base wall0 t0) base pubkey (Some h) s0 = (Inr session, s1, freed)"
  shows "rs_code session = code_of (pubkey h)" and "rs_handle session = h"
    and "rs_expiresAt session = int (t0 + 300)"
    and "st_records s1 (code_of (pubkey h)) = Some (pubkey h, t0 + 300)"
    and "matches_code (rs_code session)"
proof -
  let ?c = "code_of (pubkey h)"
  have c: "matches_code ?c" using code_for_pubkey_matches [OF assms(1)] assms(2) by simp
  have fits: "length (pubkey h) \<le> MAX_BLOB_BYTES" using assms(5) by (simp add: MAX_BLOB_BYTES_def)
  obtain m where mint: "client_mint (serve code_of app hdrs base wall0 t0) base (pubkey h) s0 = (Inr m, s1)"
    and session: "session = \<lparr>rs_code = mp_code m, rs_expiresAt = whole (mp_expiresAt m), rs_handle = h\<rparr>"
    using assms(6) by (auto simp: prepareReceive_def split: prod.splits sum.splits)
  obtain r where r: "mint_rendezvous code_of (page_ip app hdrs) wall0 t0 (pubkey h) s0 = (r, s1)" "response_ok r"
      "bind_result (networkSafe (arrayBuffer r)) (\<lambda>bs. lift_share (decodeMintResponse bs)) = Inr m"
    using mint by (cases "mint_rendezvous code_of (page_ip app hdrs) wall0 t0 (pubkey h) s0")
      (auto simp: client_mint_def fetch_op_def served_mint [OF assms(4) fits] status_error_def simp del: js_Cons split: if_splits)
  have minted: "r = answer 200 (encode_mint_response ?c (t0 + 300)) \<and> st_records s1 ?c = Some (pubkey h, t0 + 300)"
    using r(1,2)
    by (auto simp: mint_rendezvous_def response_ok_def answer_def RENDEZVOUS_TTL_SECONDS_def Let_def
        put_rendezvous_def split: prod.splits if_splits)
  then have "m = \<lparr>mp_code = ?c, mp_expiresAt = Whole (int (t0 + 300))\<rparr>"
    using r(3) backend_mint_response [OF c assms(3)]
    by (simp add: answer_def arrayBuffer_def networkSafe_def lift_share_def)
  with session c minted show "rs_code session = ?c" "rs_handle session = h" "rs_expiresAt session = int (t0 + 300)"
      "st_records s1 ?c = Some (pubkey h, t0 + 300)" "matches_code (rs_code session)" by simp_all
qed

lemma sent_share:
  assumes "page_allowed app hdrs" and "matches_code c" and "typed_as c raw" and "c = code_of pk" and "length pk = 32"
    and "st_records s1 c = Some (pk, expires)" and "st_blobs s1 c = None" and "t1 < expires"
    and "sealShare pk plaintext = Some parts" and "encodeShareBlob parts = Inr blob" and "length blob \<le> 65536"
  shows "\<exists>s2. sendShare True (serve code_of app hdrs base wall1 t1) base code_of sealShare raw plaintext s1 = (Inr (), s2) \<and>
    st_blobs s2 c = Some (blob, expires)"
proof -
  let ?fetch = "serve code_of app hdrs base wall1 t1"
  have code: "normalizeCode raw = Some c" using assms(2,3) by (rule normalize_typed)
  have verify: "verifyCode code_of c pk"
    using assms(2,4,5) assert_code_matches [OF assms(2)] by (simp add: verifyCode_def assert_code_def X25519_PUBKEY_LEN_def)
  have epk: "client_fetchEpk ?fetch base c s1 = (Inr pk, s1)"
    using assms by (simp add: client_fetchEpk_def fetch_op_def code_urls served_epk fetch_rendezvous_def
        get_rendezvous_def assert_code_matches response_ok_def answer_def arrayBuffer_def del: js_Cons)
  have "blob \<noteq> []" using assms(10) by (auto simp: encodeShareBlob_def share_fail_def split: if_splits)
  then obtain s2 where up: "upload_blob wall1 t1 c blob s1 = (answer 204 [], s2)" "st_blobs s2 c = Some (blob, expires)"
    using assms by (auto simp: upload_blob_def assert_code_matches get_rendezvous_def MAX_BLOB_BYTES_def
        put_blob_def sweep_def retain_unexpired_def max_def)
  then have "client_uploadBlob ?fetch base c blob s1 = (Inr (), s2)"
    using assms(1,2,11) by (simp add: client_uploadBlob_def MAX_BLOB_BYTES_def fetch_op_def code_urls served_blob response_ok_def answer_def
        del: js_Cons)
  with up(2) code epk verify assms(9,10) show ?thesis by (simp add: sendShare_def)
qed

lemma downloaded_share:
  assumes "page_allowed app hdrs" and "matches_code c" and "st_blobs s2 c = Some (blob, expires)" and "t2 < expires"
  shows "client_tryDownloadBlob (serve code_of app hdrs base wall2 t2) base c s2 =
    (Inr (Some blob), s2\<lparr>st_blobs := (st_blobs s2)(c := None)\<rparr>)"
  using assms
  by (simp add: client_tryDownloadBlob_def download_request_def fetch_op_def code_urls served_blob download_blob_def
      take_blob_def assert_code_matches download_result_def response_ok_def answer_def arrayBuffer_def
      del: js_Cons)

text \<open>
  C18: a note shared by code arrives. On a page whose origin the backend allows, every request passing the
  origin check and the router: when the recipient's rendezvous was minted, the sender types its
  code in any grouping and case before it expires, and the sealed note fits the backend's limit, then
  sending succeeds; the recipient's next download before expiry yields a note with exactly the title and
  body that were sent, the key handle is freed, and the backend has forgotten the blob.
\<close>

theorem share_end_to_end:
  assumes "commitment_crates blake3 base32_encode" and "code_of = code_for_pubkey blake3 base32_encode"
    and "share_crypto pubkey sealShare openShare"
    and "prepareReceive True (serve code_of app hdrs base wall0 t0) base pubkey (Some h) s0 = (Inr session, s1, freed)"
    and "t0 + 300 < 2 ^ 53" and "st_blobs s1 (rs_code session) = None"
    and "typed_as (rs_code session) raw" and "length (encodeSharedNote n) + 61 \<le> 65536"
    and "t1 < t0 + 300" and "t2 < t0 + 300" and "page_allowed app hdrs"
  shows "\<exists>s2 download s3 plaintext.
    sendShare True (serve code_of app hdrs base wall1 t1) base code_of sealShare raw (encodeSharedNote n) s1 = (Inr (), s2) \<and>
    client_tryDownloadBlob (serve code_of app hdrs base wall2 t2) base (rs_code session) s2 = (download, s3) \<and>
    st_blobs s3 (rs_code session) = None \<and>
    pollAndDecrypt openShare session start timeoutMs
      [\<lparr>pr_aborted = False, pr_download = download, pr_now = clock, pr_sleep_aborted = False\<rparr>] = (Some (Inr plaintext), True) \<and>
    decodeSharedNote plaintext = Inr n"
proof -
  let ?pt = "encodeSharedNote n" and ?c = "rs_code session"
  have key: "length (pubkey h) = 32" using assms(3) by (simp add: share_crypto_def)
  note session = minted_session [OF assms(1,2,5,11) key assms(4)]
  obtain parts where parts: "sealShare (pubkey h) ?pt = Some parts" "blob_ok parts"
      "length (bp_ciphertext parts) = length ?pt + 16" "openShare h parts = Some ?pt"
    using assms(3) unfolding share_crypto_def by blast
  obtain blob where blob: "encodeShareBlob parts = Inr blob" using blob_encode_ok [OF parts(2)] by blast
  then have "length blob \<le> 65536"
    using parts(2,3) assms(8) by (auto simp: encodeShareBlob_def blob_ok_def share_lengths)
  then obtain s2 where sent: "st_blobs s2 ?c = Some (blob, t0 + 300)"
      "sendShare True (serve code_of app hdrs base wall1 t1) base code_of sealShare raw ?pt s1 = (Inr (), s2)"
    using sent_share [OF assms(11), of ?c raw code_of "pubkey h" s1 "t0 + 300" t1 sealShare ?pt parts blob] session assms(6,7,9) key
      parts(1) blob by fastforce
  have "openSealedBlob openShare (rs_handle session) blob = Inr ?pt"
    using blob_encoded_decodes [OF blob] parts(4) session(2)
    by (simp add: openSealedBlob_def lift_share_def)
  then show ?thesis
    using sent downloaded_share [OF assms(11) session(5) sent(1) assms(10)] shared_note_round_trip
    by (simp add: pollAndDecrypt_def Let_def)
qed

text \<open>A sample instance: a constant digest, and sealing that appends sixteen bytes.\<close>

definition sample_seal :: "bytes \<Rightarrow> bytes \<Rightarrow> share_blob_parts option" where
  "sample_seal pk pt =
     Some \<lparr>bp_senderPubkey = replicate 32 1, bp_nonce = replicate 12 2, bp_ciphertext = pt @ replicate 16 0\<rparr>"

definition sample_open :: "unit \<Rightarrow> share_blob_parts \<Rightarrow> bytes option" where
  "sample_open h parts = Some (take (length (bp_ciphertext parts) - 16) (bp_ciphertext parts))"

definition empty_store :: rendezvous_store where
  "empty_store = \<lparr>st_records = (\<lambda>_. None), st_blobs = (\<lambda>_. None), st_counters = (\<lambda>_. None)\<rparr>"

lemma sample_crates:
  "commitment_crates (\<lambda>_. replicate 32 0) (\<lambda>x. replicate ((length x * 8 + 4) div 5) 48)"
  by (simp add: commitment_crates_def list_all_iff code_char_unat)

definition sample_hdrs :: page_headers where
  "sample_hdrs = [(''origin'', Some ''https://notes.example'')]"

lemma sample_page: "page_allowed sample_app sample_hdrs" "page_ip sample_app sample_hdrs = ''unknown''"
  by (simp_all add: page_allowed_def page_ip_def client_ip_def header_str_def sample_hdrs_def sample_app_simps
      origin_is_allowed_def UNKNOWN_CLIENT_BUCKET_def)

lemma sample_mint:
  "\<exists>session s1. prepareReceive True (serve sample_code_of sample_app sample_hdrs [] 0 0) [] (\<lambda>_. replicate 32 7) (Some ()) empty_store =
     (Inr session, s1, False) \<and> st_blobs s1 = (\<lambda>_. None)"
proof -
  have c: "matches_code (sample_code_of (replicate 32 7))"
    unfolding sample_code_of_def by (rule code_for_pubkey_matches [OF sample_crates])
  let ?s1 = "empty_store\<lparr>st_counters := [''unknown'' \<mapsto> (1, 300)],
    st_records := [sample_code_of (replicate 32 7) \<mapsto> (replicate 32 7, 300)]\<rparr>"
  have "mint_rendezvous sample_code_of ''unknown'' 0 0 (replicate 32 7) empty_store =
      (answer 200 (encode_mint_response (sample_code_of (replicate 32 7)) 300), ?s1)"
    by (simp add: mint_rendezvous_def increment_mint_counter_def sweep_def retain_unexpired_def empty_store_def
        put_rendezvous_def RENDEZVOUS_TTL_SECONDS_def MINT_RATE_LIMIT_def X25519_PUBKEY_LEN_def Let_def fun_eq_iff)
  then show ?thesis
    using served_mint [OF sample_page(1), of "replicate 32 7" sample_code_of "[]" 0 0 empty_store] backend_mint_response [OF c, of 300]
    by (simp add: prepareReceive_def client_mint_def fetch_op_def response_ok_def answer_def arrayBuffer_def
        networkSafe_def lift_share_def empty_store_def sample_page MAX_BLOB_BYTES_def del: js_Cons)
qed

theorem share_end_to_end_witness:
  "\<exists>session s1 s2 download s3 plaintext.
     sendShare True (serve sample_code_of sample_app sample_hdrs [] 1 1) [] sample_code_of sample_seal
       (rs_code session) (encodeSharedNote \<lparr>sn_title = [], sn_body = []\<rparr>) s1 = (Inr (), s2) \<and>
     client_tryDownloadBlob (serve sample_code_of sample_app sample_hdrs [] 2 2) [] (rs_code session) s2 = (download, s3) \<and>
     pollAndDecrypt sample_open session 0 None
       [\<lparr>pr_aborted = False, pr_download = download, pr_now = 0, pr_sleep_aborted = False\<rparr>] = (Some (Inr plaintext), True) \<and>
     decodeSharedNote plaintext = Inr \<lparr>sn_title = [], sn_body = []\<rparr>"
proof -
  let ?n = "\<lparr>sn_title = [], sn_body = []\<rparr>" and ?pk = "\<lambda>_ :: unit. replicate 32 7 :: bytes"
  obtain session s1 where mint: "prepareReceive True (serve sample_code_of sample_app sample_hdrs [] 0 0) [] ?pk (Some ()) empty_store =
      (Inr session, s1, False)" and blobs: "st_blobs s1 (rs_code session) = None"
    using sample_mint by auto
  have "share_crypto ?pk sample_seal sample_open"
    by (simp add: share_crypto_def sample_seal_def sample_open_def blob_ok_def)
  moreover have "typed_as (rs_code session) (rs_code session)"
    using minted_session(5) [OF sample_crates sample_code_of_def _ sample_page(1) _ mint] by (intro typed_plain) simp
  moreover have "length (encodeSharedNote ?n) + 61 \<le> 65536"
  proof -
    have "\<forall>c \<in> set (shared_note_json ?n). unat c < 0x80"
      by (simp add: shared_note_json_def QuoteJSONString_def js_def high_surrogate_def low_surrogate_def quote_unit_def)
    then have "encodeSharedNote ?n = map ucast (shared_note_json ?n)"
      by (simp add: encodeSharedNote_def text_encode_ascii)
    then show ?thesis
      by (simp add: shared_note_json_def QuoteJSONString_def js_def high_surrogate_def low_surrogate_def quote_unit_def)
  qed
  ultimately show ?thesis
    using share_end_to_end [OF sample_crates sample_code_of_def _ mint _ blobs, of sample_seal sample_open
        "rs_code session" ?n 1 2 1 2 0 None 0] sample_page(1) by fastforce
qed

end
