(* ===== verification/Credential_Store.thy ===== *)
theory Credential_Store
  imports Base64url Json
begin

text \<open>
  The persisted vault credential (\<open>packages/auth/src/credential-store.ts\<close> and \<open>types.ts\<close>). The vault file is
  its text: \<open>JSON.stringify\<close> always writes well-formed text, which UTF-8 carries unchanged. Every call of
  the file system may fail, as an oracle says; a \<open>NotFoundError\<close> is the absence of the file. Of a number
  the model keeps the value of an integer literal and the text of any other; the program only stores
  and returns it.
\<close>

section \<open>Serialisation\<close>

datatype created_at = Millis nat | OtherNumber jsstring

record vault_credential =
  vc_credentialId :: bytes
  vc_prfSalt :: bytes
  vc_wrappedDek :: bytes
  vc_wrapNonce :: bytes
  vc_rpId :: jsstring
  vc_createdAt :: created_at

definition json_field :: "string \<Rightarrow> jsstring \<Rightarrow> jsstring" where
  "json_field key text = QuoteJSONString (js key) @ 58 # text"

definition show_created :: "created_at \<Rightarrow> jsstring" where
  "show_created t = (case t of Millis n \<Rightarrow> show_nat n | OtherNumber text \<Rightarrow> text)"

text \<open>\<open>JSON.stringify(serialize(c))\<close>. Encoding bytes does not fail (\<open>b64url.enc_total\<close>).\<close>

definition b64_text :: "bytes \<Rightarrow> jsstring" where
  "b64_text bs = (case bytesToBase64Url bs of Inr s \<Rightarrow> s | Inl _ \<Rightarrow> [])"

definition serialize :: "vault_credential \<Rightarrow> jsstring" where
  "serialize c =
     123 # json_field ''credentialId'' (QuoteJSONString (b64_text (vc_credentialId c))) @
     44 # json_field ''prfSalt'' (QuoteJSONString (b64_text (vc_prfSalt c))) @
     44 # json_field ''wrappedDek'' (QuoteJSONString (b64_text (vc_wrappedDek c))) @
     44 # json_field ''wrapNonce'' (QuoteJSONString (b64_text (vc_wrapNonce c))) @
     44 # json_field ''rpId'' (QuoteJSONString (vc_rpId c)) @
     44 # json_field ''createdAt'' (show_created (vc_createdAt c) @ [125])"

text \<open>The property reads of \<open>deserialize\<close>; reading a property of \<open>null\<close> throws.\<close>

fun json_property :: "string \<Rightarrow> json \<Rightarrow> json option" where
  "json_property k (JObject ms) = map_of (rev ms) (js k)"
| "json_property k v = None"

definition number_value :: "jsstring \<Rightarrow> created_at" where
  "number_value s = (if s \<noteq> [] \<and> list_all is_digit s then Millis (horner 10 (map digit_value s)) else OtherNumber s)"

definition fields_of :: "json \<Rightarrow> (jsstring \<times> jsstring \<times> jsstring \<times> jsstring \<times> jsstring \<times> jsstring) option" where
  "fields_of obj =
     (case (json_property ''credentialId'' obj, json_property ''prfSalt'' obj, json_property ''wrappedDek'' obj,
            json_property ''wrapNonce'' obj, json_property ''rpId'' obj, json_property ''createdAt'' obj) of
        (Some (JString a), Some (JString b), Some (JString c), Some (JString d), Some (JString e), Some (JNumber n)) \<Rightarrow>
          Some (a, b, c, d, e, n)
      | _ \<Rightarrow> None)"

datatype store_error = StoreUnavailable | FileError | PropertyOfNullError

definition deserialize :: "jsstring \<Rightarrow> store_error + vault_credential option" where
  "deserialize raw =
     (case JSON_parse raw of
        None \<Rightarrow> Inr None
      | Some JNull \<Rightarrow> Inl PropertyOfNullError
      | Some obj \<Rightarrow>
          (case fields_of obj of
             None \<Rightarrow> Inr None
           | Some (a, b, c, d, e, n) \<Rightarrow>
               (case (base64UrlToBytes a, base64UrlToBytes b, base64UrlToBytes c, base64UrlToBytes d) of
                  (Inr a', Inr b', Inr c', Inr d') \<Rightarrow>
                    Inr (Some \<lparr>vc_credentialId = a', vc_prfSalt = b', vc_wrappedDek = c', vc_wrapNonce = d',
                      vc_rpId = e, vc_createdAt = number_value n\<rparr>)
                | _ \<Rightarrow> Inr None)))"

section \<open>The vault file\<close>

datatype opfs_call = GetDirectory | GetFileHandle | GetFile | CreateWritable | WriteText | CloseStream | RemoveEntry

type_synonym vault_file = "jsstring option"

definition opfsRoot :: "(opfs_call \<Rightarrow> bool) \<Rightarrow> store_error + unit" where
  "opfsRoot fails = (if fails GetDirectory then Inl StoreUnavailable else Inr ())"

definition readVaultFile :: "(opfs_call \<Rightarrow> bool) \<Rightarrow> vault_file \<Rightarrow> store_error + vault_credential option" where
  "readVaultFile fails file =
     bind_result (opfsRoot fails) (\<lambda>_.
       if fails GetFileHandle then Inl FileError
       else case file of
         None \<Rightarrow> Inr None
       | Some text \<Rightarrow> if fails GetFile then Inl FileError else deserialize text)"

text \<open>
  \<open>getFileHandle\<close> with \<open>create\<close> makes an empty file. The stream writes to a swap file, which closing
  commits; the abort after a failed write discards it.
\<close>

definition writeVaultFile :: "(opfs_call \<Rightarrow> bool) \<Rightarrow> vault_credential \<Rightarrow> vault_file \<Rightarrow> (store_error + unit) \<times> vault_file" where
  "writeVaultFile fails c file =
     (case opfsRoot fails of
        Inl e \<Rightarrow> (Inl e, file)
      | Inr _ \<Rightarrow>
          if fails GetFileHandle then (Inl FileError, file)
          else
            let created = (case file of None \<Rightarrow> Some [] | Some text \<Rightarrow> Some text)
            in if fails CreateWritable then (Inl FileError, created)
               else if fails WriteText then (Inl FileError, created)
               else if fails CloseStream then (Inl FileError, created)
               else (Inr (), Some (serialize c)))"

definition deleteVaultFile :: "(opfs_call \<Rightarrow> bool) \<Rightarrow> vault_file \<Rightarrow> (store_error + unit) \<times> vault_file" where
  "deleteVaultFile fails file =
     (case opfsRoot fails of
        Inl e \<Rightarrow> (Inl e, file)
      | Inr _ \<Rightarrow>
          (case file of
             None \<Rightarrow> (if fails RemoveEntry then Inl FileError else Inr (), None)
           | Some text \<Rightarrow> if fails RemoveEntry then (Inl FileError, file) else (Inr (), None)))"

section \<open>Reading back what was written\<close>

lemma b64_text: "base64UrlToBytes (b64_text bs) = Inr bs"
  using b64url.enc_total [of bs] b64url.dec_enc [of bs] by (auto simp: b64_text_def)

lemma number_value_show: "number_value (show_nat n) = Millis n"
  by (simp add: number_value_def list_all_iff show_nat_digits digit_values_show_nat horner_decimal_digits)

lemma json_value_serialize:
  assumes "vc_createdAt c = Millis t"
  shows "json_value (Suc (Suc (Suc (Suc (Suc (Suc (Suc (Suc 0)))))))) (serialize c) =
     Some (JObject [(js ''credentialId'', JString (b64_text (vc_credentialId c))), (js ''prfSalt'', JString (b64_text (vc_prfSalt c))),
       (js ''wrappedDek'', JString (b64_text (vc_wrappedDek c))), (js ''wrapNonce'', JString (b64_text (vc_wrapNonce c))),
       (js ''rpId'', JString (vc_rpId c)), (js ''createdAt'', JNumber (show_nat t))], [])"
  using assms json_value_show [of _ t "[]"] unfolding serialize_def json_field_def
  by (simp add: json_value_brace json_members_quote json_value_quote show_created_def json_space_def put_def
      del: json_value.simps json_members.simps js_Cons)

lemma deserialize_serialize:
  assumes "vc_createdAt c = Millis t"
  shows "deserialize (serialize c) = Inr (Some c)"
proof -
  have keys: "distinct [js ''credentialId'', js ''prfSalt'', js ''wrappedDek'', js ''wrapNonce'', js ''rpId'', js ''createdAt'']"
    by (simp add: js_def)
  then show ?thesis
    using json_value_enough [OF json_value_serialize [OF assms]] assms
    by (auto simp: deserialize_def JSON_parse_def fields_of_def b64_text number_value_show simp del: js_Cons)
qed

lemma deserialize_empty: "deserialize [] = Inr None"
  by (simp add: deserialize_def JSON_parse_def)

definition no_faults :: "opfs_call \<Rightarrow> bool" where
  "no_faults = (\<lambda>_. False)"

lemma written_is_read:
  "vc_createdAt c = Millis t \<Longrightarrow> writeVaultFile fails c file = (Inr (), file') \<Longrightarrow>
     readVaultFile no_faults file' = Inr (Some c)"
  by (auto simp: writeVaultFile_def readVaultFile_def opfsRoot_def no_faults_def deserialize_serialize Let_def
      split: if_splits)

text \<open>
  C28: the vault file is replaced whole or not at all. Whichever calls of the file system fail: when
  \<open>set\<close> succeeds, \<open>get\<close> returns exactly the credential that was stored; when it fails, \<open>get\<close> returns what
  it returned before, so a failed write never damages an existing vault; after a successful \<open>clear\<close>
  there is no vault, and a failed one leaves the file as it was.
\<close>

theorem vault_file_atomic:
  assumes "vc_createdAt c = Millis t"
  shows "(\<forall>file'. writeVaultFile fails c file = (Inr (), file') \<longrightarrow> readVaultFile no_faults file' = Inr (Some c)) \<and>
    (\<forall>e file'. writeVaultFile fails c file = (Inl e, file') \<longrightarrow> readVaultFile no_faults file' = readVaultFile no_faults file) \<and>
    (\<forall>file'. deleteVaultFile fails file = (Inr (), file') \<longrightarrow> readVaultFile no_faults file' = Inr None) \<and>
    (\<forall>e file'. deleteVaultFile fails file = (Inl e, file') \<longrightarrow> file' = file)"
  using deserialize_serialize [OF assms] deserialize_empty
  by (auto simp: writeVaultFile_def deleteVaultFile_def readVaultFile_def opfsRoot_def no_faults_def Let_def
      split: if_splits option.splits)

definition sample_credential :: vault_credential where
  "sample_credential = \<lparr>vc_credentialId = [1], vc_prfSalt = [2], vc_wrappedDek = [3], vc_wrapNonce = [4],
     vc_rpId = js ''localhost'', vc_createdAt = Millis 1700000000000\<rparr>"

theorem vault_file_atomic_witness:
  "readVaultFile no_faults (snd (writeVaultFile (\<lambda>call. call = WriteText) sample_credential (Some (serialize sample_credential)))) =
     Inr (Some sample_credential)"
proof -
  have c: "vc_createdAt sample_credential = Millis 1700000000000" by (simp add: sample_credential_def)
  have "writeVaultFile (\<lambda>call. call = WriteText) sample_credential (Some (serialize sample_credential)) =
      (Inl FileError, Some (serialize sample_credential))"
    by (simp add: writeVaultFile_def opfsRoot_def)
  moreover have "writeVaultFile no_faults sample_credential None = (Inr (), Some (serialize sample_credential))"
    by (simp add: writeVaultFile_def opfsRoot_def no_faults_def)
  ultimately show ?thesis using vault_file_atomic [OF c] by (metis snd_conv)
qed

text \<open>A vault file that holds \<open>null\<close> makes reading throw instead of reporting that there is no vault.\<close>

lemma null_file_throws: "readVaultFile no_faults (Some (js ''null'')) = Inl PropertyOfNullError"
proof -
  have "JSON_parse (js ''null'') = Some JNull" by code_simp
  then show ?thesis by (simp add: readVaultFile_def opfsRoot_def no_faults_def deserialize_def del: js_Cons)
qed

end
