(* ===== verification/Ceremony.thy ===== *)
theory Ceremony
  imports Credential_Store
begin

text \<open>
  Enrolling and unlocking a vault (\<open>packages/auth/src/ceremony.ts\<close>), over the wrapping of the data key in
  \<open>crates/core/src/core.rs\<close>. The browser's credential API is a parameter: what \<open>create\<close> and \<open>get\<close> answer to
  their request. The key derivation and AES-GCM are third-party crates and parameters. A vault is
  identified by its data key. Random bytes are arguments.
\<close>

section \<open>The credential API\<close>

datatype attachment = Platform | CrossPlatform

record passkey =
  pk_rawId :: bytes
  pk_attachment :: "attachment option"
  pk_prf :: "bytes option"

datatype ceremony_answer = DomError | OtherError | NoCredential | Credential passkey

record creation_request =
  cr_rpId :: jsstring
  cr_userHandle :: bytes
  cr_userName :: jsstring
  cr_challenge :: bytes
  cr_attachment :: "attachment option"
  cr_prfSalt :: bytes

record assertion_request =
  ar_rpId :: jsstring
  ar_challenge :: bytes
  ar_allow :: bytes
  ar_prfSalt :: bytes

record webauthn =
  wa_create :: "creation_request \<Rightarrow> ceremony_answer"
  wa_get :: "assertion_request \<Rightarrow> ceremony_answer"

datatype auth_error = AuthUnsupported | AuthCeremony | WasmError | VaultError | PlatformError

definition runCeremony :: "ceremony_answer \<Rightarrow> auth_error + passkey option" where
  "runCeremony a =
     (case a of
        DomError \<Rightarrow> Inl AuthCeremony
      | OtherError \<Rightarrow> Inl PlatformError
      | NoCredential \<Rightarrow> Inr None
      | Credential p \<Rightarrow> Inr (Some p))"

definition resolveRpId :: "jsstring option \<Rightarrow> jsstring option \<Rightarrow> auth_error + jsstring" where
  "resolveRpId rpId hostname =
     (case rpId of
        Some r \<Rightarrow> if r \<noteq> [] then Inr r else (case hostname of None \<Rightarrow> Inl AuthCeremony | Some h \<Rightarrow> Inr (if h \<noteq> [] then h else js ''localhost''))
      | None \<Rightarrow> (case hostname of None \<Rightarrow> Inl AuthCeremony | Some h \<Rightarrow> Inr (if h \<noteq> [] then h else js ''localhost'')))"

section \<open>Wrapping the data key\<close>

definition PRF_OUTPUT_LEN :: nat where "PRF_OUTPUT_LEN = 32"
definition KEY_LEN :: nat where "KEY_LEN = 32"
definition NONCE_LEN :: nat where "NONCE_LEN = 12"
definition TAG_LEN :: nat where "TAG_LEN = 16"

record key_crypto =
  kc_derive_kek :: "bytes \<Rightarrow> bytes \<Rightarrow> bytes"
  kc_encrypt :: "bytes \<Rightarrow> bytes \<Rightarrow> bytes \<Rightarrow> bytes"
  kc_decrypt :: "bytes \<Rightarrow> bytes \<Rightarrow> bytes \<Rightarrow> bytes option"

record enroll_result =
  er_vault :: bytes
  er_wrappedDek :: bytes
  er_wrapNonce :: bytes

definition vault_enroll :: "key_crypto \<Rightarrow> bytes \<Rightarrow> bytes \<Rightarrow> bytes \<Rightarrow> bytes \<Rightarrow> auth_error + enroll_result" where
  "vault_enroll kc dek nonce prf_output prf_salt =
     (if length prf_output \<noteq> PRF_OUTPUT_LEN then Inl VaultError
      else Inr \<lparr>er_vault = dek,
        er_wrappedDek = kc_encrypt kc (kc_derive_kek kc prf_output prf_salt) nonce dek,
        er_wrapNonce = nonce\<rparr>)"

definition vault_unlock :: "key_crypto \<Rightarrow> bytes \<Rightarrow> bytes \<Rightarrow> bytes \<Rightarrow> bytes \<Rightarrow> auth_error + bytes" where
  "vault_unlock kc prf_output prf_salt wrapped_dek wrap_nonce =
     (if length prf_output \<noteq> PRF_OUTPUT_LEN then Inl VaultError
      else if length wrap_nonce \<noteq> NONCE_LEN then Inl VaultError
      else if length wrapped_dek \<noteq> KEY_LEN + TAG_LEN then Inl VaultError
      else case kc_decrypt kc (kc_derive_kek kc prf_output prf_salt) wrap_nonce wrapped_dek of
        None \<Rightarrow> Inl VaultError
      | Some dek \<Rightarrow> if length dek = KEY_LEN then Inr dek else Inl VaultError)"

section \<open>Enrolling\<close>

record enroll_options =
  eo_rpId :: "jsstring option"
  eo_userName :: "jsstring option"
  eo_userHandle :: "bytes option"
  eo_attachment :: "attachment option"

record enroll_entropy =
  en_prfSalt :: bytes
  en_userHandle :: bytes
  en_challenge :: bytes
  en_challenge2 :: bytes
  en_dek :: bytes
  en_wrapNonce :: bytes

definition check_attachment :: "attachment option \<Rightarrow> passkey \<Rightarrow> auth_error + unit" where
  "check_attachment requested p =
     (case requested of
        None \<Rightarrow> Inr ()
      | Some a \<Rightarrow>
          (case pk_attachment p of
             None \<Rightarrow> Inl AuthUnsupported
           | Some actual \<Rightarrow> if actual \<noteq> a then Inl AuthUnsupported else Inr ()))"

text \<open>The PRF output, from the creation or from an assertion that follows it.\<close>

definition prf_of_creation :: "webauthn \<Rightarrow> jsstring \<Rightarrow> enroll_entropy \<Rightarrow> passkey \<Rightarrow> auth_error + bytes" where
  "prf_of_creation wa rpId en p =
     (case pk_prf p of
        Some out \<Rightarrow> Inr out
      | None \<Rightarrow>
          bind_result (runCeremony (wa_get wa \<lparr>ar_rpId = rpId, ar_challenge = en_challenge2 en, ar_allow = pk_rawId p,
              ar_prfSalt = en_prfSalt en\<rparr>)) (\<lambda>r.
            case r of
              None \<Rightarrow> Inl AuthCeremony
            | Some a \<Rightarrow> (case pk_prf a of None \<Rightarrow> Inl AuthUnsupported | Some out \<Rightarrow> Inr out)))"

definition enroll ::
    "webauthn option \<Rightarrow> bool \<Rightarrow> key_crypto \<Rightarrow> jsstring option \<Rightarrow> enroll_entropy \<Rightarrow> nat \<Rightarrow> enroll_options \<Rightarrow>
     auth_error + bytes \<times> vault_credential" where
  "enroll credentials wasm kc hostname en now options =
     (case credentials of
        None \<Rightarrow> Inl AuthUnsupported
      | Some wa \<Rightarrow>
          if \<not> wasm then Inl WasmError
          else
            bind_result (resolveRpId (eo_rpId options) hostname) (\<lambda>rpId.
            bind_result (runCeremony (wa_create wa
              \<lparr>cr_rpId = rpId,
               cr_userHandle = (case eo_userHandle options of None \<Rightarrow> en_userHandle en | Some u \<Rightarrow> u),
               cr_userName = (case eo_userName options of None \<Rightarrow> js ''vault'' | Some u \<Rightarrow> u),
               cr_challenge = en_challenge en, cr_attachment = eo_attachment options,
               cr_prfSalt = en_prfSalt en\<rparr>)) (\<lambda>r.
            case r of
              None \<Rightarrow> Inl AuthCeremony
            | Some p \<Rightarrow>
                bind_result (check_attachment (eo_attachment options) p) (\<lambda>_.
                bind_result (prf_of_creation wa rpId en p) (\<lambda>out.
                bind_result (vault_enroll kc (en_dek en) (en_wrapNonce en) out (en_prfSalt en)) (\<lambda>er.
                Inr (er_vault er,
                  \<lparr>vc_credentialId = pk_rawId p, vc_prfSalt = en_prfSalt en, vc_wrappedDek = er_wrappedDek er,
                   vc_wrapNonce = er_wrapNonce er, vc_rpId = rpId, vc_createdAt = Millis now\<rparr>)))))))"

definition unlock :: "webauthn option \<Rightarrow> bool \<Rightarrow> key_crypto \<Rightarrow> bytes \<Rightarrow> vault_credential \<Rightarrow> auth_error + bytes" where
  "unlock credentials wasm kc challenge c =
     (case credentials of
        None \<Rightarrow> Inl AuthUnsupported
      | Some wa \<Rightarrow>
          if \<not> wasm then Inl WasmError
          else
            bind_result (runCeremony (wa_get wa \<lparr>ar_rpId = vc_rpId c, ar_challenge = challenge,
              ar_allow = vc_credentialId c, ar_prfSalt = vc_prfSalt c\<rparr>)) (\<lambda>r.
            case r of
              None \<Rightarrow> Inl AuthCeremony
            | Some p \<Rightarrow>
                (case pk_prf p of
                   None \<Rightarrow> Inl AuthUnsupported
                 | Some out \<Rightarrow> vault_unlock kc out (vc_prfSalt c) (vc_wrappedDek c) (vc_wrapNonce c))))"

section \<open>Enrolled, stored, loaded, unlocked\<close>

text \<open>
  What the platform promises: the PRF of a credential is a function of the credential and the salt, and
  AES-GCM decrypts what it encrypted under the same key and nonce, adding a tag of sixteen bytes.
\<close>

definition prf_authenticator :: "(bytes \<Rightarrow> bytes \<Rightarrow> bytes) \<Rightarrow> webauthn \<Rightarrow> bool" where
  "prf_authenticator prf wa \<longleftrightarrow>
     (\<forall>q p out. wa_create wa q = Credential p \<and> pk_prf p = Some out \<longrightarrow> out = prf (pk_rawId p) (cr_prfSalt q)) \<and>
     (\<forall>q p out. wa_get wa q = Credential p \<and> pk_prf p = Some out \<longrightarrow> out = prf (ar_allow q) (ar_prfSalt q))"

definition aead_wrap :: "key_crypto \<Rightarrow> bool" where
  "aead_wrap kc \<longleftrightarrow> (\<forall>kek nonce dek. length (kc_encrypt kc kek nonce dek) = length dek + 16 \<and>
     kc_decrypt kc kek nonce (kc_encrypt kc kek nonce dek) = Some dek)"

lemma runCeremony_Some: "runCeremony a = Inr (Some p) \<longleftrightarrow> a = Credential p"
  by (cases a) (simp_all add: runCeremony_def)

lemma check_attachment_Inr: "check_attachment req p = Inr () \<longleftrightarrow> (\<forall>a. req = Some a \<longrightarrow> pk_attachment p = Some a)"
  by (auto simp: check_attachment_def split: option.splits)

lemma enroll_steps:
  assumes "enroll (Some wa) wasm kc hostname en now options = Inr (vault, c)"
  obtains rpId q p out er where "wa_create wa q = Credential p" "cr_prfSalt q = en_prfSalt en"
      "check_attachment (eo_attachment options) p = Inr ()" "prf_of_creation wa rpId en p = Inr out"
      "vault_enroll kc (en_dek en) (en_wrapNonce en) out (en_prfSalt en) = Inr er" "vault = er_vault er"
      "c = \<lparr>vc_credentialId = pk_rawId p, vc_prfSalt = en_prfSalt en, vc_wrappedDek = er_wrappedDek er,
        vc_wrapNonce = er_wrapNonce er, vc_rpId = rpId, vc_createdAt = Millis now\<rparr>"
  using assms
  by (auto simp: enroll_def bind_result_eq_Inr_iff runCeremony_Some split: if_splits option.splits)

lemma enroll_facts:
  assumes "enroll (Some wa) wasm kc hostname en now options = Inr (vault, c)"
    and "prf_authenticator prf wa"
  shows "vault = en_dek en" and "vc_createdAt c = Millis now" and "vc_wrapNonce c = en_wrapNonce en"
    and "length (prf (vc_credentialId c) (vc_prfSalt c)) = 32"
    and "vc_wrappedDek c = kc_encrypt kc (kc_derive_kek kc (prf (vc_credentialId c) (vc_prfSalt c)) (vc_prfSalt c))
      (en_wrapNonce en) (en_dek en)"
proof -
  obtain rpId q p out er where steps: "wa_create wa q = Credential p" "cr_prfSalt q = en_prfSalt en"
      "check_attachment (eo_attachment options) p = Inr ()" "prf_of_creation wa rpId en p = Inr out"
      "vault_enroll kc (en_dek en) (en_wrapNonce en) out (en_prfSalt en) = Inr er" "vault = er_vault er"
      "c = \<lparr>vc_credentialId = pk_rawId p, vc_prfSalt = en_prfSalt en, vc_wrappedDek = er_wrappedDek er,
        vc_wrapNonce = er_wrapNonce er, vc_rpId = rpId, vc_createdAt = Millis now\<rparr>"
    by (rule enroll_steps [OF assms(1)])
  have "out = prf (pk_rawId p) (en_prfSalt en)"
    using assms(2) steps(1,2,4) unfolding prf_authenticator_def
    by (auto simp: prf_of_creation_def bind_result_eq_Inr_iff runCeremony_Some split: option.splits)
      (metis assertion_request.select_convs(3,4) creation_request.select_convs(6))+
  with steps show "vault = en_dek en" "vc_createdAt c = Millis now" "vc_wrapNonce c = en_wrapNonce en"
      "length (prf (vc_credentialId c) (vc_prfSalt c)) = 32"
      "vc_wrappedDek c = kc_encrypt kc (kc_derive_kek kc (prf (vc_credentialId c) (vc_prfSalt c)) (vc_prfSalt c))
        (en_wrapNonce en) (en_dek en)"
    by (auto simp: vault_enroll_def PRF_OUTPUT_LEN_def split: if_splits)
qed

lemma enroll_attachment:
  assumes "enroll (Some wa) wasm kc hostname en now options = Inr (vault, c)"
  shows "\<exists>q p. wa_create wa q = Credential p \<and> vc_credentialId c = pk_rawId p \<and>
    (\<forall>a. eo_attachment options = Some a \<longrightarrow> pk_attachment p = Some a)"
  by (rule enroll_steps [OF assms]) (auto simp: check_attachment_Inr)

lemma unlock_enrolled:
  assumes "prf_authenticator prf wa" and "aead_wrap kc" and "length dek = 32" and "length (vc_wrapNonce c) = 12"
    and "length (prf (vc_credentialId c) (vc_prfSalt c)) = 32"
    and "vc_wrappedDek c = kc_encrypt kc (kc_derive_kek kc (prf (vc_credentialId c) (vc_prfSalt c)) (vc_prfSalt c))
      (vc_wrapNonce c) dek"
    and "wa_get wa \<lparr>ar_rpId = vc_rpId c, ar_challenge = challenge, ar_allow = vc_credentialId c, ar_prfSalt = vc_prfSalt c\<rparr> =
      Credential p" and "pk_prf p = Some out"
  shows "unlock (Some wa) True kc challenge c = Inr dek"
proof -
  have "out = prf (vc_credentialId c) (vc_prfSalt c)"
    using assms(1,7,8) unfolding prf_authenticator_def by (metis assertion_request.select_convs(3,4))
  moreover have "length (vc_wrappedDek c) = 48" "kc_decrypt kc (kc_derive_kek kc (prf (vc_credentialId c) (vc_prfSalt c))
      (vc_prfSalt c)) (vc_wrapNonce c) (vc_wrappedDek c) = Some dek"
    using assms(2,3,6) by (simp_all add: aead_wrap_def)
  ultimately show ?thesis
    using assms(3-8)
    by (simp add: unlock_def runCeremony_def vault_unlock_def PRF_OUTPUT_LEN_def NONCE_LEN_def KEY_LEN_def TAG_LEN_def)
qed

text \<open>
  C7: an enrolled vault can be opened again. Enrolling succeeds only with a passkey of the requested
  attachment, failing closed when the browser does not report one. When the credential it returned has
  been written to the vault file, a later session reads the same credential back, and unlocking with any
  authenticator that answers for that passkey yields the very vault that was enrolled.
\<close>

theorem enroll_then_unlock:
  assumes "enroll (Some wa) True kc hostname en now options = Inr (vault, c)"
    and "prf_authenticator prf wa" and "prf_authenticator prf later" and "aead_wrap kc"
    and "length (en_dek en) = 32" and "length (en_wrapNonce en) = 12"
    and "writeVaultFile fails c file = (Inr (), file')"
    and "wa_get later \<lparr>ar_rpId = vc_rpId c, ar_challenge = challenge, ar_allow = vc_credentialId c,
      ar_prfSalt = vc_prfSalt c\<rparr> = Credential p" and "pk_prf p = Some out"
  shows "(\<exists>q created. wa_create wa q = Credential created \<and> vc_credentialId c = pk_rawId created \<and>
      (\<forall>a. eo_attachment options = Some a \<longrightarrow> pk_attachment created = Some a)) \<and>
    (\<exists>c'. readVaultFile no_faults file' = Inr (Some c') \<and> unlock (Some later) True kc challenge c' = Inr vault)"
proof -
  note facts = enroll_facts [OF assms(1,2)]
  have "readVaultFile no_faults file' = Inr (Some c)"
    using written_is_read [OF facts(2) assms(7)] .
  moreover have "unlock (Some later) True kc challenge c = Inr vault"
    using unlock_enrolled [OF assms(3,4), of vault c] assms(5,6,8,9) facts by simp
  ultimately show ?thesis using enroll_attachment [OF assms(1)] by blast
qed

definition sample_crypto :: key_crypto where
  "sample_crypto = \<lparr>kc_derive_kek = (\<lambda>out salt. out), kc_encrypt = (\<lambda>kek nonce dek. dek @ replicate 16 0),
     kc_decrypt = (\<lambda>kek nonce w. Some (take (length w - 16) w))\<rparr>"

definition sample_webauthn :: webauthn where
  "sample_webauthn =
     \<lparr>wa_create = (\<lambda>q. Credential \<lparr>pk_rawId = [1], pk_attachment = Some Platform, pk_prf = None\<rparr>),
      wa_get = (\<lambda>q. Credential \<lparr>pk_rawId = ar_allow q, pk_attachment = None, pk_prf = Some (replicate 32 9)\<rparr>)\<rparr>"

definition sample_enroll_entropy :: enroll_entropy where
  "sample_enroll_entropy = \<lparr>en_prfSalt = [2], en_userHandle = [], en_challenge = [], en_challenge2 = [],
     en_dek = replicate 32 5, en_wrapNonce = replicate 12 6\<rparr>"

theorem enroll_then_unlock_witness:
  "\<exists>c file' c'. enroll (Some sample_webauthn) True sample_crypto (Some []) sample_enroll_entropy 0
       \<lparr>eo_rpId = None, eo_userName = None, eo_userHandle = None, eo_attachment = Some Platform\<rparr> = Inr (replicate 32 5, c) \<and>
     writeVaultFile no_faults c None = (Inr (), file') \<and>
     readVaultFile no_faults file' = Inr (Some c') \<and>
     unlock (Some sample_webauthn) True sample_crypto [] c' = Inr (replicate 32 5)"
proof -
  let ?o = "\<lparr>eo_rpId = None, eo_userName = None, eo_userHandle = None, eo_attachment = Some Platform\<rparr>"
  let ?c = "\<lparr>vc_credentialId = [1], vc_prfSalt = [2], vc_wrappedDek = replicate 32 5 @ replicate 16 0,
    vc_wrapNonce = replicate 12 6, vc_rpId = js ''localhost'', vc_createdAt = Millis 0\<rparr>"
  have enrolled: "enroll (Some sample_webauthn) True sample_crypto (Some []) sample_enroll_entropy 0 ?o =
      Inr (replicate 32 5, ?c)"
    by (simp add: enroll_def resolveRpId_def sample_webauthn_def sample_crypto_def sample_enroll_entropy_def
        runCeremony_def check_attachment_def prf_of_creation_def vault_enroll_def PRF_OUTPUT_LEN_def)
  have same: "prf_authenticator (\<lambda>_ _. replicate 32 9) sample_webauthn"
    by (auto simp: prf_authenticator_def sample_webauthn_def)
  have "aead_wrap sample_crypto" by (simp add: aead_wrap_def sample_crypto_def)
  moreover have "writeVaultFile no_faults ?c None = (Inr (), Some (serialize ?c))"
    by (simp add: writeVaultFile_def opfsRoot_def no_faults_def)
  moreover have "length (en_dek sample_enroll_entropy) = 32" "length (en_wrapNonce sample_enroll_entropy) = 12"
    by (simp_all add: sample_enroll_entropy_def)
  ultimately show ?thesis
    using enroll_then_unlock [OF enrolled same same, of no_faults None "Some (serialize ?c)" "[]"
        "\<lparr>pk_rawId = [1], pk_attachment = None, pk_prf = Some (replicate 32 9)\<rparr>" "replicate 32 9"] enrolled
    by (fastforce simp: sample_webauthn_def)
qed

end
