(* ===== verification/Idle_Lock.thy ===== *)
theory Idle_Lock
  imports Prelude
begin

text \<open>
  Locking an idle vault across tabs: \<open>IdleLockCoordinator\<close>
  (\<open>apps/web/src/app/idle-lock-coordinator.ts\<close>) and the hook that wires it to the page
  (\<open>use-idle-vault-lock.ts\<close>). The clock is an argument, in milliseconds. An operation returns the new
  state, the messages it publishes and whether it calls \<open>onLock\<close>. The tabs of an origin share a channel
  that delivers a message at once to every other tab.
\<close>

section \<open>The coordinator\<close>

datatype vault_message = VaultHeartbeat | VaultLocked

definition HEARTBEAT_INTERVAL_MS :: int where "HEARTBEAT_INTERVAL_MS = 30000"
definition IDLE_MS_DEFAULT :: int where "IDLE_MS_DEFAULT = 5 * 60 * 1000"

record coordinator =
  co_idleMs :: int
  co_interval :: int
  co_lastActivity :: int
  co_lastHeartbeatSent :: int
  co_locked :: bool

type_synonym co_result = "coordinator \<times> vault_message list \<times> bool"

definition co_new :: "int option \<Rightarrow> int option \<Rightarrow> int \<Rightarrow> coordinator" where
  "co_new idleMs interval now =
     \<lparr>co_idleMs = (case idleMs of None \<Rightarrow> IDLE_MS_DEFAULT | Some m \<Rightarrow> m),
      co_interval = (case interval of None \<Rightarrow> HEARTBEAT_INTERVAL_MS | Some m \<Rightarrow> m),
      co_lastActivity = now, co_lastHeartbeatSent = 0, co_locked = False\<rparr>"

definition noteActivity :: "int \<Rightarrow> coordinator \<Rightarrow> co_result" where
  "noteActivity now c =
     (if co_locked c then (c, [], False)
      else if now - co_lastHeartbeatSent c \<ge> co_interval c
        then (c\<lparr>co_lastActivity := now, co_lastHeartbeatSent := now\<rparr>, [VaultHeartbeat], False)
        else (c\<lparr>co_lastActivity := now\<rparr>, [], False))"

definition co_receive :: "int \<Rightarrow> vault_message \<Rightarrow> coordinator \<Rightarrow> co_result" where
  "co_receive now msg c =
     (if co_locked c then (c, [], False)
      else if msg = VaultHeartbeat then (c\<lparr>co_lastActivity := now\<rparr>, [], False)
      else (c\<lparr>co_locked := True\<rparr>, [], True))"

definition tick :: "int \<Rightarrow> coordinator \<Rightarrow> co_result" where
  "tick now c =
     (if co_locked c then (c, [], False)
      else if now - co_lastActivity c < co_idleMs c then (c, [], False)
      else (c\<lparr>co_locked := True\<rparr>, [VaultLocked], True))"

section \<open>The hook in one tab\<close>

text \<open>What happens to a mounted hook: an event of the page with the time at which it is handled.\<close>

datatype hook_event = UserEvent int | VisibilityChange bool int | ChannelMessage vault_message int | Interval int

definition hook_mount :: "int option \<Rightarrow> int \<Rightarrow> co_result" where
  "hook_mount idleMs now =
     noteActivity now (co_new (Some (case idleMs of None \<Rightarrow> IDLE_MS_DEFAULT | Some m \<Rightarrow> m)) None now)"

fun hook_handle :: "hook_event \<Rightarrow> coordinator \<Rightarrow> co_result" where
  "hook_handle (UserEvent now) c = noteActivity now c"
| "hook_handle (VisibilityChange visible now) c = (if visible then noteActivity now c else (c, [], False))"
| "hook_handle (ChannelMessage msg now) c = co_receive now msg c"
| "hook_handle (Interval now) c = tick now c"

fun hook_run :: "hook_event list \<Rightarrow> coordinator \<Rightarrow> coordinator \<times> (vault_message list \<times> bool) list" where
  "hook_run [] c = (c, [])"
| "hook_run (e # es) c =
     (case hook_handle e c of (c', out) \<Rightarrow> case hook_run es c' of (c'', outs) \<Rightarrow> (c'', out # outs))"

section \<open>When a tab locks\<close>

text \<open>The reference: the time of the last sign of activity, and the events that lock.\<close>

fun activity_time :: "hook_event \<Rightarrow> int option" where
  "activity_time (UserEvent now) = Some now"
| "activity_time (VisibilityChange visible now) = (if visible then Some now else None)"
| "activity_time (ChannelMessage msg now) = (if msg = VaultHeartbeat then Some now else None)"
| "activity_time (Interval now) = None"

definition last_sign :: "int \<Rightarrow> hook_event list \<Rightarrow> int" where
  "last_sign start es = (case rev (List.map_filter activity_time es) of [] \<Rightarrow> start | t # _ \<Rightarrow> t)"

fun locks_at :: "int \<Rightarrow> int \<Rightarrow> hook_event \<Rightarrow> bool" where
  "locks_at idle sign (ChannelMessage msg now) = (msg = VaultLocked)"
| "locks_at idle sign (Interval now) = (now - sign \<ge> idle)"
| "locks_at idle sign e = False"

lemma last_sign_snoc:
  "last_sign start (es @ [e]) = (case activity_time e of None \<Rightarrow> last_sign start es | Some t \<Rightarrow> t)"
  by (simp add: last_sign_def List.map_filter_def split: option.splits)

lemma last_sign_Cons:
  "last_sign start (e # es) = last_sign (case activity_time e of None \<Rightarrow> start | Some t \<Rightarrow> t) es"
  by (auto simp: last_sign_def List.map_filter_def split: option.splits list.splits)

lemma not_heartbeat: "msg \<noteq> VaultHeartbeat \<longleftrightarrow> msg = VaultLocked"
  by (cases msg) simp_all

lemma handle_unlocked:
  assumes "\<not> co_locked c"
  shows "co_locked (fst (hook_handle e c)) \<longleftrightarrow> locks_at (co_idleMs c) (co_lastActivity c) e"
    and "snd (snd (hook_handle e c)) \<longleftrightarrow> co_locked (fst (hook_handle e c))"
    and "\<not> co_locked (fst (hook_handle e c)) \<Longrightarrow>
      co_lastActivity (fst (hook_handle e c)) = (case activity_time e of None \<Rightarrow> co_lastActivity c | Some t \<Rightarrow> t)"
    and "co_idleMs (fst (hook_handle e c)) = co_idleMs c"
proof -
  note defs = noteActivity_def co_receive_def tick_def not_heartbeat
  show "co_locked (fst (hook_handle e c)) \<longleftrightarrow> locks_at (co_idleMs c) (co_lastActivity c) e"
    using assms by (cases e) (simp_all add: defs not_less)
  show "snd (snd (hook_handle e c)) \<longleftrightarrow> co_locked (fst (hook_handle e c))"
    using assms by (cases e) (simp_all add: defs)
  show "co_idleMs (fst (hook_handle e c)) = co_idleMs c"
    by (cases e) (simp_all add: defs)
  show "\<not> co_locked (fst (hook_handle e c)) \<Longrightarrow>
      co_lastActivity (fst (hook_handle e c)) = (case activity_time e of None \<Rightarrow> co_lastActivity c | Some t \<Rightarrow> t)"
    using assms by (cases e) (simp_all add: defs split: if_splits)
qed

lemma handle_locked: "co_locked c \<Longrightarrow> hook_handle e c = (c, [], False)"
  by (cases e) (simp_all add: noteActivity_def co_receive_def tick_def)

lemma run_locked: "co_locked c \<Longrightarrow> hook_run es c = (c, map (\<lambda>_. ([], False)) es)"
  by (induction es) (simp_all add: handle_locked)

definition locked_by :: "int \<Rightarrow> int \<Rightarrow> hook_event list \<Rightarrow> bool" where
  "locked_by idle start es \<longleftrightarrow> (\<exists>i < length es. locks_at idle (last_sign start (take i es)) (es ! i))"

lemma locked_by_Cons:
  "locked_by idle start (e # es) \<longleftrightarrow>
     locks_at idle start e \<or> locked_by idle (case activity_time e of None \<Rightarrow> start | Some t \<Rightarrow> t) es"
proof -
  have "last_sign start [] = start" by (simp add: last_sign_def)
  then show ?thesis
    unfolding locked_by_def
    by (auto simp: less_Suc_eq_0_disj last_sign_Cons)
qed

lemma hook_run_locks:
  "\<not> co_locked c \<Longrightarrow>
     (co_locked (fst (hook_run es c)) \<longleftrightarrow> locked_by (co_idleMs c) (co_lastActivity c) es) \<and>
     length (filter snd (snd (hook_run es c))) = (if co_locked (fst (hook_run es c)) then 1 else 0)"
proof (induction es arbitrary: c)
  case (Cons e es)
  let ?c = "fst (hook_handle e c)"
  note step = handle_unlocked [OF Cons.prems, of e]
  have silent: "filter snd (map (\<lambda>_. ([], False)) es) = ([] :: (vault_message list \<times> bool) list)"
    by (simp add: filter_empty_conv)
  show ?case
  proof (cases "co_locked ?c")
    case True
    then show ?thesis
      using step(1,2) silent by (simp add: locked_by_Cons run_locked case_prod_unfold)
  next
    case False
    then show ?thesis
      using step Cons.IH [OF False] by (simp add: locked_by_Cons case_prod_unfold)
  qed
qed (simp add: locked_by_def)

section \<open>All tabs\<close>

text \<open>A tab with a mounted hook, and for the proofs the time of the last activity in that tab itself.\<close>

record vault_tab =
  vt_co :: coordinator
  vt_local :: int

record vault_tabs =
  vs_tab :: "nat \<Rightarrow> vault_tab option"
  vs_clock :: int

definition hear :: "int \<Rightarrow> vault_message list \<Rightarrow> vault_tab \<Rightarrow> vault_tab" where
  "hear now msgs v = v\<lparr>vt_co := fold (\<lambda>m c. fst (co_receive now m c)) msgs (vt_co v)\<rparr>"

definition broadcast :: "nat \<Rightarrow> int \<Rightarrow> vault_message list \<Rightarrow> vault_tabs \<Rightarrow> vault_tabs" where
  "broadcast i now msgs s =
     s\<lparr>vs_tab := (\<lambda>j. if j = i then vs_tab s j else map_option (hear now msgs) (vs_tab s j)), vs_clock := now\<rparr>"

text \<open>Tab i takes the new state of a handler, and the others hear what it publishes.\<close>

definition settle_tab :: "nat \<Rightarrow> int \<Rightarrow> int \<Rightarrow> co_result \<Rightarrow> vault_tabs \<Rightarrow> vault_tabs" where
  "settle_tab i now local r s =
     broadcast i now (fst (snd r)) (s\<lparr>vs_tab := (vs_tab s)(i \<mapsto> \<lparr>vt_co = fst r, vt_local = local\<rparr>)\<rparr>)"

inductive vault_step :: "int \<Rightarrow> vault_tabs \<Rightarrow> vault_tabs \<Rightarrow> bool" for idle :: int where
  vs_mount: "vs_tab s i = None \<Longrightarrow> vs_clock s \<le> now \<Longrightarrow> HEARTBEAT_INTERVAL_MS \<le> now \<Longrightarrow>
    vault_step idle s (settle_tab i now now (hook_mount (Some idle) now) s)"
| vs_activity: "vs_tab s i = Some v \<Longrightarrow> vs_clock s \<le> now \<Longrightarrow>
    vault_step idle s (settle_tab i now now (noteActivity now (vt_co v)) s)"
| vs_interval: "vs_tab s i = Some v \<Longrightarrow> vs_clock s \<le> now \<Longrightarrow>
    vault_step idle s (settle_tab i now (vt_local v) (tick now (vt_co v)) s)"
| vs_unmount: "vault_step idle s (s\<lparr>vs_tab := (vs_tab s)(i := None)\<rparr>)"

definition vault_init :: "vault_tabs \<Rightarrow> bool" where
  "vault_init s \<longleftrightarrow> vs_tab s = (\<lambda>_. None)"

definition awake :: "vault_tabs \<Rightarrow> nat \<Rightarrow> vault_tab \<Rightarrow> bool" where
  "awake s i v \<longleftrightarrow> vs_tab s i = Some v \<and> \<not> co_locked (vt_co v)"

definition vault_inv :: "int \<Rightarrow> vault_tabs \<Rightarrow> bool" where
  "vault_inv idle s \<longleftrightarrow>
     (\<forall>i v. awake s i v \<longrightarrow>
        co_interval (vt_co v) = HEARTBEAT_INTERVAL_MS \<and> co_idleMs (vt_co v) = idle \<and>
        vt_local v < co_lastHeartbeatSent (vt_co v) + HEARTBEAT_INTERVAL_MS \<and>
        co_lastHeartbeatSent (vt_co v) \<le> vs_clock s) \<and>
     (\<forall>i j v w. awake s i v \<and> awake s j w \<longrightarrow> co_lastHeartbeatSent (vt_co v) \<le> co_lastActivity (vt_co w))"

lemma hear_simps [simp]:
  "hear now [] v = v"
  "hear now [VaultHeartbeat] v = (if co_locked (vt_co v) then v else v\<lparr>vt_co := (vt_co v)\<lparr>co_lastActivity := now\<rparr>\<rparr>)"
  "hear now [VaultLocked] v = (if co_locked (vt_co v) then v else v\<lparr>vt_co := (vt_co v)\<lparr>co_locked := True\<rparr>\<rparr>)"
  by (simp_all add: hear_def co_receive_def)

lemma settle_tab_other:
  "vs_tab (settle_tab i now l r s) j =
     (if j = i then Some \<lparr>vt_co = fst r, vt_local = l\<rparr> else map_option (hear now (fst (snd r))) (vs_tab s j))"
  by (simp add: settle_tab_def broadcast_def)

lemma settle_tab_clock [simp]: "vs_clock (settle_tab i now l r s) = now"
  by (simp add: settle_tab_def broadcast_def)

lemma silent_inv:
  assumes "vault_inv idle s" and "vs_clock s \<le> now"
    and "\<And>v. vs_tab s i = Some v \<Longrightarrow> \<not> co_locked c \<Longrightarrow> \<not> co_locked (vt_co v) \<and> l < co_lastHeartbeatSent (vt_co v) + HEARTBEAT_INTERVAL_MS \<and>
      (c = vt_co v \<or> c = (vt_co v)\<lparr>co_lastActivity := now\<rparr>)"
    and "vs_tab s i \<noteq> None"
  shows "vault_inv idle (settle_tab i now l (c, [], b) s)"
proof -
  have inv: "awake s j w \<Longrightarrow> co_interval (vt_co w) = HEARTBEAT_INTERVAL_MS \<and> co_idleMs (vt_co w) = idle \<and>
        vt_local w < co_lastHeartbeatSent (vt_co w) + HEARTBEAT_INTERVAL_MS \<and>
        co_lastHeartbeatSent (vt_co w) \<le> now" for j w
    using assms(1,2) unfolding vault_inv_def by force
  have hb: "awake s j v \<Longrightarrow> awake s k w \<Longrightarrow> co_lastHeartbeatSent (vt_co v) \<le> co_lastActivity (vt_co w)" for j k v w
    using assms(1) unfolding vault_inv_def by blast
  have old: "\<exists>v. awake s j v \<and> co_lastHeartbeatSent (vt_co w) = co_lastHeartbeatSent (vt_co v) \<and>
      co_interval (vt_co w) = co_interval (vt_co v) \<and> co_idleMs (vt_co w) = co_idleMs (vt_co v) \<and>
      vt_local w < co_lastHeartbeatSent (vt_co w) + HEARTBEAT_INTERVAL_MS \<and>
      (co_lastActivity (vt_co w) = co_lastActivity (vt_co v) \<or> co_lastActivity (vt_co w) = now)"
    if w: "awake (settle_tab i now l (c, [], b) s) j w" for j w
  proof (cases "j = i")
    case True
    then obtain v where "vs_tab s i = Some v" "w = \<lparr>vt_co = c, vt_local = l\<rparr>" "\<not> co_locked c"
      using w assms(4) by (auto simp: awake_def settle_tab_other)
    with assms(3) True show ?thesis by (fastforce simp: awake_def)
  next
    case False
    then have "awake s j w" using w by (auto simp: awake_def settle_tab_other option.map_ident)
    with inv show ?thesis by blast
  qed
  show ?thesis
    unfolding vault_inv_def settle_tab_clock
    by (metis old inv hb)
qed

lemma heartbeat_inv:
  assumes "vault_inv idle s" and "vs_clock s \<le> now"
    and "co_interval c = HEARTBEAT_INTERVAL_MS" and "co_idleMs c = idle"
    and "co_lastHeartbeatSent c = now" and "co_lastActivity c = now"
  shows "vault_inv idle (settle_tab i now now (c, [VaultHeartbeat], b) s)"
proof -
  have new: "co_interval (vt_co w) = HEARTBEAT_INTERVAL_MS \<and> co_idleMs (vt_co w) = idle \<and>
      vt_local w < co_lastHeartbeatSent (vt_co w) + HEARTBEAT_INTERVAL_MS \<and>
      co_lastHeartbeatSent (vt_co w) \<le> now \<and> co_lastActivity (vt_co w) = now"
    if w: "awake (settle_tab i now now (c, [VaultHeartbeat], b) s) j w" for j w
  proof (cases "j = i")
    case True
    then show ?thesis using w assms(3-6) by (auto simp: awake_def settle_tab_other HEARTBEAT_INTERVAL_MS_def)
  next
    case False
    then obtain v where v: "awake s j v" "w = v\<lparr>vt_co := (vt_co v)\<lparr>co_lastActivity := now\<rparr>\<rparr>"
      using w by (auto simp: awake_def settle_tab_other split: if_splits)
    with assms(1,2) show ?thesis unfolding vault_inv_def by force
  qed
  then show ?thesis unfolding vault_inv_def settle_tab_clock by fastforce
qed

lemma hear_locked: "co_locked (vt_co (hear now [VaultLocked] v))"
  by simp

lemma locked_inv: "vault_inv idle (settle_tab i now l (c, [VaultLocked], b) s)" if "co_locked c"
proof -
  have "\<not> awake (settle_tab i now l (c, [VaultLocked], b) s) j w" for j w
    using that hear_locked by (auto simp: awake_def settle_tab_other simp del: hear_simps split: if_splits)
  then show ?thesis by (simp add: vault_inv_def)
qed

lemma vault_step_inv:
  assumes "vault_step idle s t" and "vault_inv idle s"
  shows "vault_inv idle t"
  using assms
proof (induction rule: vault_step.cases)
  case (vs_mount s i now)
  have "hook_mount (Some idle) now = (\<lparr>co_idleMs = idle, co_interval = HEARTBEAT_INTERVAL_MS, co_lastActivity = now,
      co_lastHeartbeatSent = now, co_locked = False\<rparr>, [VaultHeartbeat], False)"
    using vs_mount(5) by (simp add: hook_mount_def noteActivity_def co_new_def)
  with vs_mount show ?case by (simp add: heartbeat_inv)
next
  case (vs_activity s i v now)
  show ?case
  proof (cases "co_locked (vt_co v) \<or> now - co_lastHeartbeatSent (vt_co v) < co_interval (vt_co v)")
    case True
    have "co_interval (vt_co v) = HEARTBEAT_INTERVAL_MS" if "\<not> co_locked (vt_co v)"
      using vs_activity that by (auto simp: vault_inv_def awake_def)
    with True vs_activity show ?thesis
      by (auto simp: noteActivity_def not_le intro!: silent_inv)
  next
    case False
    then have "awake s i v" using vs_activity by (simp add: awake_def)
    then have "co_interval (vt_co v) = HEARTBEAT_INTERVAL_MS" "co_idleMs (vt_co v) = idle"
      using vs_activity by (auto simp: vault_inv_def)
    with False vs_activity show ?thesis by (auto simp: noteActivity_def intro!: heartbeat_inv)
  qed
next
  case (vs_interval s i v now)
  have "vt_local v < co_lastHeartbeatSent (vt_co v) + HEARTBEAT_INTERVAL_MS" if "\<not> co_locked (vt_co v)"
    using vs_interval that by (auto simp: vault_inv_def awake_def)
  with vs_interval show ?case
    by (auto simp: tick_def intro!: silent_inv locked_inv)
next
  case (vs_unmount s i)
  then show ?case by (auto simp: vault_inv_def awake_def split: if_splits)
qed

interpretation vault_lock: inductive_invariant vault_init "vault_step idle" "vault_inv idle" for idle
proof (unfold_locales, goal_cases)
  case (1 s)
  then show ?case by (simp add: vault_init_def vault_inv_def awake_def)
next
  case (2 s t)
  then show ?case using vault_step_inv by blast
qed

section \<open>Properties\<close>

text \<open>
  C30: when a tab locks. From any unlocked state and for any sequence of page events, a tab ends up locked
  exactly if it received a lock message, or its periodic check came at least the idle time after the last
  sign of activity: a user event, the page becoming visible, or a heartbeat of another tab. It calls
  \<open>onLock\<close> exactly once if it locks and never otherwise.
\<close>

theorem idle_lock_exact:
  assumes "\<not> co_locked c"
  shows "(co_locked (fst (hook_run es c)) \<longleftrightarrow>
      (\<exists>i < length es. locks_at (co_idleMs c) (last_sign (co_lastActivity c) (take i es)) (es ! i))) \<and>
    length (filter snd (snd (hook_run es c))) = (if co_locked (fst (hook_run es c)) then 1 else 0)"
  using hook_run_locks [OF assms] by (simp add: locked_by_def)

theorem idle_lock_exact_witness:
  "co_locked (fst (hook_run [UserEvent 60000, Interval 330000, Interval 360000] (co_new None None 0)))"
proof -
  have c: "\<not> co_locked (co_new None None 0)" by (simp add: co_new_def)
  have "last_sign 0 [UserEvent 60000, Interval 330000] = 60000" by (simp add: last_sign_def List.map_filter_def)
  then have "locks_at 300000 (last_sign 0 (take 2 [UserEvent 60000, Interval 330000, Interval 360000]))
      ([UserEvent 60000, Interval 330000, Interval 360000] ! 2)" by simp
  then show ?thesis
    using idle_lock_exact [OF c, of "[UserEvent 60000, Interval 330000, Interval 360000]"]
    by (auto simp: co_new_def IDLE_MS_DEFAULT_def intro!: exI [of _ 2])
qed

text \<open>
  C29: activity in one tab keeps every tab open. In every reachable state of all tabs, when the periodic
  check of some tab locks it, the last user activity in any unlocked tab is more than the idle time
  minus the heartbeat interval ago, and all tabs are locked in that same step.
\<close>

theorem idle_lock_shared:
  assumes "reach vault_init (vault_step idle) s" and "vs_tab s i = Some v" and "\<not> co_locked (vt_co v)"
    and "vs_tab s j = Some w" and "\<not> co_locked (vt_co w)"
    and "co_locked (fst (tick now (vt_co w)))"
  shows "idle - HEARTBEAT_INTERVAL_MS < now - vt_local v \<and>
    (\<forall>k u. vs_tab (settle_tab j now (vt_local w) (tick now (vt_co w)) s) k = Some u \<longrightarrow> co_locked (vt_co u))"
proof
  have inv: "vault_inv idle s" using assms(1) by (rule vault_lock.reach_inv)
  have awake: "awake s i v" "awake s j w" using assms by (simp_all add: awake_def)
  then have "co_lastHeartbeatSent (vt_co v) \<le> co_lastActivity (vt_co w)" "co_idleMs (vt_co w) = idle"
      "vt_local v < co_lastHeartbeatSent (vt_co v) + HEARTBEAT_INTERVAL_MS"
    using inv unfolding vault_inv_def by blast+
  moreover have "now - co_lastActivity (vt_co w) \<ge> co_idleMs (vt_co w)"
    using assms(5,6) by (auto simp: tick_def split: if_splits)
  ultimately show "idle - HEARTBEAT_INTERVAL_MS < now - vt_local v" by simp
  show "\<forall>k u. vs_tab (settle_tab j now (vt_local w) (tick now (vt_co w)) s) k = Some u \<longrightarrow> co_locked (vt_co u)"
    using assms(5,6) hear_locked
    by (auto simp: tick_def settle_tab_other simp del: hear_simps split: if_splits)
qed

lemma mounted_reach:
  "reach vault_init (vault_step 300000)
     (settle_tab 0 30000 30000 (hook_mount (Some 300000) 30000) \<lparr>vs_tab = (\<lambda>_. None), vs_clock = 0\<rparr>)"
proof -
  let ?s0 = "\<lparr>vs_tab = (\<lambda>_. None), vs_clock = 0\<rparr>"
  have "reach vault_init (vault_step 300000) ?s0" by (rule reach_init) (simp add: vault_init_def)
  moreover have "vault_step 300000 ?s0 (settle_tab 0 30000 30000 (hook_mount (Some 300000) 30000) ?s0)"
    by (rule vs_mount) (simp_all add: HEARTBEAT_INTERVAL_MS_def)
  ultimately show ?thesis by (rule reach_step)
qed

theorem idle_lock_shared_witness:
  "\<exists>v. vs_tab (settle_tab 0 30000 30000 (hook_mount (Some 300000) 30000) \<lparr>vs_tab = (\<lambda>_. None), vs_clock = 0\<rparr>) 0 = Some v \<and>
     co_locked (fst (tick 330000 (vt_co v))) \<and> 300000 - HEARTBEAT_INTERVAL_MS < 330000 - vt_local v"
proof -
  let ?s = "settle_tab 0 30000 30000 (hook_mount (Some 300000) 30000) \<lparr>vs_tab = (\<lambda>_. None), vs_clock = 0\<rparr>"
  let ?v = "\<lparr>vt_co = fst (hook_mount (Some 300000) 30000), vt_local = 30000\<rparr>"
  have v: "vs_tab ?s 0 = Some ?v" by (simp add: settle_tab_other)
  have facts: "\<not> co_locked (vt_co ?v)" "co_locked (fst (tick 330000 (vt_co ?v)))"
    by (simp_all add: hook_mount_def noteActivity_def co_new_def tick_def HEARTBEAT_INTERVAL_MS_def)
  show ?thesis using idle_lock_shared [OF mounted_reach v facts(1) v facts] v facts(2) by blast
qed

end
