(* ===== verification/Service_Worker.thy ===== *)
theory Service_Worker
  imports Js_Text "HOL-Library.List_Lexorder"
begin

text \<open>
  The service worker (\<open>apps/web/public/sw.js\<close>) and the build step that lists what it precaches
  (\<open>apps/web/scripts/build-precache-manifest.mjs\<close>). Cache storage maps a cache's name to its entries by
  URL. The network is a function of the URL that may fail; resolving a relative URL against the worker's
  location and the digest of the manifest are parameters.
\<close>

section \<open>The precache manifest\<close>

datatype fs_entry = Directory jsstring "fs_entry list" | RegularFile jsstring "8 word list" | OtherEntry jsstring

definition EXCLUDE_BASENAMES :: "jsstring set" where
  "EXCLUDE_BASENAMES = {js ''sw.js'', js ''sw-manifest.js'', js ''404.html'', js ''index.txt''}"

definition EXCLUDE_DIR_BASENAMES :: "jsstring set" where
  "EXCLUDE_DIR_BASENAMES = {js ''404''}"

text \<open>\<open>walk\<close>, where \<open>prefix\<close> is the path of the directory relative to the root, with a final slash.\<close>

fun walk :: "jsstring \<Rightarrow> fs_entry list \<Rightarrow> (jsstring \<times> bytes) list"
  and walk_entry :: "jsstring \<Rightarrow> fs_entry \<Rightarrow> (jsstring \<times> bytes) list" where
  "walk path [] = []"
| "walk path (e # es) = walk_entry path e @ walk path es"
| "walk_entry path (Directory name entries) =
     (if name \<in> EXCLUDE_DIR_BASENAMES then [] else walk (path @ name @ [47]) entries)"
| "walk_entry path (RegularFile name content) =
     (if name \<in> EXCLUDE_BASENAMES then []
      else if starts_with (js ''api/'') (path @ name) \<or> js_includes (path @ name) (js ''/api/'') then []
      else [(path @ name, content)])"
| "walk_entry path (OtherEntry name) = []"

record precache =
  pc_version :: jsstring
  pc_urls :: "jsstring list"

definition buildManifest :: "(bytes \<Rightarrow> jsstring) \<Rightarrow> (jsstring \<Rightarrow> bytes) \<Rightarrow> fs_entry list \<Rightarrow> precache" where
  "buildManifest sha256_hex utf8 outDir =
     (let files = sort_key fst (walk [] outDir)
      in \<lparr>pc_version = take 16 (sha256_hex (concat (map (\<lambda>(f, content). utf8 f @ 0 # content @ [0]) files))),
          pc_urls = map (\<lambda>(f, content). js ''./'' @ f) files\<rparr>)"

section \<open>Cache storage\<close>

record sw_response =
  rs_status :: nat
  rs_body :: bytes

type_synonym sw_cache = "jsstring \<rightharpoonup> sw_response"
type_synonym cache_storage = "jsstring \<rightharpoonup> sw_cache"
type_synonym network = "jsstring \<Rightarrow> sw_response option"

definition rs_ok :: "sw_response \<Rightarrow> bool" where
  "rs_ok r \<longleftrightarrow> 200 \<le> rs_status r \<and> rs_status r \<le> 299"

definition dev_precache :: precache where
  "dev_precache = \<lparr>pc_version = js ''dev'', pc_urls = []\<rparr>"

definition CACHE_PREFIX :: jsstring where "CACHE_PREFIX = js ''opfs-shell-''"
definition CACHE_NAME :: "precache \<Rightarrow> jsstring" where "CACHE_NAME pc = CACHE_PREFIX @ pc_version pc"
definition SHELL_URL :: jsstring where "SHELL_URL = js ''./index.html''"

definition caches_open :: "jsstring \<Rightarrow> cache_storage \<Rightarrow> cache_storage" where
  "caches_open name st = (case st name of None \<Rightarrow> st(name \<mapsto> Map.empty) | Some _ \<Rightarrow> st)"

definition cache_match :: "jsstring \<Rightarrow> jsstring \<Rightarrow> cache_storage \<Rightarrow> sw_response option" where
  "cache_match name url st = (case st name of None \<Rightarrow> None | Some c \<Rightarrow> c url)"

definition cache_put :: "jsstring \<Rightarrow> jsstring \<Rightarrow> sw_response \<Rightarrow> cache_storage \<Rightarrow> cache_storage" where
  "cache_put name url r st = (case st name of None \<Rightarrow> st | Some c \<Rightarrow> st(name \<mapsto> c(url \<mapsto> r)))"

text \<open>\<open>cache.addAll\<close>: all responses are fetched and must be successful before any is put.\<close>

definition add_all :: "jsstring \<Rightarrow> jsstring list \<Rightarrow> network \<Rightarrow> cache_storage \<Rightarrow> bool \<times> cache_storage" where
  "add_all name urls net st =
     (if \<forall>u \<in> set urls. \<exists>r. net u = Some r \<and> rs_ok r
      then (True, fold (\<lambda>u st. case net u of None \<Rightarrow> st | Some r \<Rightarrow> cache_put name u r st) urls st)
      else (False, st))"

definition sw_install :: "precache \<Rightarrow> (jsstring \<Rightarrow> jsstring) \<Rightarrow> network \<Rightarrow> cache_storage \<Rightarrow> bool \<times> cache_storage" where
  "sw_install pc resolve net st =
     add_all (CACHE_NAME pc) (map resolve (pc_urls pc)) net (caches_open (CACHE_NAME pc) st)"

definition sw_activate :: "precache \<Rightarrow> cache_storage \<Rightarrow> cache_storage" where
  "sw_activate pc st =
     (\<lambda>k. if starts_with CACHE_PREFIX k \<and> k \<noteq> CACHE_NAME pc then None else st k)"

section \<open>Fetch events\<close>

record sw_request =
  rq_get :: bool
  rq_sameOrigin :: bool
  rq_pathname :: jsstring
  rq_url :: jsstring
  rq_navigate :: bool

datatype sw_outcome = PassThrough | Respond sw_response | FetchRejected

definition ends_with :: "jsstring \<Rightarrow> jsstring \<Rightarrow> bool" where
  "ends_with p s = starts_with (rev p) (rev s)"

definition isRuntimeConfig :: "jsstring \<Rightarrow> bool" where
  "isRuntimeConfig pathname \<longleftrightarrow> pathname = js ''/config.js'' \<or> ends_with (js ''/config.js'') pathname"

definition offline_response :: sw_response where
  "offline_response = \<lparr>rs_status = 503, rs_body = map ucast (js ''Offline'')\<rparr>"

definition navigationStrategy ::
    "precache \<Rightarrow> (jsstring \<Rightarrow> jsstring) \<Rightarrow> network \<Rightarrow> sw_request \<Rightarrow> cache_storage \<Rightarrow> sw_outcome \<times> cache_storage" where
  "navigationStrategy pc resolve net request st =
     (let st1 = caches_open (CACHE_NAME pc) st; shell = cache_match (CACHE_NAME pc) (resolve SHELL_URL) st1
      in (case net (rq_url request) of
            Some response \<Rightarrow>
              if rs_ok response \<or> rs_status response = 404 then Respond response
              else (case shell of Some s \<Rightarrow> Respond s | None \<Rightarrow> Respond response)
          | None \<Rightarrow> (case shell of Some s \<Rightarrow> Respond s | None \<Rightarrow> Respond offline_response),
          st1))"

text \<open>\<open>quota\<close> tells whether the put into the cache succeeds.\<close>

definition cacheFirst :: "precache \<Rightarrow> network \<Rightarrow> bool \<Rightarrow> sw_request \<Rightarrow> cache_storage \<Rightarrow> sw_outcome \<times> cache_storage" where
  "cacheFirst pc net quota request st =
     (let st1 = caches_open (CACHE_NAME pc) st
      in case cache_match (CACHE_NAME pc) (rq_url request) st1 of
           Some cached \<Rightarrow> (Respond cached, st1)
         | None \<Rightarrow>
             (case net (rq_url request) of
                None \<Rightarrow> (FetchRejected, st1)
              | Some response \<Rightarrow>
                  (Respond response,
                   if rs_ok response \<and> quota then cache_put (CACHE_NAME pc) (rq_url request) response st1 else st1)))"

definition sw_passes :: "precache \<Rightarrow> sw_request \<Rightarrow> bool" where
  "sw_passes pc request \<longleftrightarrow>
     \<not> rq_get request \<or> \<not> rq_sameOrigin request \<or> js_includes (rq_pathname request) (js ''/api/'') \<or>
     isRuntimeConfig (rq_pathname request) \<or> pc_urls pc = []"

definition sw_fetch ::
    "precache \<Rightarrow> (jsstring \<Rightarrow> jsstring) \<Rightarrow> network \<Rightarrow> bool \<Rightarrow> sw_request \<Rightarrow> cache_storage \<Rightarrow> sw_outcome \<times> cache_storage" where
  "sw_fetch pc resolve net quota request st =
     (if sw_passes pc request then (PassThrough, st)
      else if rq_navigate request then navigationStrategy pc resolve net request st
      else cacheFirst pc net quota request st)"

section \<open>The precache is immutable\<close>

text \<open>The life of an activated worker: fetch events with any network and quota.\<close>

inductive sw_step :: "precache \<Rightarrow> (jsstring \<Rightarrow> jsstring) \<Rightarrow> cache_storage \<Rightarrow> cache_storage \<Rightarrow> bool"
  for pc :: precache and resolve :: "jsstring \<Rightarrow> jsstring" where
  sw_fetched: "sw_step pc resolve st (snd (sw_fetch pc resolve net quota request st))"
| sw_reactivated: "sw_step pc resolve st (sw_activate pc st)"

definition sw_ready :: "precache \<Rightarrow> (jsstring \<Rightarrow> jsstring) \<Rightarrow> network \<Rightarrow> cache_storage \<Rightarrow> bool" where
  "sw_ready pc resolve net st \<longleftrightarrow> (\<exists>st0. sw_install pc resolve net st0 = (True, st))"

definition sw_inv :: "precache \<Rightarrow> (jsstring \<Rightarrow> jsstring) \<Rightarrow> network \<Rightarrow> cache_storage \<Rightarrow> bool" where
  "sw_inv pc resolve net st \<longleftrightarrow> st (CACHE_NAME pc) \<noteq> None \<and>
     (\<forall>u \<in> set (pc_urls pc). \<exists>r. net (resolve u) = Some r \<and> rs_ok r \<and> cache_match (CACHE_NAME pc) (resolve u) st = Some r)"

lemma caches_open_some [simp]: "st name \<noteq> None \<Longrightarrow> caches_open name st = st"
  by (auto simp: caches_open_def)

lemma caches_open_defined [simp]: "caches_open name st name \<noteq> None"
  by (auto simp: caches_open_def split: option.splits)

lemma add_all_match:
  assumes "st name \<noteq> None" and "\<forall>u \<in> set urls. \<exists>r. net u = Some r"
  shows "fold (\<lambda>u st. case net u of None \<Rightarrow> st | Some r \<Rightarrow> cache_put name u r st) urls st name \<noteq> None \<and>
    (\<forall>u. cache_match name u (fold (\<lambda>u st. case net u of None \<Rightarrow> st | Some r \<Rightarrow> cache_put name u r st) urls st) =
      (if u \<in> set urls then net u else cache_match name u st))"
  using assms
proof (induction urls arbitrary: st)
  case (Cons u urls)
  then obtain r c where r: "net u = Some r" "st name = Some c" by auto
  then have "cache_put name u r st name \<noteq> None" by (simp add: cache_put_def)
  with Cons r show ?case
    by (auto simp: cache_put_def cache_match_def)
qed simp

lemma install_inv: "sw_ready pc resolve net st \<Longrightarrow> sw_inv pc resolve net st"
proof -
  assume "sw_ready pc resolve net st"
  then obtain st0 where *: "sw_install pc resolve net st0 = (True, st)" by (auto simp: sw_ready_def)
  then have ok: "\<forall>u \<in> set (map resolve (pc_urls pc)). \<exists>r. net u = Some r \<and> rs_ok r"
    by (auto simp: sw_install_def add_all_def split: if_splits)
  with * have st: "st = fold (\<lambda>u st. case net u of None \<Rightarrow> st | Some r \<Rightarrow> cache_put (CACHE_NAME pc) u r st)
      (map resolve (pc_urls pc)) (caches_open (CACHE_NAME pc) st0)"
    by (auto simp: sw_install_def add_all_def split: if_splits)
  have "\<forall>u \<in> set (map resolve (pc_urls pc)). \<exists>r. net u = Some r" using ok by blast
  from add_all_match [of "caches_open (CACHE_NAME pc) st0" "CACHE_NAME pc", OF caches_open_defined this, folded st]
  have "st (CACHE_NAME pc) \<noteq> None"
      "\<And>u. u \<in> set (pc_urls pc) \<Longrightarrow> cache_match (CACHE_NAME pc) (resolve u) st = net (resolve u)"
    by simp_all
  with ok show ?thesis by (auto simp: sw_inv_def)
qed

lemma fetch_inv:
  assumes "sw_inv pc resolve net0 st"
  shows "sw_inv pc resolve net0 (snd (sw_fetch pc resolve net quota request st))"
proof -
  have open1: "caches_open (CACHE_NAME pc) st = st" using assms by (simp add: sw_inv_def)
  have "sw_inv pc resolve net0 (cache_put (CACHE_NAME pc) url r st)" if "cache_match (CACHE_NAME pc) url st = None" for url r
    using assms that unfolding sw_inv_def cache_put_def cache_match_def by (auto split: option.splits)
  with assms show ?thesis
    by (auto simp: sw_fetch_def navigationStrategy_def cacheFirst_def open1 Let_def split: option.splits)
qed

lemma activate_inv: "sw_inv pc resolve net st \<Longrightarrow> sw_inv pc resolve net (sw_activate pc st)"
  by (simp add: sw_inv_def sw_activate_def cache_match_def)

interpretation service_worker: inductive_invariant "sw_ready pc resolve net" "sw_step pc resolve" "sw_inv pc resolve net"
  for pc resolve net
proof (unfold_locales, goal_cases)
  case (1 st)
  then show ?case by (rule install_inv)
next
  case (2 st st')
  from 2(2,1) show ?case by (induction rule: sw_step.cases) (simp_all add: fetch_inv activate_inv)
qed

section \<open>What is never precached\<close>

lemma walk_entries:
  "(f, content) \<in> set (walk path es) \<Longrightarrow>
     \<not> starts_with (js ''api/'') f \<and> \<not> js_includes f (js ''/api/'') \<and> (\<exists>p name. f = p @ name \<and> name \<notin> EXCLUDE_BASENAMES)"
  "(f, content) \<in> set (walk_entry path e) \<Longrightarrow>
     \<not> starts_with (js ''api/'') f \<and> \<not> js_includes f (js ''/api/'') \<and> (\<exists>p name. f = p @ name \<and> name \<notin> EXCLUDE_BASENAMES)"
proof (induction path es and path e rule: walk_walk_entry.induct)
  case (4 path name content')
  then show ?case by (auto split: if_splits simp del: js_Cons)
qed (auto split: if_splits)

text \<open>
  C31: the app works offline. After a successful install, and through any sequence of activations and fetch
  events with any network and quota, every precached file is answered from the cache with exactly the
  response it had at install time, and a navigation without network gets the shell; a navigation that the
  server answers with success or 404 is never shadowed. Requests that are not GET, of another origin, under
  \<open>/api/\<close> or for the runtime configuration are left to the network and touch no cache.
\<close>

theorem offline_ready:
  assumes "sw_install pc resolve net0 st0 = (True, st1)"
    and "reach (\<lambda>st. st = st1) (sw_step pc resolve) st" and "u \<in> set (pc_urls pc)"
  shows "(\<forall>request net quota. \<not> sw_passes pc request \<and> \<not> rq_navigate request \<and> rq_url request = resolve u \<longrightarrow>
      sw_fetch pc resolve net quota request st = (Respond (the (net0 (resolve u))), st)) \<and>
    (\<forall>request net quota. SHELL_URL \<in> set (pc_urls pc) \<and> \<not> sw_passes pc request \<and> rq_navigate request \<and> net (rq_url request) = None \<longrightarrow>
      sw_fetch pc resolve net quota request st = (Respond (the (net0 (resolve SHELL_URL))), st)) \<and>
    (\<forall>request net quota r. \<not> sw_passes pc request \<and> rq_navigate request \<and> net (rq_url request) = Some r \<and>
        (rs_ok r \<or> rs_status r = 404) \<longrightarrow> sw_fetch pc resolve net quota request st = (Respond r, st)) \<and>
    (\<forall>request net quota. sw_passes pc request \<longrightarrow> sw_fetch pc resolve net quota request st = (PassThrough, st))"
proof -
  have "reach (sw_ready pc resolve net0) (sw_step pc resolve) st"
    using assms(2) by (induction rule: reach.induct) (use assms(1) in \<open>auto simp: sw_ready_def intro: reach.intros\<close>)
  then have inv: "sw_inv pc resolve net0 st" by (rule service_worker.reach_inv)
  have cached: "cache_match (CACHE_NAME pc) (resolve v) st = Some (the (net0 (resolve v)))" if "v \<in> set (pc_urls pc)" for v
    using inv that by (auto simp: sw_inv_def)
  have "caches_open (CACHE_NAME pc) st = st" using inv by (simp add: sw_inv_def)
  then show ?thesis
    using cached [of SHELL_URL] cached [OF assms(3)]
    by (auto simp: sw_fetch_def navigationStrategy_def cacheFirst_def Let_def)
qed

definition sample_precache :: precache where
  "sample_precache = \<lparr>pc_version = js ''1'', pc_urls = [SHELL_URL]\<rparr>"

theorem offline_ready_witness:
  "\<exists>st. sw_install sample_precache id (\<lambda>u. Some \<lparr>rs_status = 200, rs_body = [1]\<rparr>) Map.empty = (True, st) \<and>
     sw_fetch sample_precache id (\<lambda>u. None) True
       \<lparr>rq_get = True, rq_sameOrigin = True, rq_pathname = js ''/notes'', rq_url = js ''/notes'', rq_navigate = True\<rparr> st =
       (Respond \<lparr>rs_status = 200, rs_body = [1]\<rparr>, st)"
proof -
  let ?net = "\<lambda>u :: jsstring. Some \<lparr>rs_status = 200, rs_body = [1]\<rparr>"
  let ?q = "\<lparr>rq_get = True, rq_sameOrigin = True, rq_pathname = js ''/notes'', rq_url = js ''/notes'', rq_navigate = True\<rparr>"
  obtain st where st: "sw_install sample_precache id ?net Map.empty = (True, st)"
    by (simp add: sw_install_def add_all_def rs_ok_def)
  have "reach (\<lambda>s. s = st) (sw_step sample_precache id) st" by (rule reach_init) simp
  moreover have "\<not> sw_passes sample_precache ?q"
    by (simp add: sw_passes_def sample_precache_def isRuntimeConfig_def ends_with_def)
  ultimately show ?thesis
    using offline_ready [OF st, of st SHELL_URL] st by (simp add: sample_precache_def)
qed

end
