(* ===== verification/Markdown.thy ===== *)
theory Markdown
  imports Js_Text
begin

text \<open>
  The note previews (\<open>apps/web/src/notes/markdown.tsx\<close>): the classification of links, the flattening of a
  parsed document to one line of text, and the cache of previews. The Markdown parser and
  \<open>mdast-util-to-string\<close> are libraries and parameters; a document keeps of each node what the code reads,
  and \<open>'a\<close> is whatever else the library puts there.
\<close>

section \<open>Links\<close>

definition ascii_lower :: "code_unit \<Rightarrow> code_unit" where
  "ascii_lower c = (if 65 \<le> c \<and> c \<le> 90 then c + 32 else c)"

text \<open>
  \<open>/^https?:\/\//i\<close>. Without the \<open>u\<close> flag a non-ASCII character never matches an ASCII letter of the
  pattern, so lowering the ASCII letters is the whole of the case folding.
\<close>

definition absolute_http :: "jsstring \<Rightarrow> bool" where
  "absolute_http href \<longleftrightarrow>
     starts_with (js ''http://'') (map ascii_lower href) \<or> starts_with (js ''https://'') (map ascii_lower href)"

definition isExternalHref :: "jsstring option \<Rightarrow> bool" where
  "isExternalHref href =
     (case href of
        None \<Rightarrow> False
      | Some h \<Rightarrow>
          if h = [] then False
          else if starts_with (js ''#'') h then False
          else if starts_with (js ''//'') h then True
          else if starts_with (js ''/'') h \<or> starts_with (js ''.'') h then False
          else absolute_http h)"

record anchor =
  an_href :: "jsstring option"
  an_rel :: "jsstring option"
  an_target :: "jsstring option"

definition markdown_anchor :: "jsstring option \<Rightarrow> anchor" where
  "markdown_anchor href =
     (let external = isExternalHref href
      in \<lparr>an_href = href,
          an_rel = (if external then Some (js ''noopener noreferrer'') else None),
          an_target = (if external then Some (js ''_blank'') else None)\<rparr>)"

section \<open>Plain text of a document\<close>

datatype 'a mdast = Mdast (md_type: string) (md_children: "'a mdast list") (md_data: 'a)

definition BLOCK_CONTAINER_TYPES :: "string list" where
  "BLOCK_CONTAINER_TYPES = [''root'', ''list'', ''listItem'', ''blockquote'']"

definition text_segment :: "jsstring \<Rightarrow> jsstring list" where
  "text_segment t = (if t = [] then [] else [t])"

fun blockTextSegments :: "('a mdast \<Rightarrow> jsstring) \<Rightarrow> 'a mdast \<Rightarrow> jsstring list" where
  "blockTextSegments toString (Mdast ty children d) =
     (if children = [] then text_segment (toString (Mdast ty children d))
      else if ty \<in> set BLOCK_CONTAINER_TYPES then concat (map (blockTextSegments toString) children)
      else text_segment (toString (Mdast ty children d)))"

text \<open>\<open>segments.join(" ")\<close> and \<open>replace(/\s+/g, " ")\<close>.\<close>

fun join_space :: "jsstring list \<Rightarrow> jsstring" where
  "join_space [] = []"
| "join_space [w] = w"
| "join_space (w # v # ws) = w @ 0x20 # join_space (v # ws)"

function collapse_spaces :: "jsstring \<Rightarrow> jsstring" where
  "collapse_spaces [] = []"
| "collapse_spaces (c # cs) =
     (if js_space c then 0x20 # collapse_spaces (dropWhile js_space cs) else c # collapse_spaces cs)"
  by pat_completeness auto
termination by (relation "measure length") (auto simp: length_dropWhile_le le_imp_less_Suc)

definition stripMarkdownUncached :: "(jsstring \<Rightarrow> 'a mdast) \<Rightarrow> ('a mdast \<Rightarrow> jsstring) \<Rightarrow> jsstring \<Rightarrow> jsstring" where
  "stripMarkdownUncached parse toString source =
     trim (collapse_spaces (join_space (blockTextSegments toString (parse source))))"

section \<open>The cache of previews\<close>

definition STRIP_CACHE_CAP :: nat where "STRIP_CACHE_CAP = 200"

record strip_cache =
  sc_entries :: "(jsstring \<times> jsstring) list"
  sc_parseCalls :: nat

definition strip_empty :: strip_cache where
  "strip_empty = \<lparr>sc_entries = [], sc_parseCalls = 0\<rparr>"

definition evict_oldest :: "(jsstring \<times> jsstring) list \<Rightarrow> (jsstring \<times> jsstring) list" where
  "evict_oldest es =
     (if STRIP_CACHE_CAP < length es then (case es of [] \<Rightarrow> es | e # _ \<Rightarrow> AList.delete (fst e) es) else es)"

definition stripMarkdown :: "(jsstring \<Rightarrow> jsstring) \<Rightarrow> jsstring \<Rightarrow> strip_cache \<Rightarrow> jsstring \<times> strip_cache" where
  "stripMarkdown uncached source c =
     (if source = [] then ([], c)
      else case map_of (sc_entries c) source of
        Some cached \<Rightarrow>
          (cached, c\<lparr>sc_entries := AList.update source cached (AList.delete source (sc_entries c))\<rparr>)
      | None \<Rightarrow>
          (let result = uncached source
           in (result, \<lparr>sc_entries = evict_oldest (AList.update source result (sc_entries c)),
                 sc_parseCalls = Suc (sc_parseCalls c)\<rparr>)))"

fun strip_run :: "(jsstring \<Rightarrow> jsstring) \<Rightarrow> jsstring list \<Rightarrow> strip_cache \<Rightarrow> strip_cache" where
  "strip_run uncached [] c = c"
| "strip_run uncached (s # ss) c = strip_run uncached ss (snd (stripMarkdown uncached s c))"

section \<open>Words\<close>

text \<open>The words of a text, and the reference for the preview: the words of the blocks, one space apart.\<close>

fun split_spaces :: "jsstring \<Rightarrow> jsstring list" where
  "split_spaces [] = [[]]"
| "split_spaces (c # cs) =
     (if js_space c then [] # split_spaces cs
      else case split_spaces cs of p # ps \<Rightarrow> (c # p) # ps | [] \<Rightarrow> [[c]])"

definition js_words :: "jsstring \<Rightarrow> jsstring list" where
  "js_words s = filter (\<lambda>w. w \<noteq> []) (split_spaces s)"

lemma js_space_32 [simp]: "js_space 0x20"
  by (simp add: js_space_def)

lemma split_spaces_not_Nil [simp]: "split_spaces s \<noteq> []"
  by (induction s) (auto split: list.splits)

lemma split_spaces_append: "split_spaces (s @ 0x20 # t) = split_spaces s @ split_spaces t"
  by (induction s) (auto split: list.splits simp: neq_Nil_conv)

lemma js_words_Nil [simp]: "js_words [] = []"
  by (simp add: js_words_def)

lemma js_words_space [simp]: "js_space c \<Longrightarrow> js_words (c # cs) = js_words cs"
  by (simp add: js_words_def)

lemma js_words_join: "js_words (join_space ss) = concat (map js_words ss)"
  by (induction ss rule: join_space.induct) (auto simp: js_words_def split_spaces_append)

lemma js_words_dropWhile [simp]: "js_words (dropWhile js_space s) = js_words s"
  by (induction s) auto

lemma js_words_char:
  assumes "\<not> js_space c"
  shows "js_words (c # d # cs) = (if js_space d then [c] # js_words (d # cs)
    else (c # hd (js_words (d # cs))) # tl (js_words (d # cs)))"
  using assms by (cases "split_spaces cs") (auto simp: js_words_def)

lemma js_words_single: "\<not> js_space c \<Longrightarrow> js_words [c] = [[c]]"
  by (simp add: js_words_def)

lemma js_words_not_Nil: "\<not> js_space c \<Longrightarrow> js_words (c # cs) \<noteq> []"
  by (cases cs) (auto simp: js_words_char js_words_single)

lemma split_spaces_units: "\<forall>w \<in> set (split_spaces s). \<forall>c \<in> set w. \<not> js_space c"
proof (induction s)
  case (Cons d ds)
  obtain p ps where "split_spaces ds = p # ps" by (meson neq_Nil_conv split_spaces_not_Nil)
  with Cons show ?case by auto
qed simp

lemma js_words_units: "w \<in> set (js_words s) \<Longrightarrow> w \<noteq> [] \<and> (\<forall>c \<in> set w. \<not> js_space c)"
  using split_spaces_units by (auto simp: js_words_def)

section \<open>One line of words\<close>

lemma dropWhile_space_hd: "dropWhile js_space s = [] \<or> \<not> js_space (hd (dropWhile js_space s))"
  by (induction s) auto

lemma join_space_cons: "ws \<noteq> [] \<Longrightarrow> join_space (w # ws) = w @ 0x20 # join_space ws"
  by (cases ws) auto

lemma join_space_grow: "join_space ((c # w) # ws) = c # join_space (w # ws)"
  by (cases ws) auto

lemma last_dropWhile_space: "dropWhile P xs \<noteq> [] \<Longrightarrow> last (dropWhile P xs) = last xs"
  by (metis last_appendR takeWhile_dropWhile_id)

definition trailing :: "jsstring \<Rightarrow> jsstring" where
  "trailing s = (if s \<noteq> [] \<and> js_space (last s) then [0x20] else [])"

lemma collapse_from_word:
  "s = [] \<or> \<not> js_space (hd s) \<Longrightarrow> collapse_spaces s = join_space (js_words s) @ trailing s"
proof (induction s rule: length_induct)
  case (1 s)
  show ?case
  proof (cases s)
    case (Cons c cs)
    with 1 have c: "\<not> js_space c" by simp
    show ?thesis
    proof (cases cs)
      case Nil
      then show ?thesis using Cons c by (simp add: js_words_single trailing_def)
    next
      case d: (Cons d ds)
      show ?thesis
      proof (cases "js_space d")
        case True
        let ?r = "dropWhile js_space ds"
        have "length ?r < length s" using Cons d length_dropWhile_le [of js_space ds] by simp
        then have r: "collapse_spaces ?r = join_space (js_words ?r) @ trailing ?r"
          using 1(1) dropWhile_space_hd [of ds] by blast
        have w: "js_words s = [c] # js_words ds" using c True Cons d by (simp add: js_words_char)
        show ?thesis
        proof (cases "?r = []")
          case True
          then have "\<forall>x \<in> set ds. js_space x" by (simp add: dropWhile_eq_Nil_conv)
          moreover from True have "js_words ds = []" by (metis js_words_Nil js_words_dropWhile)
          moreover have "collapse_spaces ?r = []" by (simp only: True collapse_spaces.simps)
          ultimately show ?thesis
            using c \<open>js_space d\<close> Cons d w by (simp add: trailing_def)
        next
          case False
          then have "js_words ds \<noteq> []"
            using dropWhile_space_hd [of ds] js_words_not_Nil js_words_dropWhile by (metis list.collapse)
          moreover have "trailing s = trailing ?r"
            using False Cons d by (auto simp: trailing_def last_dropWhile_space)
          ultimately show ?thesis
            using c \<open>js_space d\<close> Cons d w r by (simp add: join_space_cons)
        qed
      next
        case False
        then have "length cs < length s" "cs = [] \<or> \<not> js_space (hd cs)" using Cons d by simp_all
        then have "collapse_spaces cs = join_space (js_words cs) @ trailing cs" using 1(1) by blast
        moreover have "js_words s = (c # hd (js_words cs)) # tl (js_words cs)"
          using c False Cons d by (simp add: js_words_char)
        moreover have "js_words cs \<noteq> []" using False d js_words_not_Nil by simp
        moreover have "trailing s = trailing cs" using Cons d by (simp add: trailing_def)
        ultimately show ?thesis using c Cons by (simp add: join_space_grow)
      qed
    qed
  qed (simp add: trailing_def)
qed

lemma word_ends: "w \<noteq> [] \<and> (\<forall>c \<in> set w. \<not> js_space c) \<Longrightarrow> \<not> js_space (hd w) \<and> \<not> js_space (last w)"
  by simp

lemma join_space_ends:
  "ws \<noteq> [] \<Longrightarrow> \<forall>w \<in> set ws. w \<noteq> [] \<and> (\<forall>c \<in> set w. \<not> js_space c) \<Longrightarrow>
     join_space ws \<noteq> [] \<and> \<not> js_space (hd (join_space ws)) \<and> \<not> js_space (last (join_space ws))"
proof (induction ws rule: join_space.induct)
  case (2 w)
  then show ?case using word_ends [of w] by simp
next
  case (3 w v ws)
  then have "join_space (v # ws) \<noteq> [] \<and> \<not> js_space (last (join_space (v # ws)))" by simp
  with word_ends [of w] 3(3) show ?case by simp
qed simp

lemma trim_word:
  assumes "u = [] \<or> \<not> js_space (hd u) \<and> \<not> js_space (last u)" and "t = [] \<or> t = [0x20]"
  shows "dropWhile js_space (rev (u @ t)) = rev u" and "t = [] \<or> u \<noteq> [] \<Longrightarrow> dropWhile js_space (u @ t) = u @ t"
proof -
  have "dropWhile js_space (rev u) = rev u"
    using assms(1) by (cases "rev u") (auto simp: hd_rev [symmetric])
  then show "dropWhile js_space (rev (u @ t)) = rev u" using assms(2) by auto
  show "dropWhile js_space (u @ t) = u @ t" if "t = [] \<or> u \<noteq> []"
    using assms that by (cases u) auto
qed

lemma trim_collapse: "trim (collapse_spaces s) = join_space (js_words s)"
proof -
  let ?r = "dropWhile js_space s"
  have r: "collapse_spaces ?r = join_space (js_words s) @ trailing ?r"
    using collapse_from_word [OF dropWhile_space_hd, of s] by simp
  have lead: "dropWhile js_space (collapse_spaces s) = dropWhile js_space (collapse_spaces ?r)"
    by (cases s) auto
  have "join_space (js_words s) = [] \<or>
      \<not> js_space (hd (join_space (js_words s))) \<and> \<not> js_space (last (join_space (js_words s)))"
    using join_space_ends [of "js_words s"] js_words_units by (cases "js_words s = []") auto
  moreover have "trailing ?r = [] \<or> trailing ?r = [0x20]" by (simp add: trailing_def)
  moreover have "trailing ?r = [] \<or> join_space (js_words s) \<noteq> []"
    using join_space_ends [of "js_words s"] js_words_units dropWhile_space_hd [of s] js_words_not_Nil
    by (metis js_words_dropWhile list.collapse trailing_def)
  ultimately show ?thesis
    unfolding trim_def lead r using trim_word [of "join_space (js_words s)" "trailing ?r"] by simp
qed

section \<open>The cache keeps the most recently used sources\<close>

definition last_n :: "nat \<Rightarrow> 'a list \<Rightarrow> 'a list" where
  "last_n n xs = drop (length xs - n) xs"

lemma remdups_snoc: "remdups (xs @ [x]) = removeAll x (remdups xs) @ [x]"
  by (induction xs) auto

lemma removeAll_absent: "x \<notin> set xs \<Longrightarrow> removeAll x xs = xs"
  by (rule removeAll_id)

lemma last_n_length: "length (last_n n xs) \<le> n"
  by (simp add: last_n_def)

lemma last_n_split:
  obtains p where "xs = p @ last_n n xs" "p = [] \<or> length (last_n n xs) = n"
proof
  show "xs = take (length xs - n) xs @ last_n n xs" by (simp add: last_n_def)
  show "take (length xs - n) xs = [] \<or> length (last_n n xs) = n" by (auto simp: last_n_def)
qed

lemma last_n_append: "length ys = n \<Longrightarrow> last_n n (xs @ ys) = ys"
  by (simp add: last_n_def)

lemma last_n_all: "length xs \<le> n \<Longrightarrow> last_n n xs = xs"
  by (simp add: last_n_def)

lemma length_removeAll_distinct: "distinct xs \<Longrightarrow> x \<in> set xs \<Longrightarrow> Suc (length (removeAll x xs)) = length xs"
  by (induction xs) (auto simp: removeAll_absent)

lemma recent_hit_split:
  assumes "distinct (p @ l)" and "x \<in> set l" and "p = [] \<or> length l = n" and "length l \<le> n"
  shows "last_n n (removeAll x (p @ l) @ [x]) = removeAll x l @ [x]"
proof -
  have "x \<notin> set p" and l: "distinct l" using assms(1,2) by auto
  then have d: "removeAll x (p @ l) @ [x] = p @ removeAll x l @ [x]" by simp
  have len: "length (removeAll x l @ [x]) = length l"
    using length_removeAll_distinct [OF l assms(2)] by simp
  show ?thesis
  proof (cases "p = []")
    case True
    have "last_n n (removeAll x l @ [x]) = removeAll x l @ [x]"
      by (rule last_n_all) (simp only: len assms(4))
    with True show ?thesis by simp
  next
    case False
    have "last_n n (p @ removeAll x l @ [x]) = removeAll x l @ [x]"
      by (rule last_n_append) (use False assms(3) len in blast)
    then show ?thesis by (simp only: d)
  qed
qed

lemma recent_hit:
  assumes "distinct d" and "x \<in> set (last_n n d)"
  shows "last_n n (removeAll x d @ [x]) = removeAll x (last_n n d) @ [x]"
proof (rule last_n_split [of d n])
  fix p assume p: "d = p @ last_n n d" "p = [] \<or> length (last_n n d) = n"
  have "distinct (p @ last_n n d)" using assms(1) p(1) by argo
  from recent_hit_split [OF this assms(2) p(2) last_n_length] p(1) show ?thesis by argo
qed

lemma recent_miss:
  assumes "distinct d" and "x \<notin> set (last_n n d)" and "0 < n"
  shows "last_n n (removeAll x d @ [x]) =
    (if n < length (last_n n d @ [x]) then tl (last_n n d @ [x]) else last_n n d @ [x])"
proof -
  obtain p where p: "d = p @ last_n n d" "p = [] \<or> length (last_n n d) = n" by (rule last_n_split)
  then have d: "removeAll x d @ [x] = removeAll x p @ last_n n d @ [x]"
    using assms(2) by (metis append.assoc removeAll_append removeAll_id)
  have le: "length (last_n n d) \<le> n" by (rule last_n_length)
  show ?thesis
  proof (cases "length (last_n n d) = n")
    case True
    then obtain y ys where l: "last_n n d = y # ys" using assms(3) by (cases "last_n n d") auto
    then have "removeAll x d @ [x] = (removeAll x p @ [y]) @ ys @ [x]" "length (ys @ [x]) = n"
      using d True by simp_all
    then have "last_n n (removeAll x d @ [x]) = ys @ [x]" by (metis last_n_append)
    with l True show ?thesis by simp
  next
    case False
    with p(2) d have "removeAll x d @ [x] = last_n n d @ [x]" by auto
    moreover have "length (last_n n d @ [x]) \<le> n" using False le by simp
    ultimately show ?thesis using False le by (simp add: last_n_all)
  qed
qed

definition strip_inv :: "(jsstring \<Rightarrow> jsstring) \<Rightarrow> jsstring list \<Rightarrow> strip_cache \<Rightarrow> bool" where
  "strip_inv f used c \<longleftrightarrow>
     map fst (sc_entries c) = last_n STRIP_CACHE_CAP (remdups used) \<and>
     (\<forall>(k, v) \<in> set (sc_entries c). v = f k)"

lemma update_absent: "k \<notin> fst ` set al \<Longrightarrow> AList.update k v al = al @ [(k, v)]"
  by (induction al) auto

lemma map_fst_delete: "map fst (AList.delete k al) = removeAll k (map fst al)"
  by (induction al) (auto simp: AList.delete_eq)

lemma set_tl: "set (tl xs) \<subseteq> set xs"
  by (cases xs) auto

lemma delete_hd: "distinct (map fst (e # es)) \<Longrightarrow> AList.delete (fst e) (e # es) = es"
  by (force simp: AList.delete_eq filter_id_conv)

lemma strip_inv_hit:
  assumes "strip_inv f used c" and "map_of (sc_entries c) source = Some v" and "source \<noteq> []"
  shows "stripMarkdown f source c = (f source, snd (stripMarkdown f source c)) \<and>
    strip_inv f (used @ [source]) (snd (stripMarkdown f source c)) \<and>
    sc_parseCalls (snd (stripMarkdown f source c)) = sc_parseCalls c"
proof -
  let ?del = "AList.delete source (sc_entries c)"
  have sv: "(source, v) \<in> set (sc_entries c)" using assms(2) by (rule map_of_SomeD)
  then have v: "v = f source" using assms(1) by (auto simp: strip_inv_def)
  have "source \<notin> fst ` set ?del" by (auto simp: AList.delete_eq)
  then have new: "sc_entries (snd (stripMarkdown f source c)) = ?del @ [(source, f source)]"
    using assms(2,3) v by (simp add: stripMarkdown_def update_absent)
  have mem: "source \<in> set (last_n STRIP_CACHE_CAP (remdups used))"
    using assms(1) imageI [OF sv, of fst] by (simp add: strip_inv_def flip: set_map)
  have "map fst (?del @ [(source, f source)]) = last_n STRIP_CACHE_CAP (remdups (used @ [source]))"
    using assms(1) recent_hit [OF distinct_remdups mem]
    by (simp add: strip_inv_def map_fst_delete remdups_snoc del: remdups.simps)
  moreover have "\<forall>(k, v) \<in> set (?del @ [(source, f source)]). v = f k"
    using assms(1) by (auto simp: strip_inv_def AList.delete_eq)
  ultimately have "strip_inv f (used @ [source]) (snd (stripMarkdown f source c))"
    unfolding strip_inv_def new by blast
  then show ?thesis using assms(2,3) v by (simp add: stripMarkdown_def)
qed

lemma strip_inv_miss:
  assumes "strip_inv f used c" and "map_of (sc_entries c) source = None" and "source \<noteq> []"
  shows "stripMarkdown f source c = (f source, snd (stripMarkdown f source c)) \<and>
    strip_inv f (used @ [source]) (snd (stripMarkdown f source c)) \<and>
    sc_parseCalls (snd (stripMarkdown f source c)) = Suc (sc_parseCalls c)"
proof -
  let ?new = "sc_entries c @ [(source, f source)]"
  have keys: "map fst (sc_entries c) = last_n STRIP_CACHE_CAP (remdups used)" using assms(1) by (simp add: strip_inv_def)
  have absent: "source \<notin> fst ` set (sc_entries c)" using assms(2) by (simp add: map_of_eq_None_iff)
  then have absent': "source \<notin> set (last_n STRIP_CACHE_CAP (remdups used))" by (simp add: keys [symmetric])
  have entries: "sc_entries (snd (stripMarkdown f source c)) = evict_oldest ?new"
    using assms(2,3) update_absent [OF absent] by (simp add: stripMarkdown_def Let_def)
  have "distinct (last_n STRIP_CACHE_CAP (remdups used))" by (simp add: last_n_def)
  then have dist: "distinct (map fst ?new)" using absent' keys by simp
  have evict: "evict_oldest ?new = (if STRIP_CACHE_CAP < length ?new then tl ?new else ?new)"
    using dist delete_hd [of "hd ?new" "tl ?new"] by (auto simp: evict_oldest_def split: list.splits)
  have "map fst (evict_oldest ?new) = last_n STRIP_CACHE_CAP (remdups (used @ [source]))"
    using recent_miss [OF distinct_remdups absent'] keys [symmetric]
    by (simp add: evict map_tl remdups_snoc STRIP_CACHE_CAP_def del: remdups.simps)
  moreover have "\<forall>(k, v) \<in> set (evict_oldest ?new). v = f k"
    using assms(1) set_tl [of ?new] by (auto simp: strip_inv_def evict split_beta)
  ultimately have "strip_inv f (used @ [source]) (snd (stripMarkdown f source c))"
    unfolding strip_inv_def entries by blast
  then show ?thesis using assms(2,3) by (simp add: stripMarkdown_def Let_def)
qed

text \<open>
  A function with a memory: every call returns the value of the pure function, and the memory is
  described by the arguments of the calls so far.
\<close>

locale memoised =
  fixes call :: "'k \<Rightarrow> 's \<Rightarrow> 'v \<times> 's"
    and start :: 's
    and memory :: "'k list \<Rightarrow> 's \<Rightarrow> bool"
    and f :: "'k \<Rightarrow> 'v"
  assumes memory_start: "memory [] start"
    and call_value: "memory used s \<Longrightarrow> fst (call k s) = f k"
    and call_memory: "memory used s \<Longrightarrow> memory (used @ [k]) (snd (call k s))"
begin

lemma run_memory: "memory used s \<Longrightarrow> memory (used @ ks) (fold (\<lambda>k s. snd (call k s)) ks s)"
proof (induction ks arbitrary: used s)
  case (Cons k ks)
  from Cons.IH [OF call_memory [OF Cons.prems, of k]] show ?case by simp
qed simp

lemma after_calls: "memory ks (fold (\<lambda>k s. snd (call k s)) ks start)"
  using run_memory [OF memory_start] by simp

lemma value_after_calls: "fst (call k (fold (\<lambda>k s. snd (call k s)) ks start)) = f k"
  by (rule call_value [OF after_calls])

end

definition nonempty :: "jsstring list \<Rightarrow> jsstring list" where
  "nonempty = filter (\<lambda>s. s \<noteq> [])"

lemma strip_run_fold: "strip_run f ss c = fold (\<lambda>s c. snd (stripMarkdown f s c)) ss c"
  by (induction ss arbitrary: c) simp_all

lemma strip_call_step:
  assumes "strip_inv f (nonempty used) c"
  shows "fst (stripMarkdown f s c) = (if s = [] then [] else f s) \<and>
    strip_inv f (nonempty (used @ [s])) (snd (stripMarkdown f s c)) \<and>
    sc_parseCalls (snd (stripMarkdown f s c)) =
      sc_parseCalls c + (if s = [] \<or> s \<in> set (map fst (sc_entries c)) then 0 else 1)"
proof -
  consider "s = []" | v where "s \<noteq> []" "map_of (sc_entries c) s = Some v"
    | "s \<noteq> []" "map_of (sc_entries c) s = None" by fastforce
  then show ?thesis
  proof cases
    case 1
    with assms show ?thesis by (simp add: stripMarkdown_def nonempty_def)
  next
    case 2
    then have "s \<in> set (map fst (sc_entries c))" by (metis map_of_eq_None_iff option.distinct(1) set_map)
    with strip_inv_hit [OF assms 2(2,1)] 2(1) show ?thesis by (simp add: nonempty_def prod_eq_iff)
  next
    case 3
    then have "s \<notin> set (map fst (sc_entries c))" by (metis map_of_eq_None_iff set_map)
    with strip_inv_miss [OF assms 3(2,1)] 3(1) show ?thesis by (simp add: nonempty_def prod_eq_iff)
  qed
qed

lemmas strip_call = strip_call_step [THEN conjunct1] strip_call_step [THEN conjunct2, THEN conjunct1]
  strip_call_step [THEN conjunct2, THEN conjunct2]

interpretation strip: memoised "stripMarkdown f" strip_empty "\<lambda>used. strip_inv f (nonempty used)"
  "\<lambda>s. if s = [] then [] else f s" for f
proof (unfold_locales, goal_cases)
  case 1
  show ?case by (simp add: strip_inv_def strip_empty_def nonempty_def last_n_def)
next
  case (2 used s k)
  then show ?case by (rule strip_call(1))
next
  case (3 used s k)
  then show ?case by (rule strip_call(2))
qed

lemma stripMarkdownUncached_words:
  "stripMarkdownUncached parse toString source =
     join_space (concat (map js_words (blockTextSegments toString (parse source))))"
  by (simp add: stripMarkdownUncached_def trim_collapse js_words_join)

text \<open>
  C32: the cache is transparent. Whatever was previewed before, \<open>stripMarkdown\<close> returns the words of the
  document's blocks in order, one space apart, on one line; the cache holds exactly the 200 most recently
  previewed distinct texts, oldest first; and the parser runs again only for a text that is not among them.
\<close>

theorem strip_markdown_transparent:
  "fst (stripMarkdown (stripMarkdownUncached parse toString) source
      (strip_run (stripMarkdownUncached parse toString) history strip_empty)) =
    (if source = [] then [] else join_space (concat (map js_words (blockTextSegments toString (parse source))))) \<and>
  map fst (sc_entries (strip_run (stripMarkdownUncached parse toString) history strip_empty)) =
    last_n 200 (remdups (filter (\<lambda>s. s \<noteq> []) history)) \<and>
  sc_parseCalls (strip_run (stripMarkdownUncached parse toString) (history @ [source]) strip_empty) =
    sc_parseCalls (strip_run (stripMarkdownUncached parse toString) history strip_empty) +
    (if source = [] \<or> source \<in> set (last_n 200 (remdups (filter (\<lambda>s. s \<noteq> []) history))) then 0 else 1)"
proof -
  let ?f = "stripMarkdownUncached parse toString"
  let ?c = "strip_run ?f history strip_empty"
  have inv: "strip_inv ?f (nonempty history) ?c"
    unfolding strip_run_fold by (rule strip.after_calls)
  then have keys: "map fst (sc_entries ?c) = last_n 200 (remdups (filter (\<lambda>s. s \<noteq> []) history))"
    by (simp add: strip_inv_def nonempty_def STRIP_CACHE_CAP_def)
  moreover have "fst (stripMarkdown ?f source ?c) =
      (if source = [] then [] else join_space (concat (map js_words (blockTextSegments toString (parse source)))))"
    using strip_call(1) [OF inv, of source] by (simp only: stripMarkdownUncached_words)
  moreover have "strip_run ?f (history @ [source]) strip_empty = snd (stripMarkdown ?f source ?c)"
    by (simp add: strip_run_fold)
  ultimately show ?thesis using strip_call(3) [OF inv, of source] unfolding keys by simp
qed

text \<open>A link opens in a new tab exactly when it is external, and never without \<open>noopener noreferrer\<close>.\<close>

lemma new_tab_is_isolated: "an_target (markdown_anchor href) = Some (js ''_blank'') \<longleftrightarrow>
    isExternalHref href \<and> an_rel (markdown_anchor href) = Some (js ''noopener noreferrer'')"
  by (simp add: markdown_anchor_def Let_def)

end
