(* ===== verification/Auth_Screen.thy ===== *)
theory Auth_Screen
  imports Ceremony
begin

text \<open>
  The sign-in screen (\<open>apps/web/src/app/auth-screen.tsx\<close>) over the credential store and the ceremonies.
  The component's state, the asynchronous calls it is waiting for, the vault file and the vault handles
  of the wasm heap are one state; an event is a click on a button the screen offers, the end of one of
  the calls, or React's second mount. React renders after every event, so a handler runs on the state
  that is shown. One tab writes the file. Texts are left out.
\<close>

section \<open>State\<close>

datatype busy = Enrolling | Unlocking

datatype retry_action = RetryFresh | RetryLocked vault_credential

datatype auth_state =
    Loading
  | Unsupported
  | Fresh
  | Locked vault_credential
  | Busy busy
  | Unlocked nat vault_credential
  | ErrorScreen retry_action

text \<open>What an unfinished call will do when it ends; the flag of a bootstrap is \<open>cancelled\<close>.\<close>

datatype auth_task =
    Bootstrap bool
  | AwaitEnroll
  | AwaitSet nat vault_credential
  | AwaitUnlock vault_credential
  | AwaitClear "vault_credential option"

record auth_screen =
  au_state :: auth_state
  au_tasks :: "auth_task list"
  au_file :: vault_file
  au_live :: "nat list"
  au_freed :: "nat list"
  au_next :: nat

record auth_env =
  ae_credentials :: "webauthn option"
  ae_wasm :: bool
  ae_crypto :: key_crypto
  ae_hostname :: "jsstring option"
  ae_entropy :: enroll_entropy
  ae_challenge :: bytes
  ae_now :: nat

definition await_task :: "auth_task \<Rightarrow> auth_screen \<Rightarrow> auth_screen" where
  "await_task t s = s\<lparr>au_tasks := au_tasks s @ [t]\<rparr>"

definition new_vault :: "auth_screen \<Rightarrow> auth_screen" where
  "new_vault s = s\<lparr>au_live := au_live s @ [au_next s], au_next := Suc (au_next s)\<rparr>"

definition free_vault :: "nat \<Rightarrow> auth_screen \<Rightarrow> auth_screen" where
  "free_vault h s = s\<lparr>au_live := remove1 h (au_live s), au_freed := au_freed s @ [h]\<rparr>"

section \<open>Handlers\<close>

definition auth_mount :: "bool \<Rightarrow> auth_screen \<Rightarrow> auth_screen" where
  "auth_mount webauthn s =
     (if \<not> webauthn then s\<lparr>au_state := Unsupported\<rparr> else await_task (Bootstrap False) s)"

definition auth_unmount :: "auth_screen \<Rightarrow> auth_screen" where
  "auth_unmount s =
     s\<lparr>au_tasks := map (\<lambda>t. case t of Bootstrap _ \<Rightarrow> Bootstrap True | _ \<Rightarrow> t) (au_tasks s)\<rparr>"

definition bootstrap_done :: "(opfs_call \<Rightarrow> bool) \<Rightarrow> bool \<Rightarrow> auth_screen \<Rightarrow> auth_screen" where
  "bootstrap_done fails cancelled s =
     (if cancelled then s
      else case readVaultFile fails (au_file s) of
        Inr (Some stored) \<Rightarrow> s\<lparr>au_state := Locked stored\<rparr>
      | Inr None \<Rightarrow> s\<lparr>au_state := Fresh\<rparr>
      | Inl StoreUnavailable \<Rightarrow> s\<lparr>au_state := Unsupported\<rparr>
      | Inl _ \<Rightarrow> s\<lparr>au_state := ErrorScreen RetryFresh\<rparr>)"

definition doEnroll :: "auth_screen \<Rightarrow> auth_screen" where
  "doEnroll s = await_task AwaitEnroll (s\<lparr>au_state := Busy Enrolling\<rparr>)"

definition enroll_done :: "auth_env \<Rightarrow> auth_screen \<Rightarrow> auth_screen" where
  "enroll_done env s =
     (case enroll (ae_credentials env) (ae_wasm env) (ae_crypto env) (ae_hostname env) (ae_entropy env) (ae_now env)
         \<lparr>eo_rpId = None, eo_userName = None, eo_userHandle = None, eo_attachment = Some Platform\<rparr> of
        Inl _ \<Rightarrow> s\<lparr>au_state := ErrorScreen RetryFresh\<rparr>
      | Inr (_, c) \<Rightarrow> await_task (AwaitSet (au_next s) c) (new_vault s))"

definition set_done :: "(opfs_call \<Rightarrow> bool) \<Rightarrow> nat \<Rightarrow> vault_credential \<Rightarrow> auth_screen \<Rightarrow> auth_screen" where
  "set_done fails h c s =
     (case writeVaultFile fails c (au_file s) of
        (Inr _, file) \<Rightarrow> s\<lparr>au_file := file, au_state := Unlocked h c\<rparr>
      | (Inl _, file) \<Rightarrow> free_vault h (s\<lparr>au_file := file, au_state := ErrorScreen RetryFresh\<rparr>))"

definition doUnlock :: "vault_credential \<Rightarrow> auth_screen \<Rightarrow> auth_screen" where
  "doUnlock c s = await_task (AwaitUnlock c) (s\<lparr>au_state := Busy Unlocking\<rparr>)"

definition unlock_done :: "auth_env \<Rightarrow> vault_credential \<Rightarrow> auth_screen \<Rightarrow> auth_screen" where
  "unlock_done env c s =
     (case unlock (ae_credentials env) (ae_wasm env) (ae_crypto env) (ae_challenge env) c of
        Inl _ \<Rightarrow> s\<lparr>au_state := ErrorScreen (RetryLocked c)\<rparr>
      | Inr _ \<Rightarrow> (new_vault s)\<lparr>au_state := Unlocked (au_next s) c\<rparr>)"

definition doLock :: "auth_screen \<Rightarrow> auth_screen" where
  "doLock s =
     (case au_state s of
        Unlocked h c \<Rightarrow> (free_vault h s)\<lparr>au_state := Locked c\<rparr>
      | _ \<Rightarrow> s)"

definition doForget :: "auth_screen \<Rightarrow> auth_screen" where
  "doForget s =
     (let snapshot = (case au_state s of Unlocked h c \<Rightarrow> Some c | Locked c \<Rightarrow> Some c | _ \<Rightarrow> None);
          s1 = (case au_state s of Unlocked h c \<Rightarrow> free_vault h s | _ \<Rightarrow> s)
      in await_task (AwaitClear snapshot) (s1\<lparr>au_state := Busy Enrolling\<rparr>))"

definition clear_done :: "(opfs_call \<Rightarrow> bool) \<Rightarrow> vault_credential option \<Rightarrow> auth_screen \<Rightarrow> auth_screen" where
  "clear_done fails snapshot s =
     (case deleteVaultFile fails (au_file s) of
        (Inr _, file) \<Rightarrow> s\<lparr>au_file := file, au_state := Fresh\<rparr>
      | (Inl _, file) \<Rightarrow>
          s\<lparr>au_file := file,
            au_state := ErrorScreen (case snapshot of Some c \<Rightarrow> RetryLocked c | None \<Rightarrow> RetryFresh)\<rparr>)"

definition do_retry :: "retry_action \<Rightarrow> auth_screen \<Rightarrow> auth_screen" where
  "do_retry r s = s\<lparr>au_state := (case r of RetryFresh \<Rightarrow> Fresh | RetryLocked c \<Rightarrow> Locked c)\<rparr>"

section \<open>Buttons and events\<close>

datatype auth_action = ClickEnroll | ClickUnlock vault_credential | ClickLock | ClickForget | ClickRetry retry_action

fun actionsFor :: "auth_state \<Rightarrow> auth_action list" where
  "actionsFor Loading = []"
| "actionsFor Unsupported = []"
| "actionsFor Fresh = [ClickEnroll]"
| "actionsFor (Locked c) = [ClickUnlock c, ClickForget]"
| "actionsFor (Busy b) = []"
| "actionsFor (Unlocked h c) = [ClickLock, ClickForget]"
| "actionsFor (ErrorScreen r) = [ClickRetry r]"

text \<open>An unlocked vault is shown by the notes shell, whose one way back is \<open>onLock\<close>.\<close>

definition auth_offered :: "auth_state \<Rightarrow> auth_action list" where
  "auth_offered st = (case st of Unlocked h c \<Rightarrow> [ClickLock] | _ \<Rightarrow> actionsFor st)"

fun auth_click :: "auth_action \<Rightarrow> auth_screen \<Rightarrow> auth_screen" where
  "auth_click ClickEnroll s = doEnroll s"
| "auth_click (ClickUnlock c) s = doUnlock c s"
| "auth_click ClickLock s = doLock s"
| "auth_click ClickForget s = doForget s"
| "auth_click (ClickRetry r) s = do_retry r s"

fun auth_task_done :: "auth_env \<Rightarrow> (opfs_call \<Rightarrow> bool) \<Rightarrow> auth_task \<Rightarrow> auth_screen \<Rightarrow> auth_screen" where
  "auth_task_done env fails (Bootstrap cancelled) s = bootstrap_done fails cancelled s"
| "auth_task_done env fails AwaitEnroll s = enroll_done env s"
| "auth_task_done env fails (AwaitSet h c) s = set_done fails h c s"
| "auth_task_done env fails (AwaitUnlock c) s = unlock_done env c s"
| "auth_task_done env fails (AwaitClear snapshot) s = clear_done fails snapshot s"

text \<open>The keys of the texts in the message catalogue; the text of an error screen is its message.\<close>

fun titleFor :: "auth_state \<Rightarrow> string" where
  "titleFor Loading = ''auth.loading.title''"
| "titleFor Unsupported = ''auth.unsupported.title''"
| "titleFor Fresh = ''auth.fresh.title''"
| "titleFor (Locked c) = ''auth.locked.title''"
| "titleFor (Busy b) = (if b = Enrolling then ''auth.busy.enrollingTitle'' else ''auth.busy.unlockingTitle'')"
| "titleFor (Unlocked h c) = ''auth.unlocked.title''"
| "titleFor (ErrorScreen r) = ''auth.error.title''"

fun blurbFor :: "auth_state \<Rightarrow> string option" where
  "blurbFor Loading = Some ''auth.loading.blurb''"
| "blurbFor Unsupported = Some ''auth.unsupportedReason''"
| "blurbFor Fresh = Some ''auth.fresh.blurb''"
| "blurbFor (Locked c) = Some ''auth.locked.blurb''"
| "blurbFor (Busy b) = Some ''auth.busy.blurb''"
| "blurbFor (Unlocked h c) = Some ''auth.unlocked.blurb''"
| "blurbFor (ErrorScreen r) = None"

datatype auth_event = Click auth_action | TaskEnds nat auth_env "opfs_call \<Rightarrow> bool" | SecondMount

fun auth_handle :: "auth_event \<Rightarrow> auth_screen \<Rightarrow> auth_screen" where
  "auth_handle (Click a) s = (if a \<in> set (auth_offered (au_state s)) then auth_click a s else s)"
| "auth_handle (TaskEnds i env fails) s =
     (if i < length (au_tasks s)
      then auth_task_done env fails (au_tasks s ! i)
        (s\<lparr>au_tasks := take i (au_tasks s) @ drop (Suc i) (au_tasks s)\<rparr>)
      else s)"
| "auth_handle SecondMount s = (if au_state s = Loading then auth_mount True (auth_unmount s) else s)"

definition auth_start :: "bool \<Rightarrow> vault_file \<Rightarrow> auth_screen" where
  "auth_start webauthn file =
     auth_mount webauthn
       \<lparr>au_state = Loading, au_tasks = [], au_file = file, au_live = [], au_freed = [], au_next = 0\<rparr>"

section \<open>The invariant\<close>

definition active_tasks :: "auth_task list \<Rightarrow> auth_task list" where
  "active_tasks ts = filter (\<lambda>t. t \<noteq> Bootstrap True) ts"

definition on_disk :: "vault_file \<Rightarrow> vault_credential \<Rightarrow> bool" where
  "on_disk file c \<longleftrightarrow> readVaultFile no_faults file = Inr (Some c)"

fun task_ok :: "auth_screen \<Rightarrow> auth_task \<Rightarrow> bool" where
  "task_ok s (Bootstrap b) = False"
| "task_ok s AwaitEnroll = (au_live s = [])"
| "task_ok s (AwaitSet h c) = (au_live s = [h] \<and> (\<exists>t. vc_createdAt c = Millis t))"
| "task_ok s (AwaitUnlock c) = (au_live s = [] \<and> on_disk (au_file s) c)"
| "task_ok s (AwaitClear snapshot) = (au_live s = [] \<and> (\<exists>c. snapshot = Some c \<and> on_disk (au_file s) c))"

fun state_ok :: "auth_screen \<Rightarrow> auth_state \<Rightarrow> bool" where
  "state_ok s Loading = (active_tasks (au_tasks s) = [Bootstrap False] \<and> au_live s = [])"
| "state_ok s Unsupported = (active_tasks (au_tasks s) = [] \<and> au_live s = [])"
| "state_ok s Fresh = (active_tasks (au_tasks s) = [] \<and> au_live s = [])"
| "state_ok s (Locked c) = (active_tasks (au_tasks s) = [] \<and> au_live s = [] \<and> on_disk (au_file s) c)"
| "state_ok s (Busy b) = (\<exists>t. active_tasks (au_tasks s) = [t] \<and> task_ok s t)"
| "state_ok s (Unlocked h c) = (active_tasks (au_tasks s) = [] \<and> au_live s = [h] \<and> on_disk (au_file s) c)"
| "state_ok s (ErrorScreen r) = (active_tasks (au_tasks s) = [] \<and> au_live s = [] \<and>
     (\<forall>c. r = RetryLocked c \<longrightarrow> on_disk (au_file s) c))"

definition auth_inv :: "auth_screen \<Rightarrow> bool" where
  "auth_inv s \<longleftrightarrow> state_ok s (au_state s) \<and> ledger (au_live s) (au_freed s) (au_next s)"

lemma active_simps [simp]:
  "active_tasks [] = []"
  "active_tasks (xs @ ys) = active_tasks xs @ active_tasks ys"
  "active_tasks [t] = (if t = Bootstrap True then [] else [t])"
  by (simp_all add: active_tasks_def)

lemma active_remove:
  assumes "i < length ts"
  shows "active_tasks ts = active_tasks (take i ts) @ active_tasks [ts ! i] @ active_tasks (drop (Suc i) ts)"
  by (metis active_simps(2) append_Cons append_Nil assms id_take_nth_drop)

lemma active_cancelled:
  assumes "active_tasks ts = [Bootstrap False]"
  shows "active_tasks (map (\<lambda>t. case t of Bootstrap _ \<Rightarrow> Bootstrap True | _ \<Rightarrow> t) ts) = []"
proof -
  have "set (active_tasks ts) = {Bootstrap False}" using assms by simp
  then have "\<forall>t \<in> set ts. \<exists>b. t = Bootstrap b" by (auto simp: active_tasks_def)
  then show ?thesis by (induction ts) (auto simp: active_tasks_def)
qed

lemma auth_inv_start: "auth_inv (auth_start webauthn file)"
  by (simp add: auth_inv_def auth_start_def auth_mount_def await_task_def)

lemma auth_inv_click:
  assumes "auth_inv s"
  shows "auth_inv (auth_handle (Click a) s)"
  using assms
  by (cases "au_state s"; cases a)
    (auto simp: auth_inv_def auth_offered_def doEnroll_def doUnlock_def doLock_def doForget_def do_retry_def
      await_task_def free_vault_def Let_def dest: ledger_release_all split: retry_action.splits)

lemma auth_inv_mount: "auth_inv s \<Longrightarrow> auth_inv (auth_handle SecondMount s)"
  by (auto simp: auth_inv_def auth_mount_def auth_unmount_def await_task_def active_cancelled)

lemma set_done_file:
  assumes "vc_createdAt c = Millis t"
  shows "(case writeVaultFile fails c file of (Inr _, file') \<Rightarrow> on_disk file' c | (Inl _, file') \<Rightarrow> True)"
  by (auto simp: on_disk_def dest: written_is_read [OF assms] split: prod.splits sum.splits)

lemma clear_done_file: "deleteVaultFile fails file = (Inl e, file') \<Longrightarrow> file' = file"
  by (auto simp: deleteVaultFile_def opfsRoot_def split: if_splits option.splits)

lemma read_on_disk: "readVaultFile fails file = Inr (Some c) \<Longrightarrow> on_disk file c"
  by (auto simp: on_disk_def readVaultFile_def opfsRoot_def no_faults_def bind_result_eq_Inr_iff
      split: if_splits option.splits)

lemma enroll_millis:
  assumes "enroll credentials wasm kc hostname en now options = Inr (vault, c)"
  shows "vc_createdAt c = Millis now"
proof (cases credentials)
  case (Some wa)
  from enroll_steps [OF assms [unfolded Some]] show ?thesis by (metis vault_credential.select_convs(6))
qed (use assms in \<open>simp add: enroll_def\<close>)

definition without_task :: "nat \<Rightarrow> auth_screen \<Rightarrow> auth_screen" where
  "without_task i s = s\<lparr>au_tasks := take i (au_tasks s) @ drop (Suc i) (au_tasks s)\<rparr>"

lemma active_only:
  assumes "active_tasks ts = [t]" and "i < length ts" and "ts ! i \<noteq> Bootstrap True"
  shows "ts ! i = t" and "active_tasks (take i ts @ drop (Suc i) ts) = []"
  using active_remove [OF assms(2)] assms(1,3) by (simp_all add: Cons_eq_append_conv)

lemma active_not_Nil: "i < length ts \<Longrightarrow> ts ! i \<noteq> Bootstrap True \<Longrightarrow> active_tasks ts \<noteq> []"
  using active_remove [of i ts] by simp

lemma task_removed:
  assumes "auth_inv s" and "i < length (au_tasks s)" and "au_tasks s ! i \<noteq> Bootstrap True"
  shows "active_tasks (au_tasks (without_task i s)) = []"
    and "au_tasks s ! i = Bootstrap False \<and> au_live s = [] \<or> (\<exists>b. au_state s = Busy b) \<and> task_ok s (au_tasks s ! i)"
proof -
  obtain t where t: "active_tasks (au_tasks s) = [t]"
      "t = Bootstrap False \<and> au_live s = [] \<or> (\<exists>b. au_state s = Busy b) \<and> task_ok s t"
    using assms(1) active_not_Nil [OF assms(2,3)] by (cases "au_state s") (auto simp: auth_inv_def)
  show "active_tasks (au_tasks (without_task i s)) = []"
    using active_only(2) [OF t(1) assms(2,3)] by (simp add: without_task_def)
  show "au_tasks s ! i = Bootstrap False \<and> au_live s = [] \<or> (\<exists>b. au_state s = Busy b) \<and> task_ok s (au_tasks s ! i)"
    unfolding active_only(1) [OF t(1) assms(2,3)] by (rule t(2))
qed

lemma auth_inv_removed_cancelled:
  assumes "auth_inv s" and "i < length (au_tasks s)" and "au_tasks s ! i = Bootstrap True"
  shows "auth_inv (without_task i s)"
proof -
  have "active_tasks (au_tasks (without_task i s)) = active_tasks (au_tasks s)"
    using active_remove [OF assms(2)] assms(3) by (simp add: without_task_def)
  moreover have "au_live (without_task i s) = au_live s" "au_file (without_task i s) = au_file s"
      "au_freed (without_task i s) = au_freed s" "au_next (without_task i s) = au_next s"
      "au_state (without_task i s) = au_state s"
    by (simp_all add: without_task_def)
  moreover from calculation have "task_ok (without_task i s) t = task_ok s t" for t by (cases t) simp_all
  ultimately show ?thesis using assms(1) by (cases "au_state s") (auto simp: auth_inv_def)
qed

definition quiet :: "auth_screen \<Rightarrow> bool" where
  "quiet s \<longleftrightarrow> active_tasks (au_tasks s) = [] \<and> ledger (au_live s) (au_freed s) (au_next s)"

lemma bootstrap_inv: "quiet s \<Longrightarrow> au_live s = [] \<Longrightarrow> auth_inv (bootstrap_done fails False s)"
  by (cases "readVaultFile fails (au_file s)")
    (auto simp: bootstrap_done_def auth_inv_def quiet_def dest: read_on_disk split: option.splits store_error.splits)

lemma enroll_done_inv: "quiet s \<Longrightarrow> au_state s = Busy b \<Longrightarrow> au_live s = [] \<Longrightarrow> auth_inv (enroll_done env s)"
  by (auto simp: enroll_done_def auth_inv_def quiet_def new_vault_def await_task_def 
      dest: enroll_millis ledger_make split: sum.splits)

lemma set_done_inv:
  assumes "quiet s" and "au_live s = [h]" and "vc_createdAt c = Millis t"
  shows "auth_inv (set_done fails h c s)"
  using assms set_done_file [OF assms(3), of fails "au_file s"]
  by (auto simp: set_done_def auth_inv_def quiet_def free_vault_def dest: ledger_release_all split: sum.splits prod.splits)

lemma unlock_done_inv: "quiet s \<Longrightarrow> au_live s = [] \<Longrightarrow> on_disk (au_file s) c \<Longrightarrow> auth_inv (unlock_done env c s)"
  by (auto simp: unlock_done_def auth_inv_def quiet_def new_vault_def dest: ledger_make split: sum.splits)

lemma clear_done_inv:
  "quiet s \<Longrightarrow> au_live s = [] \<Longrightarrow> on_disk (au_file s) c \<Longrightarrow> auth_inv (clear_done fails (Some c) s)"
  by (auto simp: clear_done_def auth_inv_def quiet_def dest: clear_done_file split: sum.splits prod.splits)

lemma task_done_inv:
  assumes "quiet s" and "t = Bootstrap False \<and> au_live s = [] \<or> au_state s = Busy b \<and> task_ok s t"
  shows "auth_inv (auth_task_done env fails t s)"
  using assms bootstrap_inv enroll_done_inv set_done_inv unlock_done_inv clear_done_inv by (cases t) auto

lemma auth_inv_task:
  assumes "auth_inv s"
  shows "auth_inv (auth_handle (TaskEnds i env fails) s)"
proof (cases "i < length (au_tasks s)")
  case True
  have handle: "auth_handle (TaskEnds i env fails) s = auth_task_done env fails (au_tasks s ! i) (without_task i s)"
    using True by (simp add: without_task_def)
  show ?thesis
  proof (cases "au_tasks s ! i = Bootstrap True")
    case cancelled: True
    then show ?thesis
      unfolding handle using auth_inv_removed_cancelled [OF assms True] by (simp add: bootstrap_done_def)
  next
    case False
    note removed = task_removed [OF assms True False]
    have "quiet (without_task i s)"
      using assms removed(1) by (simp add: quiet_def auth_inv_def without_task_def)
    moreover have "task_ok (without_task i s) t = task_ok s t" for t by (cases t) (simp_all add: without_task_def)
    moreover have "au_live (without_task i s) = au_live s" "au_state (without_task i s) = au_state s"
      by (simp_all add: without_task_def)
    ultimately show ?thesis unfolding handle using removed(2) task_done_inv by metis
  qed
qed (use assms in simp)

lemma auth_inv_handle: "auth_inv s \<Longrightarrow> auth_inv (auth_handle e s)"
  by (cases e) (auto simp only: intro: auth_inv_click auth_inv_task auth_inv_mount)

interpretation auth: event_invariant "\<lambda>s. \<exists>w file. s = auth_start w file" auth_handle auth_inv
  by unfold_locales (auto simp: auth_inv_start auth_inv_handle)

lemma auth_run_inv: "auth_inv (fold auth_handle es (auth_start webauthn file))"
  by (rule auth.run_inv) blast

section \<open>Properties\<close>

fun task_vaults :: "auth_task \<Rightarrow> nat list" where
  "task_vaults (AwaitSet h c) = [h]"
| "task_vaults _ = []"

text \<open>
  C11: the wasm heap. Whatever the user clicks, whichever ceremonies and file operations fail, and however
  often React mounts the screen, the vault handles that are not freed are exactly the one on screen, or
  the one whose credential is being stored; every other handle ever made was freed, and none twice.
\<close>

theorem auth_vaults_freed_once:
  "let s = fold auth_handle es (auth_start webauthn file)
   in distinct (au_freed s @ au_live s) \<and> set (au_freed s @ au_live s) = {..<au_next s} \<and>
      au_live s = (case au_state s of
          Unlocked h c \<Rightarrow> [h]
        | _ \<Rightarrow> concat (map task_vaults (active_tasks (au_tasks s))))"
proof -
  define s where "s = fold auth_handle es (auth_start webauthn file)"
  have inv: "auth_inv s" unfolding s_def by (rule auth_run_inv)
  have "au_live s = concat (map task_vaults [t])" if "task_ok s t" for t
    using that by (cases t) auto
  then have "au_live s = (case au_state s of
      Unlocked h c \<Rightarrow> [h] | _ \<Rightarrow> concat (map task_vaults (active_tasks (au_tasks s))))"
    using inv by (cases "au_state s") (auto simp: auth_inv_def)
  with inv show ?thesis unfolding s_def [symmetric] Let_def auth_inv_def ledger_def by blast
qed

text \<open>
  C14: the screen never gets stuck and never lies about the disk. A spinner is shown exactly while one
  uncancelled call is under way, and no two run at once; a locked or unlocked screen, and an error whose
  retry leads back to the locked one, show a credential that the vault file really holds, which is the
  one a reload would read.
\<close>

theorem auth_screen_tracks_disk:
  "let s = fold auth_handle es (auth_start webauthn file); running = active_tasks (au_tasks s)
   in (case au_state s of
         Loading \<Rightarrow> running = [Bootstrap False]
       | Busy b \<Rightarrow> (\<exists>t. running = [t] \<and> t \<noteq> Bootstrap False)
       | _ \<Rightarrow> running = []) \<and>
      (case au_state s of
         Locked c \<Rightarrow> on_disk (au_file s) c
       | Unlocked h c \<Rightarrow> on_disk (au_file s) c
       | ErrorScreen (RetryLocked c) \<Rightarrow> on_disk (au_file s) c
       | _ \<Rightarrow> True)"
proof -
  have "auth_inv (fold auth_handle es (auth_start webauthn file))" by (rule auth_run_inv)
  then show ?thesis
    by (cases "au_state (fold auth_handle es (auth_start webauthn file))") (auto simp: auth_inv_def Let_def split: retry_action.splits)
qed

text \<open>
  The error screen of a bootstrap whose read failed is different: its retry offers to create a vault
  although one may exist, and creating it overwrites the credential on disk without the user having
  asked to forget it.
\<close>

definition sample_env :: auth_env where
  "sample_env = \<lparr>ae_credentials = Some sample_webauthn, ae_wasm = True, ae_crypto = sample_crypto,
     ae_hostname = Some [], ae_entropy = sample_enroll_entropy, ae_challenge = [], ae_now = 0\<rparr>"

lemma retry_overwrites_vault:
  "\<exists>h c. au_state (fold auth_handle [TaskEnds 0 sample_env (\<lambda>call. call = GetFile), Click (ClickRetry RetryFresh),
        Click ClickEnroll, TaskEnds 0 sample_env no_faults, TaskEnds 0 sample_env no_faults]
      (auth_start True (Some (serialize sample_credential)))) = Unlocked h c \<and> c \<noteq> sample_credential"
  by (simp add: auth_start_def auth_mount_def await_task_def bootstrap_done_def readVaultFile_def opfsRoot_def
      auth_offered_def do_retry_def doEnroll_def enroll_done_def new_vault_def set_done_def writeVaultFile_def
      no_faults_def sample_env_def enroll_def resolveRpId_def sample_webauthn_def sample_crypto_def
      sample_enroll_entropy_def runCeremony_def check_attachment_def prf_of_creation_def vault_enroll_def
      PRF_OUTPUT_LEN_def sample_credential_def)

end
