(* ===== verification/Repo_Hook.thy ===== *)
theory Repo_Hook
  imports Prelude
begin

text \<open>
  The life of the repository behind a vault (\<open>apps/web/src/notes/use-notes-repo.ts\<close>): the React effect that
  opens it, its cleanup, and openings that end after the vault has changed. A repository is its number.
\<close>

section \<open>The repository of a vault\<close>

datatype repo_state = RepoIdle | RepoLoading | RepoReady nat | RepoError

text \<open>
  One run of the effect whose cleanup has not run, with its \<open>attached\<close> and whether its \<open>createRepo\<close> is
  under way. Of the runs that were cancelled only the number of those still under way matters.
\<close>

record repo_effect =
  re_attached :: "nat option"
  re_pending :: bool

record repo_hook =
  rh_state :: repo_state
  rh_current :: "repo_effect option"
  rh_cancelled :: nat
  rh_open :: "nat list"
  rh_closed :: "nat list"
  rh_next :: nat

definition repo_hook_new :: repo_hook where
  "repo_hook_new = \<lparr>rh_state = RepoIdle, rh_current = None, rh_cancelled = 0, rh_open = [], rh_closed = [], rh_next = 0\<rparr>"

definition open_repo :: "repo_hook \<Rightarrow> repo_hook" where
  "open_repo h = h\<lparr>rh_open := rh_open h @ [rh_next h], rh_next := Suc (rh_next h)\<rparr>"

definition close_repo :: "nat \<Rightarrow> repo_hook \<Rightarrow> repo_hook" where
  "close_repo r h = h\<lparr>rh_open := remove1 r (rh_open h), rh_closed := rh_closed h @ [r]\<rparr>"

definition effect_cleanup :: "repo_hook \<Rightarrow> repo_hook" where
  "effect_cleanup h =
     (case rh_current h of
        None \<Rightarrow> h
      | Some e \<Rightarrow>
          (let h1 = h\<lparr>rh_current := None, rh_cancelled := rh_cancelled h + (if re_pending e then 1 else 0)\<rparr>
           in case re_attached e of None \<Rightarrow> h1 | Some r \<Rightarrow> close_repo r h1))"

definition effect_body :: "bool \<Rightarrow> repo_hook \<Rightarrow> repo_hook" where
  "effect_body vault h =
     (if \<not> vault then h\<lparr>rh_state := RepoIdle\<rparr>
      else h\<lparr>rh_state := RepoLoading, rh_current := Some \<lparr>re_attached = None, re_pending = True\<rparr>\<rparr>)"

text \<open>\<open>createRepo\<close> ends for the current run, or for one that was cancelled.\<close>

definition create_done :: "bool \<Rightarrow> repo_hook \<Rightarrow> repo_hook" where
  "create_done ok h =
     (case rh_current h of
        None \<Rightarrow> h
      | Some e \<Rightarrow>
          if \<not> re_pending e then h
          else if ok then
            (open_repo h)\<lparr>rh_current := Some \<lparr>re_attached = Some (rh_next h), re_pending = False\<rparr>,
              rh_state := RepoReady (rh_next h)\<rparr>
          else h\<lparr>rh_current := Some (e\<lparr>re_pending := False\<rparr>), rh_state := RepoError\<rparr>)"

definition cancelled_done :: "bool \<Rightarrow> repo_hook \<Rightarrow> repo_hook" where
  "cancelled_done ok h =
     (if rh_cancelled h = 0 then h
      else let h1 = h\<lparr>rh_cancelled := rh_cancelled h - 1\<rparr>
           in if ok then close_repo (rh_next h) (open_repo h1) else h1)"

datatype repo_event = VaultChanges bool | HookUnmounts | CreateEnds bool | CancelledEnds bool

fun repo_hook_handle :: "repo_event \<Rightarrow> repo_hook \<Rightarrow> repo_hook" where
  "repo_hook_handle (VaultChanges vault) h = effect_body vault (effect_cleanup h)"
| "repo_hook_handle HookUnmounts h = effect_cleanup h"
| "repo_hook_handle (CreateEnds ok) h = create_done ok h"
| "repo_hook_handle (CancelledEnds ok) h = cancelled_done ok h"

text \<open>The current run owns what is open, and the shown state is its state.\<close>

definition repo_hook_inv :: "repo_hook \<Rightarrow> bool" where
  "repo_hook_inv h \<longleftrightarrow> ledger (rh_open h) (rh_closed h) (rh_next h) \<and>
     (case rh_current h of
        None \<Rightarrow> rh_open h = []
      | Some e \<Rightarrow>
          (case re_attached e of
             Some r \<Rightarrow> rh_open h = [r] \<and> rh_state h = RepoReady r \<and> \<not> re_pending e
           | None \<Rightarrow> rh_open h = [] \<and> rh_state h = (if re_pending e then RepoLoading else RepoError)))"

lemma repo_hook_inv_new: "repo_hook_inv repo_hook_new"
  by (simp add: repo_hook_inv_def repo_hook_new_def)

lemma inv_cleanup: "repo_hook_inv h \<Longrightarrow> repo_hook_inv (effect_cleanup h) \<and> rh_current (effect_cleanup h) = None"
  by (auto simp: repo_hook_inv_def effect_cleanup_def close_repo_def Let_def split: option.splits dest: ledger_release_all)

lemma inv_body: "repo_hook_inv h \<Longrightarrow> rh_current h = None \<Longrightarrow> repo_hook_inv (effect_body vault h)"
  by (auto simp: repo_hook_inv_def effect_body_def)

lemma inv_create: "repo_hook_inv h \<Longrightarrow> repo_hook_inv (create_done ok h)"
  by (auto simp: repo_hook_inv_def create_done_def open_repo_def split: option.splits dest: ledger_make)

lemma inv_cancelled:
  assumes "repo_hook_inv h"
  shows "repo_hook_inv (cancelled_done ok h)"
proof -
  have l: "ledger (rh_open h) (rh_closed h) (rh_next h)" using assms by (simp add: repo_hook_inv_def)
  then have "rh_next h \<notin> set (rh_open h)" by (auto simp: ledger_def)
  then have "remove1 (rh_next h) (rh_open h @ [rh_next h]) = rh_open h" by (simp add: remove1_append)
  then show ?thesis using assms ledger_stillborn [OF l]
    by (cases "rh_cancelled h = 0"; cases ok)
      (simp_all add: repo_hook_inv_def cancelled_done_def open_repo_def close_repo_def cong: option.case_cong)
qed

interpretation repo_hook: event_invariant "\<lambda>h. h = repo_hook_new" repo_hook_handle repo_hook_inv
proof (unfold_locales, goal_cases)
  case (2 s e)
  then show ?case by (cases e) (simp_all add: inv_cleanup inv_body inv_create inv_cancelled)
qed (simp add: repo_hook_inv_new)

text \<open>
  C15: no repository is left open. However the vault comes and goes, the view unmounts and \<open>createRepo\<close>
  ends, in whatever order: the open repositories are exactly the one that the mounted effect shows as
  ready, or none; every other one that was ever opened has been closed, and none twice.
\<close>

theorem repos_closed:
  "let h = fold repo_hook_handle es repo_hook_new
   in distinct (rh_closed h @ rh_open h) \<and> set (rh_closed h @ rh_open h) = {..<rh_next h} \<and>
      rh_open h = (case rh_current h of
          None \<Rightarrow> []
        | Some e \<Rightarrow> (case rh_state h of RepoReady r \<Rightarrow> [r] | _ \<Rightarrow> []))"
proof -
  have "repo_hook_inv (fold repo_hook_handle es repo_hook_new)" by (rule repo_hook.run_inv) (rule refl)
  then show ?thesis
    by (auto simp: repo_hook_inv_def ledger_def Let_def split: option.splits)
qed

end
