(* ===== verification/Notes_View.thy ===== *)
theory Notes_View
  imports Repo Share_Note
begin

text \<open>
  The notes view (\<open>apps/web/src/notes/notes-shell.tsx\<close>) and the note editor it opens
  (\<open>apps/web/src/notes/note-editor.tsx\<close>). A call of the view into the repository is an event that ends it
  with a result. The submitting handlers may run at any time, as if React had not yet disabled their
  buttons; the other buttons and the inputs act while they are enabled. Markup and texts are left out.
\<close>

section \<open>The editor\<close>

datatype editor_mode = PreviewMode | EditMode

record note_editor =
  ed_id :: nat
  ed_note :: "plain_note option"
  ed_draft :: note_input
  ed_busy :: bool
  ed_error :: "jsstring option"
  ed_confirmingDelete :: bool
  ed_mode :: editor_mode
  ed_inflight :: bool

definition EMPTY_DRAFT :: note_input where
  "EMPTY_DRAFT = \<lparr>input_id = None, input_title = [], input_body = []\<rparr>"

definition fromNote :: "plain_note option \<Rightarrow> note_input" where
  "fromNote n =
     (case n of
        Some m \<Rightarrow> \<lparr>input_id = Some (note_id m), input_title = note_title m, input_body = note_body m\<rparr>
      | None \<Rightarrow> EMPTY_DRAFT)"

definition mode_of :: "plain_note option \<Rightarrow> editor_mode" where
  "mode_of n = (case n of Some _ \<Rightarrow> PreviewMode | None \<Rightarrow> EditMode)"

definition editor_new :: "nat \<Rightarrow> plain_note option \<Rightarrow> note_editor" where
  "editor_new i n =
     \<lparr>ed_id = i, ed_note = n, ed_draft = fromNote n, ed_busy = False, ed_error = None,
      ed_confirmingDelete = False, ed_mode = mode_of n, ed_inflight = False\<rparr>"

text \<open>The effect that follows the \<open>note\<close> prop.\<close>

definition editor_sync :: "plain_note option \<Rightarrow> note_editor \<Rightarrow> note_editor" where
  "editor_sync n e = e\<lparr>ed_note := n, ed_draft := fromNote n, ed_error := None, ed_mode := mode_of n\<rparr>"

definition dirty :: "note_editor \<Rightarrow> bool" where
  "dirty e =
     (case ed_note e of
        Some m \<Rightarrow> input_title (ed_draft e) \<noteq> note_title m \<or> input_body (ed_draft e) \<noteq> note_body m
      | None \<Rightarrow> input_title (ed_draft e) \<noteq> [] \<or> input_body (ed_draft e) \<noteq> [])"

text \<open>\<open>runGuarded\<close>: whether the action starts, and its end with an error or none.\<close>

definition guard_start :: "note_editor \<Rightarrow> bool \<times> note_editor" where
  "guard_start e =
     (if ed_inflight e then (False, e)
      else (True, e\<lparr>ed_inflight := True, ed_busy := True, ed_error := None\<rparr>))"

definition guard_end :: "jsstring option \<Rightarrow> note_editor \<Rightarrow> note_editor" where
  "guard_end err e =
     e\<lparr>ed_error := (case err of Some m \<Rightarrow> Some m | None \<Rightarrow> ed_error e), ed_inflight := False, ed_busy := False\<rparr>"

definition handleCancelDelete :: "note_editor \<Rightarrow> note_editor" where
  "handleCancelDelete e = e\<lparr>ed_confirmingDelete := False, ed_error := None\<rparr>"

definition handleOpenDelete :: "note_editor \<Rightarrow> note_editor" where
  "handleOpenDelete e = e\<lparr>ed_error := None, ed_confirmingDelete := True\<rparr>"

definition toggle_mode :: "note_editor \<Rightarrow> note_editor" where
  "toggle_mode e = e\<lparr>ed_mode := (if ed_mode e = PreviewMode then EditMode else PreviewMode)\<rparr>"

text \<open>Where an error is shown: in the dialog while it is open, else above the note.\<close>

definition shown_error :: "note_editor \<Rightarrow> (bool \<times> jsstring) option" where
  "shown_error e =
     (case ed_error e of
        None \<Rightarrow> None
      | Some m \<Rightarrow>
          if m = [] then None
          else if \<not> ed_confirmingDelete e then Some (False, m)
          else if ed_note e \<noteq> None then Some (True, m) else None)"

section \<open>The view\<close>

datatype selection = NoSelection | Draft "plain_note option"

datatype share_dialog = NoDialog | ReceiveDialog | SendDialog shared_note

datatype view_call = CallSave note_input | CallArchive jsstring | CallDelete jsstring

record notes_view =
  nv_selection :: selection
  nv_share :: share_dialog
  nv_query :: jsstring
  nv_editor :: "note_editor option"
  nv_calls :: "(nat \<times> view_call) list"
  nv_mounted :: nat
  nv_sharing :: bool

definition notes_view_new :: "bool \<Rightarrow> notes_view" where
  "notes_view_new sharing =
     \<lparr>nv_selection = NoSelection, nv_share = NoDialog, nv_query = [], nv_editor = None, nv_calls = [],
      nv_mounted = 0, nv_sharing = sharing\<rparr>"

text \<open>Setting the selection mounts, keeps or unmounts the editor.\<close>

definition setSelection :: "selection \<Rightarrow> notes_view \<Rightarrow> notes_view" where
  "setSelection sel v =
     (case sel of
        NoSelection \<Rightarrow> v\<lparr>nv_selection := sel, nv_editor := None\<rparr>
      | Draft n \<Rightarrow>
          (case nv_editor v of
             None \<Rightarrow> v\<lparr>nv_selection := sel, nv_editor := Some (editor_new (nv_mounted v) n), nv_mounted := Suc (nv_mounted v)\<rparr>
           | Some e \<Rightarrow> v\<lparr>nv_selection := sel, nv_editor := Some (if ed_note e = n then e else editor_sync n e)\<rparr>))"

definition runGuarded :: "(note_editor \<Rightarrow> view_call option) \<Rightarrow> notes_view \<Rightarrow> notes_view" where
  "runGuarded action v =
     (case nv_editor v of
        None \<Rightarrow> v
      | Some e \<Rightarrow>
          (case action e of
             None \<Rightarrow> v
           | Some call \<Rightarrow>
               (case guard_start e of
                  (False, _) \<Rightarrow> v
                | (True, e') \<Rightarrow> v\<lparr>nv_editor := Some e', nv_calls := nv_calls v @ [(ed_id e, call)]\<rparr>)))"

text \<open>\<open>saveDraft\<close>, \<open>archive\<close> and \<open>destroy\<close>: the call, then back to the list; an error goes to the editor.\<close>

definition call_done :: "nat \<Rightarrow> jsstring option \<Rightarrow> notes_view \<Rightarrow> notes_view" where
  "call_done i err v =
     (if length (nv_calls v) \<le> i then v
      else
        (let (owner, call) = nv_calls v ! i;
             v1 = v\<lparr>nv_calls := take i (nv_calls v) @ drop (Suc i) (nv_calls v)\<rparr>;
             v2 = (case err of None \<Rightarrow> setSelection NoSelection v1 | Some _ \<Rightarrow> v1)
         in case nv_editor v2 of
              None \<Rightarrow> v2
            | Some e \<Rightarrow> if ed_id e = owner then v2\<lparr>nv_editor := Some (guard_end err e)\<rparr> else v2))"

definition onReceived :: "plain_note \<Rightarrow> notes_view \<Rightarrow> notes_view" where
  "onReceived n v = setSelection (Draft (Some n)) (v\<lparr>nv_share := NoDialog\<rparr>)"

text \<open>The list filter; \<open>toLowerCase\<close> is a parameter.\<close>

definition applySearch :: "(jsstring \<Rightarrow> jsstring) \<Rightarrow> plain_note list \<Rightarrow> jsstring \<Rightarrow> plain_note list" where
  "applySearch toLowerCase notes query =
     (let q = toLowerCase (trim query)
      in if q = [] then notes
         else filter (\<lambda>n. js_includes (toLowerCase (note_title n)) q \<or> js_includes (toLowerCase (note_body n)) q) notes)"

section \<open>Events\<close>

datatype editor_event =
    CancelEdit
  | ToggleMode
  | TypeTitle jsstring
  | TypeBody jsstring
  | ClickSave
  | ClickArchive
  | OpenDelete
  | DismissDelete
  | ConfirmDelete
  | ClickShare

definition with_editor :: "(note_editor \<Rightarrow> bool) \<Rightarrow> (note_editor \<Rightarrow> note_editor) \<Rightarrow> notes_view \<Rightarrow> notes_view" where
  "with_editor enabled f v =
     (case nv_editor v of
        None \<Rightarrow> v
      | Some e \<Rightarrow> if enabled e then v\<lparr>nv_editor := Some (f e)\<rparr> else v)"

text \<open>The buttons and inputs of the editor. Escape dismisses the delete dialog even while it is busy.\<close>

fun editor_handle :: "editor_event \<Rightarrow> notes_view \<Rightarrow> notes_view" where
  "editor_handle CancelEdit v =
     (case nv_editor v of None \<Rightarrow> v | Some e \<Rightarrow> if ed_busy e then v else setSelection NoSelection v)"
| "editor_handle ToggleMode v = with_editor (\<lambda>e. \<not> ed_busy e) toggle_mode v"
| "editor_handle (TypeTitle t) v = with_editor (\<lambda>e. \<not> ed_busy e) (\<lambda>e. e\<lparr>ed_draft := (ed_draft e)\<lparr>input_title := t\<rparr>\<rparr>) v"
| "editor_handle (TypeBody b) v =
     with_editor (\<lambda>e. \<not> ed_busy e \<and> ed_mode e = EditMode) (\<lambda>e. e\<lparr>ed_draft := (ed_draft e)\<lparr>input_body := b\<rparr>\<rparr>) v"
| "editor_handle ClickSave v = runGuarded (\<lambda>e. if dirty e then Some (CallSave (ed_draft e)) else None) v"
| "editor_handle ClickArchive v = runGuarded (\<lambda>e. map_option (\<lambda>n. CallArchive (note_id n)) (ed_note e)) v"
| "editor_handle OpenDelete v = with_editor (\<lambda>e. \<not> ed_busy e \<and> ed_note e \<noteq> None) handleOpenDelete v"
| "editor_handle DismissDelete v = with_editor ed_confirmingDelete handleCancelDelete v"
| "editor_handle ConfirmDelete v =
     runGuarded (\<lambda>e. if ed_confirmingDelete e then map_option (\<lambda>n. CallDelete (note_id n)) (ed_note e) else None) v"
| "editor_handle ClickShare v =
     (case nv_editor v of
        None \<Rightarrow> v
      | Some e \<Rightarrow>
          if nv_sharing v \<and> ed_note e \<noteq> None \<and> \<not> ed_busy e
          then v\<lparr>nv_share := SendDialog \<lparr>sn_title = input_title (ed_draft e), sn_body = input_body (ed_draft e)\<rparr>\<rparr> else v)"

datatype view_event =
    OpenNew
  | OpenNote plain_note
  | SetQuery jsstring
  | OpenReceive
  | Received plain_note
  | CloseShare
  | InEditor editor_event
  | CallEnds nat "jsstring option"

definition in_list :: "notes_view \<Rightarrow> bool" where
  "in_list v \<longleftrightarrow> nv_selection v = NoSelection \<and> nv_share v = NoDialog"

fun view_handle :: "view_event \<Rightarrow> notes_view \<Rightarrow> notes_view" where
  "view_handle OpenNew v = (if in_list v then setSelection (Draft None) v else v)"
| "view_handle (OpenNote n) v = (if in_list v then setSelection (Draft (Some n)) v else v)"
| "view_handle (SetQuery q) v = (if in_list v then v\<lparr>nv_query := q\<rparr> else v)"
| "view_handle OpenReceive v = (if in_list v \<and> nv_sharing v then v\<lparr>nv_share := ReceiveDialog\<rparr> else v)"
| "view_handle (Received n) v =
     (if nv_selection v = NoSelection \<and> nv_share v = ReceiveDialog then onReceived n v else v)"
| "view_handle CloseShare v = v\<lparr>nv_share := NoDialog\<rparr>"
| "view_handle (InEditor e) v = editor_handle e v"
| "view_handle (CallEnds i err) v = call_done i err v"

section \<open>The invariant\<close>

fun call_ok :: "note_editor \<Rightarrow> view_call \<Rightarrow> bool" where
  "call_ok e (CallSave d) = (d = ed_draft e \<and> dirty e)"
| "call_ok e (CallArchive i) = (\<exists>n. ed_note e = Some n \<and> i = note_id n)"
| "call_ok e (CallDelete i) = (\<exists>n. ed_note e = Some n \<and> i = note_id n)"

definition view_inv :: "notes_view \<Rightarrow> bool" where
  "view_inv v \<longleftrightarrow>
     (case nv_editor v of
        None \<Rightarrow> nv_selection v = NoSelection \<and> nv_calls v = []
      | Some e \<Rightarrow>
          nv_selection v = Draft (ed_note e) \<and> ed_busy e = ed_inflight e \<and>
          input_id (ed_draft e) = map_option note_id (ed_note e) \<and>
          (if ed_inflight e then \<exists>c. nv_calls v = [(ed_id e, c)] \<and> call_ok e c else nv_calls v = []))"

lemma view_inv_new: "view_inv (notes_view_new sharing)"
  by (simp add: view_inv_def notes_view_new_def)

lemma fromNote_id: "input_id (fromNote n) = map_option note_id n"
  by (simp add: fromNote_def EMPTY_DRAFT_def split: option.splits)

lemma setSelection_inv: "view_inv v \<Longrightarrow> nv_calls v = [] \<Longrightarrow> nv_editor v = None \<Longrightarrow> view_inv (setSelection sel v)"
  by (auto simp: view_inv_def setSelection_def editor_new_def fromNote_id split: selection.splits)

lemma call_ok_cong: "ed_note e' = ed_note e \<Longrightarrow> ed_draft e' = ed_draft e \<Longrightarrow> call_ok e' c = call_ok e c"
  by (cases c) (simp_all add: dirty_def cong: option.case_cong)

lemma with_editor_inv:
  assumes "view_inv v"
    and "\<And>e. enabled e \<Longrightarrow> ed_id (f e) = ed_id e \<and> ed_note (f e) = ed_note e \<and> ed_busy (f e) = ed_busy e \<and>
      ed_inflight (f e) = ed_inflight e \<and> input_id (ed_draft (f e)) = input_id (ed_draft e) \<and>
      (ed_busy e \<longrightarrow> ed_draft (f e) = ed_draft e)"
  shows "view_inv (with_editor enabled f v)"
proof (cases "nv_editor v")
  case (Some e)
  show ?thesis
  proof (cases "enabled e")
    case True
    from assms(2) [OF this] call_ok_cong [of "f e" e] show ?thesis
      using assms(1) Some True by (auto simp: view_inv_def with_editor_def)
  qed (use assms(1) Some in \<open>simp add: with_editor_def\<close>)
qed (use assms(1) in \<open>simp add: with_editor_def\<close>)

lemma runGuarded_inv:
  assumes "view_inv v" and "\<And>e c. action e = Some c \<Longrightarrow> call_ok e c"
  shows "view_inv (runGuarded action v)"
proof (cases "nv_editor v")
  case (Some e)
  let ?e = "e\<lparr>ed_inflight := True, ed_busy := True, ed_error := None\<rparr>"
  have "call_ok ?e c = call_ok e c" for c by (rule call_ok_cong) simp_all
  then show ?thesis using assms Some
    by (cases "action e"; cases "ed_inflight e") (simp_all add: view_inv_def runGuarded_def guard_start_def)
qed (use assms(1) in \<open>simp add: runGuarded_def\<close>)

lemma call_done_inv:
  assumes "view_inv v"
  shows "view_inv (call_done i err v)"
proof (cases "i < length (nv_calls v)")
  case True
  then obtain e c where "nv_editor v = Some e" "nv_calls v = [(ed_id e, c)]" "i = 0"
    using assms by (auto simp: view_inv_def split: option.splits if_splits)
  then show ?thesis using assms
    by (cases err) (simp_all add: view_inv_def call_done_def guard_end_def setSelection_def)
qed (use assms in \<open>simp add: call_done_def\<close>)

lemma cancel_inv: "view_inv v \<Longrightarrow> view_inv (editor_handle CancelEdit v)"
  by (cases "nv_editor v") (simp_all add: view_inv_def setSelection_def)

lemma select_inv:
  assumes "view_inv v" and "nv_selection v = NoSelection"
  shows "view_inv (setSelection sel (v\<lparr>nv_share := d\<rparr>))" and "view_inv (setSelection sel v)"
proof -
  have "nv_editor v = None" "nv_calls v = []" using assms by (auto simp: view_inv_def split: option.splits)
  with assms setSelection_inv [of "v\<lparr>nv_share := d\<rparr>"] setSelection_inv [of v]
  show "view_inv (setSelection sel (v\<lparr>nv_share := d\<rparr>))" "view_inv (setSelection sel v)"
    by (simp_all add: view_inv_def)
qed

lemma frame_inv: "view_inv v \<Longrightarrow> view_inv (v\<lparr>nv_share := d\<rparr>)" "view_inv v \<Longrightarrow> view_inv (v\<lparr>nv_query := q\<rparr>)"
  by (cases "nv_editor v"; simp add: view_inv_def)+

lemma editor_inv_handle: "view_inv v \<Longrightarrow> view_inv (editor_handle ev v)"
proof (cases ev)
  case CancelEdit
  then show "view_inv v \<Longrightarrow> ?thesis" using cancel_inv by simp
next
  case ClickShare
  then show "view_inv v \<Longrightarrow> ?thesis" using frame_inv(1) by (cases "nv_editor v") simp_all
qed (auto intro!: with_editor_inv runGuarded_inv
    simp: toggle_mode_def handleOpenDelete_def handleCancelDelete_def split: if_splits)

lemma view_inv_handle: "view_inv v \<Longrightarrow> view_inv (view_handle ev v)"
  by (cases ev) (auto intro!: editor_inv_handle call_done_inv frame_inv select_inv simp: in_list_def onReceived_def)

interpretation notes_view: event_invariant "\<lambda>v. \<exists>sharing. v = notes_view_new sharing" view_handle view_inv
  by unfold_locales (auto simp: view_inv_new view_inv_handle)

section \<open>Properties\<close>

text \<open>
  C9: what is saved is what is on screen. After any events, double clicks included, at most one call into
  the repository is under way, and it belongs to the editor that is open; the draft that is being saved
  is the draft shown, it goes to the note that is open or to a new one, and it differs from what is
  stored; an archived or deleted note is the one shown. When the call fails, the editor stays open with
  the same draft and can submit again; when it succeeds, the list returns.
\<close>

theorem editor_saves_what_is_shown:
  "let v = fold view_handle es (notes_view_new sharing) in
   (nv_calls v = [] \<or>
    (\<exists>e c. nv_editor v = Some e \<and> nv_selection v = Draft (ed_note e) \<and> nv_calls v = [(ed_id e, c)] \<and> ed_busy e \<and>
      (case c of
         CallSave d \<Rightarrow> d = ed_draft e \<and> dirty e \<and> input_id d = map_option note_id (ed_note e)
       | CallArchive i \<Rightarrow> map_option note_id (ed_note e) = Some i
       | CallDelete i \<Rightarrow> map_option note_id (ed_note e) = Some i) \<and>
      nv_editor (view_handle (CallEnds 0 None) v) = None \<and>
      (\<forall>m. nv_editor (view_handle (CallEnds 0 (Some m)) v) =
         Some (e\<lparr>ed_error := Some m, ed_inflight := False, ed_busy := False\<rparr>))))"
proof -
  define v where "v = fold view_handle es (notes_view_new sharing)"
  have inv: "view_inv v" unfolding v_def by (rule notes_view.run_inv) blast
  show ?thesis
  proof (cases "nv_calls v")
    case (Cons a as)
    then obtain e c where e: "nv_editor v = Some e" "nv_calls v = [(ed_id e, c)]" "call_ok e c" "ed_busy e"
        "nv_selection v = Draft (ed_note e)" "input_id (ed_draft e) = map_option note_id (ed_note e)"
      using inv by (auto simp: view_inv_def split: option.splits if_splits)
    then have "case c of
         CallSave d \<Rightarrow> d = ed_draft e \<and> dirty e \<and> input_id d = map_option note_id (ed_note e)
       | CallArchive i \<Rightarrow> map_option note_id (ed_note e) = Some i
       | CallDelete i \<Rightarrow> map_option note_id (ed_note e) = Some i"
      by (cases c) auto
    with e show ?thesis unfolding v_def [symmetric] Let_def
      by (simp add: call_done_def setSelection_def guard_end_def)
  qed (simp add: v_def [symmetric])
qed

text \<open>The search keeps the order of the notes and every note that contains the query.\<close>

lemma applySearch_blank: "toLowerCase [] = [] \<Longrightarrow> trim query = [] \<Longrightarrow> applySearch toLowerCase notes query = notes"
  by (simp add: applySearch_def)

end
