(* ===== verification/Share_Dialogs.thy ===== *)
theory Share_Dialogs
  imports Share_Client Share_Note Repo "HOL-Library.Multiset"
begin

text \<open>
  The two dialogs of the share flow (\<open>apps/web/src/share/receive-dialog.tsx\<close>, \<open>send-dialog.tsx\<close>) and
  the configuration that enables them (\<open>share-config.ts\<close>). A call into the share client
  or the repository is an event that ends it. Error texts are the keys of the message catalogue, or \<open>Untranslated\<close> for the message of any other error.
\<close>

section \<open>Errors\<close>

datatype share_text = Key string | Untranslated

fun kind_key :: "share_error_kind \<Rightarrow> string" where
  "kind_key NetworkError = ''error.network''"
| "kind_key RendezvousNotFound = ''error.rendezvousNotFound''"
| "kind_key RendezvousExpired = ''error.rendezvousExpired''"
| "kind_key CommitmentMismatch = ''error.commitmentMismatch''"
| "kind_key BlobAlreadyUploaded = ''error.blobAlreadyUploaded''"
| "kind_key BlobUnavailable = ''error.blobUnavailable''"
| "kind_key RateLimited = ''error.rateLimited''"
| "kind_key OriginDenied = ''error.originDenied''"
| "kind_key ProtocolError = ''error.protocol''"

definition describeShareError :: "share_throw \<Rightarrow> share_text" where
  "describeShareError e = (case e of Typed s \<Rightarrow> Key (kind_key (se_kind s)) | Untyped \<Rightarrow> Untranslated)"

section \<open>Receiving\<close>

datatype receive_state = RcvMinting | RcvWaiting jsstring nat | RcvReceived | RcvError share_text

text \<open>
  What a run of the effect waits for: the wasm module, the rendezvous that is minted with a handle, the share
  under a handle, or the saving of a note.
\<close>

datatype receive_step = Preparing | Minting nat | Polling nat | Saving shared_note

record receive_dialog =
  rd_state :: receive_state
  rd_closed :: bool
  rd_step :: "receive_step option"
  rd_inactive :: "receive_step list"
  rd_live :: "nat list"
  rd_freed :: "nat list"
  rd_made :: nat
  rd_delivered :: "plain_note list"

definition receive_new :: receive_dialog where
  "receive_new = \<lparr>rd_state = RcvMinting, rd_closed = False, rd_step = Some Preparing, rd_inactive = [],
     rd_live = [], rd_freed = [], rd_made = 0, rd_delivered = []\<rparr>"

definition make_handle :: "receive_dialog \<Rightarrow> receive_dialog" where
  "make_handle d = d\<lparr>rd_live := rd_live d @ [rd_made d], rd_made := Suc (rd_made d)\<rparr>"

definition free_handle :: "nat \<Rightarrow> receive_dialog \<Rightarrow> receive_dialog" where
  "free_handle h d = d\<lparr>rd_live := remove1 h (rd_live d), rd_freed := rd_freed d @ [h]\<rparr>"

datatype receive_outcome = Failed share_throw | WasmReady | Prepared jsstring | Plaintext bytes | Saved plain_note

definition receive_failed :: "share_throw \<Rightarrow> receive_dialog \<Rightarrow> receive_dialog" where
  "receive_failed e d = d\<lparr>rd_step := None, rd_state := RcvError (describeShareError e)\<rparr>"

text \<open>
  The mounted run goes on. \<open>prepareReceive\<close> makes the handle before it asks for a rendezvous and frees it if
  that fails; \<open>pollAndDecrypt\<close> frees it however it ends.
\<close>

fun active_ends :: "receive_outcome \<Rightarrow> receive_step \<Rightarrow> receive_dialog \<Rightarrow> receive_dialog" where
  "active_ends WasmReady Preparing d = (make_handle d)\<lparr>rd_step := Some (Minting (rd_made d))\<rparr>"
| "active_ends (Failed e) Preparing d = receive_failed e d"
| "active_ends (Prepared code) (Minting h) d = d\<lparr>rd_step := Some (Polling h), rd_state := RcvWaiting code h\<rparr>"
| "active_ends (Failed e) (Minting h) d = receive_failed e (free_handle h d)"
| "active_ends (Plaintext p) (Polling h) d =
     (case decodeSharedNote p of
        Inl _ \<Rightarrow> receive_failed Untyped (free_handle h d)
      | Inr n \<Rightarrow> (free_handle h d)\<lparr>rd_step := Some (Saving n)\<rparr>)"
| "active_ends (Failed e) (Polling h) d = receive_failed e (free_handle h d)"
| "active_ends (Saved m) (Saving n) d = d\<lparr>rd_step := None, rd_state := RcvReceived, rd_delivered := rd_delivered d @ [m]\<rparr>"
| "active_ends (Failed e) (Saving n) d = receive_failed e d"
| "active_ends _ _ d = d"

text \<open>
  The \<open>i\<close>-th run whose dialog is gone: it still makes its handle and asks for a rendezvous once the module is
  there, and frees the handle with the session it gets, or as \<open>prepareReceive\<close> or \<open>pollAndDecrypt\<close> fails.
\<close>

definition drop_nth :: "nat \<Rightarrow> 'a list \<Rightarrow> 'a list" where
  "drop_nth i xs = take i xs @ drop (Suc i) xs"

definition inactive_ends :: "nat \<Rightarrow> receive_outcome \<Rightarrow> receive_dialog \<Rightarrow> receive_dialog" where
  "inactive_ends i r d =
     (let gone = d\<lparr>rd_inactive := drop_nth i (rd_inactive d)\<rparr>
      in case (rd_inactive d ! i, r) of
           (Preparing, WasmReady) \<Rightarrow> (make_handle d)\<lparr>rd_inactive := (rd_inactive d)[i := Minting (rd_made d)]\<rparr>
         | (Preparing, Failed e) \<Rightarrow> gone
         | (Minting h, Prepared code) \<Rightarrow> free_handle h gone
         | (Minting h, Failed e) \<Rightarrow> free_handle h gone
         | (Polling h, Plaintext p) \<Rightarrow> free_handle h gone
         | (Polling h, Failed e) \<Rightarrow> free_handle h gone
         | (Saving n, Saved m) \<Rightarrow> gone
         | (Saving n, Failed e) \<Rightarrow> gone
         | _ \<Rightarrow> d)"

definition receive_unmount :: "receive_dialog \<Rightarrow> receive_dialog" where
  "receive_unmount d =
     d\<lparr>rd_step := None, rd_inactive := rd_inactive d @ (case rd_step d of Some s \<Rightarrow> [s] | None \<Rightarrow> [])\<rparr>"

datatype receive_event = SecondReceiveMount | CloseReceive | ActiveEnds receive_outcome | InactiveEnds nat receive_outcome

fun receive_handle :: "receive_event \<Rightarrow> receive_dialog \<Rightarrow> receive_dialog" where
  "receive_handle SecondReceiveMount d =
     (if rd_step d = Some Preparing then (receive_unmount d)\<lparr>rd_step := Some Preparing\<rparr> else d)"
| "receive_handle CloseReceive d = (receive_unmount d)\<lparr>rd_closed := True\<rparr>"
| "receive_handle (ActiveEnds r) d = (case rd_step d of Some s \<Rightarrow> active_ends r s d | None \<Rightarrow> d)"
| "receive_handle (InactiveEnds i r) d =
     (if i < length (rd_inactive d) then inactive_ends i r d else d)"

section \<open>Sending\<close>

datatype send_state = SendIdle | SendSending | SendSent | SendFailed share_text

record send_dialog =
  sd_code :: jsstring
  sd_state :: send_state
  sd_inflight :: bool
  sd_sends :: "(jsstring \<times> bytes) list"
  sd_successes :: nat

definition send_new :: send_dialog where
  "send_new = \<lparr>sd_code = [], sd_state = SendIdle, sd_inflight = False, sd_sends = [], sd_successes = 0\<rparr>"

definition submittable :: "send_dialog \<Rightarrow> bool" where
  "submittable d \<longleftrightarrow> normalizeCode (sd_code d) \<noteq> None \<and> sd_state d \<noteq> SendSending"

definition submit :: "shared_note \<Rightarrow> send_dialog \<Rightarrow> send_dialog" where
  "submit payload d =
     (if \<not> submittable d \<or> sd_inflight d then d
      else case normalizeCode (sd_code d) of
        None \<Rightarrow> d
      | Some normalized \<Rightarrow>
          d\<lparr>sd_inflight := True, sd_state := SendSending,
            sd_sends := sd_sends d @ [(normalized, encodeSharedNote payload)]\<rparr>)"

definition submit_done :: "unit share_result \<Rightarrow> send_dialog \<Rightarrow> send_dialog" where
  "submit_done r d =
     (if \<not> sd_inflight d then d
      else case r of
        Inr _ \<Rightarrow> d\<lparr>sd_inflight := False, sd_state := SendSent, sd_successes := Suc (sd_successes d)\<rparr>
      | Inl e \<Rightarrow> d\<lparr>sd_inflight := False, sd_state := SendFailed (describeShareError e)\<rparr>)"

datatype send_event = TypeCode jsstring | Submit | SendEnds "unit share_result"

text \<open>The code and the button are not rendered once the share is sent; the code is disabled while it is sent.\<close>

fun send_handle :: "shared_note \<Rightarrow> send_event \<Rightarrow> send_dialog \<Rightarrow> send_dialog" where
  "send_handle payload (TypeCode c) d =
     (if sd_state d = SendSent \<or> sd_state d = SendSending then d else d\<lparr>sd_code := c\<rparr>)"
| "send_handle payload Submit d = (if sd_state d = SendSent then d else submit payload d)"
| "send_handle payload (SendEnds r) d = submit_done r d"

section \<open>Configuration\<close>

text \<open>The base URL of the client when sharing is enabled; the first reading is kept.\<close>

definition getShareConfig :: "jsstring option \<Rightarrow> jsstring option option \<Rightarrow> jsstring option \<times> jsstring option option" where
  "getShareConfig url cached =
     (case cached of
        Some config \<Rightarrow> (config, cached)
      | None \<Rightarrow>
          (case url of
             None \<Rightarrow> (None, Some None)
           | Some [] \<Rightarrow> (None, Some None)
           | Some u \<Rightarrow> (Some (client_baseUrl u), Some (Some (client_baseUrl u)))))"

section \<open>The invariant of the receiving dialog\<close>

fun step_handles :: "receive_step \<Rightarrow> nat list" where
  "step_handles (Minting h) = [h]"
| "step_handles (Polling h) = [h]"
| "step_handles _ = []"

definition pending_steps :: "receive_dialog \<Rightarrow> receive_step list" where
  "pending_steps d = (case rd_step d of Some s \<Rightarrow> [s] | None \<Rightarrow> []) @ rd_inactive d"

definition held_handles :: "receive_dialog \<Rightarrow> nat list" where
  "held_handles d = concat (map step_handles (pending_steps d))"

fun shown_with :: "receive_state \<Rightarrow> receive_step option \<Rightarrow> bool" where
  "shown_with RcvMinting st = (st = Some Preparing \<or> (\<exists>h. st = Some (Minting h)))"
| "shown_with (RcvWaiting code h) st = (st = Some (Polling h) \<or> (\<exists>n. st = Some (Saving n)))"
| "shown_with RcvReceived st = (st = None)"
| "shown_with (RcvError e) st = (st = None)"

definition receive_inv :: "receive_dialog \<Rightarrow> bool" where
  "receive_inv d \<longleftrightarrow> ledger (rd_live d) (rd_freed d) (rd_made d) \<and>
     mset (rd_live d) = mset (held_handles d) \<and>
     (if rd_closed d then rd_step d = None else shown_with (rd_state d) (rd_step d)) \<and>
     length (rd_delivered d) = (if rd_state d = RcvReceived then 1 else 0)"

lemma receive_inv_new: "receive_inv receive_new"
  by (simp add: receive_inv_def receive_new_def held_handles_def pending_steps_def)

lemma mset_drop_nth: "i < length xs \<Longrightarrow>
    mset (concat (map f xs)) = mset (f (xs ! i)) + mset (concat (map f (drop_nth i xs)))"
  by (subst (1) id_take_nth_drop [of i xs]) (simp_all add: drop_nth_def)

lemma mset_list_update: "i < length xs \<Longrightarrow>
    mset (concat (map f (xs[i := x]))) = mset (f x) + mset (concat (map f (drop_nth i xs)))"
  by (simp add: upd_conv_take_nth_drop drop_nth_def)

lemma live_held: "receive_inv d \<Longrightarrow> set (rd_live d) = set (held_handles d)"
  by (metis receive_inv_def set_mset_mset)

lemma unmount_inv:
  assumes "receive_inv d"
  shows "receive_inv ((receive_unmount d)\<lparr>rd_closed := True\<rparr>)"
  using assms by (cases "rd_step d") (auto simp: receive_inv_def receive_unmount_def held_handles_def pending_steps_def)

lemma second_mount_inv: "receive_inv d \<Longrightarrow> receive_inv (receive_handle SecondReceiveMount d)"
  by (auto simp: receive_inv_def receive_unmount_def held_handles_def pending_steps_def)

text \<open>Freeing a held handle, when what is held afterwards is the rest.\<close>

lemma release_held:
  assumes "ledger (rd_live d) (rd_freed d) (rd_made d)" and "mset (rd_live d) = add_mset h (mset hs)"
  shows "ledger (remove1 h (rd_live d)) (rd_freed d @ [h]) (rd_made d)" and "mset (remove1 h (rd_live d)) = mset hs"
proof -
  have "h \<in> set (rd_live d)" using assms(2) by (metis set_mset_mset union_single_eq_member)
  then show "ledger (remove1 h (rd_live d)) (rd_freed d @ [h]) (rd_made d)" by (rule ledger_release [OF assms(1)])
  show "mset (remove1 h (rd_live d)) = mset hs" using assms(2) by simp
qed

lemmas receive_defs = receive_inv_def make_handle_def free_handle_def receive_failed_def held_handles_def pending_steps_def

lemma active_inv:
  assumes "receive_inv d" and "rd_step d = Some s"
  shows "receive_inv (active_ends r s d)"
proof -
  note l = assms(1) [unfolded receive_inv_def, THEN conjunct1]
  have open_d: "\<not> rd_closed d" "shown_with (rd_state d) (Some s)" "rd_state d \<noteq> RcvReceived" "rd_delivered d = []"
    using assms by (auto simp: receive_inv_def split: if_splits)
  have live: "mset (rd_live d) = mset (step_handles s @ concat (map step_handles (rd_inactive d)))"
    using assms by (simp add: receive_inv_def held_handles_def pending_steps_def)
  show ?thesis
  proof (cases s)
    case Preparing
    then have "rd_state d = RcvMinting" using open_d(2) by (cases "rd_state d") auto
    then show ?thesis using Preparing assms open_d live ledger_make [OF l] by (cases r) (simp_all add: receive_defs)
  next
    case (Minting h)
    then have "rd_state d = RcvMinting" using open_d(2) by (cases "rd_state d") auto
    then show ?thesis using Minting assms open_d live release_held [OF l] by (cases r) (simp_all add: receive_defs)
  next
    case (Polling h)
    obtain code where "rd_state d = RcvWaiting code h" using open_d(2) Polling by (cases "rd_state d") auto
    then show ?thesis using Polling assms open_d live release_held [OF l]
      by (cases r) (simp_all add: receive_defs split: sum.splits)
  next
    case (Saving n)
    then show ?thesis using assms open_d live by (cases r) (simp_all add: receive_defs)
  qed
qed

lemma inactive_inv:
  assumes "receive_inv d" and "i < length (rd_inactive d)"
  shows "receive_inv (receive_handle (InactiveEnds i r) d)"
proof -
  let ?rest = "held_handles (d\<lparr>rd_inactive := drop_nth i (rd_inactive d)\<rparr>)"
  note l = assms(1) [unfolded receive_inv_def, THEN conjunct1]
  have live: "mset (rd_live d) = mset (step_handles (rd_inactive d ! i)) + mset ?rest"
    using assms mset_drop_nth [OF assms(2), of step_handles]
    by (simp add: receive_inv_def held_handles_def pending_steps_def)
  have handle: "receive_handle (InactiveEnds i r) d = inactive_ends i r d" using assms(2) by simp
  note cases = inactive_ends_def Let_def receive_defs
  show ?thesis
  proof (cases "rd_inactive d ! i")
    case Preparing
    then show ?thesis using assms live ledger_make [OF l] mset_list_update [OF assms(2), of step_handles] unfolding handle
      by (cases r) (simp_all add: cases)
  next
    case (Minting h)
    then have "mset (rd_live d) = add_mset h (mset ?rest)" using live by simp
    note free = release_held [OF l this]
    then show ?thesis using assms Minting unfolding handle by (cases r) (simp_all add: cases)
  next
    case (Polling h)
    then have "mset (rd_live d) = add_mset h (mset ?rest)" using live by simp
    note free = release_held [OF l this]
    then show ?thesis using assms Polling unfolding handle by (cases r) (simp_all add: cases)
  next
    case (Saving n)
    then show ?thesis using assms live unfolding handle by (cases r) (simp_all add: cases)
  qed
qed

interpretation receive_dialog: event_invariant "\<lambda>d. d = receive_new" receive_handle receive_inv
proof (unfold_locales, goal_cases)
  case (2 d e)
  then show ?case
    using unmount_inv second_mount_inv active_inv inactive_inv
    by (cases e) (auto split: option.splits)
qed (simp add: receive_inv_new)

text \<open>
  C23: the receiving dialog keeps its keys and its user straight. Whatever fails, whenever the dialog is
  closed and however often React mounts it: the recipient handles that are not freed are exactly those
  a rendezvous is being minted with or a share polled with, each freed once, so none is left when nothing is
  pending; an open dialog shows the code or a spinner exactly while its run is at work, and the code it waits
  with is that of the handle it polls; and a note is delivered at most once, exactly when the dialog says so.
\<close>

theorem receive_dialog_sessions:
  "let d = fold receive_handle es receive_new in
   distinct (rd_freed d @ rd_live d) \<and> set (rd_freed d @ rd_live d) = {..<rd_made d} \<and>
   set (rd_live d) = set (held_handles d) \<and>
   (if rd_closed d then rd_step d = None else shown_with (rd_state d) (rd_step d)) \<and>
   length (rd_delivered d) = (if rd_state d = RcvReceived then 1 else 0)"
proof -
  have "receive_inv (fold receive_handle es receive_new)" by (rule receive_dialog.run_inv) (rule refl)
  note this live_held [OF this]
  then show ?thesis unfolding Let_def receive_inv_def ledger_def by blast
qed

section \<open>The invariant of the sending dialog\<close>

definition send_inv :: "shared_note \<Rightarrow> send_dialog \<Rightarrow> bool" where
  "send_inv payload d \<longleftrightarrow>
     (sd_inflight d \<longleftrightarrow> sd_state d = SendSending) \<and> sd_successes d = (if sd_state d = SendSent then 1 else 0) \<and>
     list_all (\<lambda>(code, b). matches_code code \<and> b = encodeSharedNote payload) (sd_sends d)"

interpretation send_dialog: event_invariant "\<lambda>d. d = send_new" "send_handle payload" "send_inv payload" for payload
proof (unfold_locales, goal_cases)
  case (2 d e)
  then show ?case
    by (cases e) (auto simp: send_inv_def submit_def submittable_def submit_done_def normalize_matches
        split: option.splits sum.splits)
qed (simp add: send_inv_def send_new_def)

text \<open>
  One share is sent at a time, only to a well-formed code, with the encoded note, and not again after it
  has been sent.
\<close>

lemma send_dialog_sends_once:
  "send_inv payload (fold (send_handle payload) es send_new)"
  by (rule send_dialog.run_inv) (rule refl)

lemma describeShareError_distinguishes: "kind_key k = kind_key k' \<longleftrightarrow> k = k'"
  by (cases k; cases k') simp_all

lemma getShareConfig_memoised:
  "getShareConfig url' (snd (getShareConfig url cached)) = (fst (getShareConfig url cached), snd (getShareConfig url cached))"
  by (auto simp: getShareConfig_def split: option.splits list.splits)

end
