(* ===== verification/Note_Card.thy ===== *)
theory Note_Card
  imports Markdown Repo
begin

text \<open>
  The cards of the note list (\<open>apps/web/src/notes/note-card.tsx\<close>) and their day labels
  (\<open>format-day.ts\<close>). Calendar years are those of the language's date algorithms; the locale's rendering of
  a date is a parameter.
\<close>

section \<open>Title and excerpt\<close>

definition EXCERPT_LEN :: nat where "EXCERPT_LEN = 140"

definition trimEnd :: "jsstring \<Rightarrow> jsstring" where
  "trimEnd s = rev (dropWhile js_space (rev s))"

definition deriveTitle :: "(jsstring \<Rightarrow> jsstring) \<Rightarrow> plain_note \<Rightarrow> jsstring \<Rightarrow> jsstring" where
  "deriveTitle strip n fallback =
     (let trimmed = trim (note_title n)
      in if trimmed \<noteq> [] then trimmed
         else let firstLine = strip (hd (split_unit 10 (note_body n)))
              in if firstLine \<noteq> [] then firstLine else fallback)"

definition excerpt :: "(jsstring \<Rightarrow> jsstring) \<Rightarrow> plain_note \<Rightarrow> jsstring" where
  "excerpt strip n =
     (let body = strip (note_body n)
      in if body = [] then []
         else if length body \<le> EXCERPT_LEN then body
         else trimEnd (take EXCERPT_LEN body) @ [0x2026])"

section \<open>Day labels\<close>

definition unixDay :: "int \<Rightarrow> int" where
  "unixDay epochMs = epochMs div 1000 div SECONDS_PER_DAY"

definition day_from_year :: "int \<Rightarrow> int" where
  "day_from_year y = 365 * (y - 1970) + (y - 1969) div 4 - (y - 1901) div 100 + (y - 1601) div 400"

text \<open>
  \<open>getUTCFullYear\<close> of a day: the year whose first day is the last one not after it, found from the mean
  length of a year; \<open>None\<close> is the \<open>NaN\<close> of a date out of range.
\<close>

definition year_of_day :: "int \<Rightarrow> int" where
  "year_of_day d =
     (let y = 1970 + d * 400 div 146097
      in if d < day_from_year y then y - 1 else if day_from_year (y + 1) \<le> d then y + 1 else y)"

definition getUTCFullYear :: "int \<Rightarrow> int option" where
  "getUTCFullYear d = (if \<bar>d\<bar> \<le> 100000000 then Some (year_of_day d) else None)"

datatype day_label = Today | Yesterday | DaysAgo int | OnDate int bool

definition formatDayBucket :: "int \<Rightarrow> int \<Rightarrow> day_label" where
  "formatDayBucket day now =
     (let today = unixDay now; delta = today - day
      in if delta \<le> 0 then Today
         else if delta = 1 then Yesterday
         else if delta < 7 then DaysAgo delta
         else OnDate day (case (getUTCFullYear day, getUTCFullYear today) of
             (Some a, Some b) \<Rightarrow> a \<noteq> b | _ \<Rightarrow> True))"

lemma year_low: "4 * a \<le> (y::int) \<Longrightarrow> y - 31 \<le> 100 * b \<Longrightarrow> 400 * c \<le> y + 368 \<Longrightarrow> 146097 * y \<le> d * 400 \<Longrightarrow>
 365 * (y - 1) + a - b + c \<le> d"
proof -
  assume h: "4 * a \<le> (y::int)" "y - 31 \<le> 100 * b" "400 * c \<le> y + 368" "146097 * y \<le> d * 400"
  have "400 * a \<le> 100 * y" using h(1) by linarith
  moreover have "4 * y - 124 \<le> 400 * b" using h(2) by linarith
  ultimately have 1: "400 * a - 400 * b + 400 * c \<le> 97 * y + 492" using h(3) by linarith
  have 2: "400 * (365 * (y - 1) + a - b + c) = 146000 * y - 146000 + (400 * a - 400 * b + 400 * c)" by (simp add: algebra_simps)
  have "400 * (365 * (y - 1) + a - b + c) \<le> 400 * d" unfolding 2 using 1 h(4) by linarith
  then show ?thesis by simp
qed

lemma year_high: "(y::int) \<le> 4 * a \<Longrightarrow> 100 * b \<le> y + 71 \<Longrightarrow> y - 28 \<le> 400 * c \<Longrightarrow> d * 400 < 146097 * y + 146097 \<Longrightarrow>
 d < 365 * (y + 2) + a - b + c"
proof -
  assume h: "(y::int) \<le> 4 * a" "100 * b \<le> y + 71" "y - 28 \<le> 400 * c" "d * 400 < 146097 * y + 146097"
  have "100 * y \<le> 400 * a" using h(1) by linarith
  moreover have "400 * b \<le> 4 * y + 284" using h(2) by linarith
  ultimately have 1: "97 * y - 312 \<le> 400 * a - 400 * b + 400 * c" using h(3) by linarith
  have 2: "400 * (365 * (y + 2) + a - b + c) = 146000 * y + 292000 + (400 * a - 400 * b + 400 * c)" by (simp add: algebra_simps)
  have "400 * d < 400 * (365 * (y + 2) + a - b + c)" unfolding 2 using 1 h(4) by linarith
  then show ?thesis by simp
qed

lemma year_bounds:
  "day_from_year (1970 + d * 400 div 146097 - 1) \<le> d" "d < day_from_year (1970 + d * 400 div 146097 + 2)"
proof -
  define y where "y = d * 400 div 146097"
  define a b c where "a = y div 4" and "b = (y + 68) div 100" and "c = (y + 368) div 400"
  define a' b' c' where "a' = (y + 3) div 4" and "b' = (y + 71) div 100" and "c' = (y + 371) div 400"
  have y: "146097 * y \<le> d * 400" "d * 400 < 146097 * y + 146097" unfolding y_def by linarith+
  have low: "4 * a \<le> y" "y - 31 \<le> 100 * b" "400 * c \<le> y + 368"
    unfolding a_def b_def c_def by linarith+
  have high: "y \<le> 4 * a'" "100 * b' \<le> y + 71" "y - 28 \<le> 400 * c'"
    unfolding a'_def b'_def c'_def by linarith+
  have "day_from_year (1970 + y - 1) = 365 * (y - 1) + a - b + c"
    by (simp add: day_from_year_def algebra_simps a_def b_def c_def)
  with year_low [OF low y(1)] show "day_from_year (1970 + d * 400 div 146097 - 1) \<le> d" unfolding y_def by simp
  have "day_from_year (1970 + y + 2) = 365 * (y + 2) + a' - b' + c'"
    by (simp add: day_from_year_def algebra_simps a'_def b'_def c'_def)
  with year_high [OF high y(2)] show "d < day_from_year (1970 + d * 400 div 146097 + 2)" unfolding y_def by simp
qed

lemma year_of_day_correct: "day_from_year (year_of_day d) \<le> d \<and> d < day_from_year (year_of_day d + 1)"
  using year_bounds [of d] by (auto simp: year_of_day_def Let_def)

section \<open>Properties\<close>

definition one_line :: "jsstring \<Rightarrow> bool" where
  "one_line s \<longleftrightarrow> (\<forall>c \<in> set s. js_space c \<longrightarrow> c = 0x20)"

text \<open>The preview as the cards call it: the cached function returns this value (\<open>strip_call\<close>).\<close>

definition preview :: "(jsstring \<Rightarrow> 'a mdast) \<Rightarrow> ('a mdast \<Rightarrow> jsstring) \<Rightarrow> jsstring \<Rightarrow> jsstring" where
  "preview parse toString s = (if s = [] then [] else stripMarkdownUncached parse toString s)"

lemma join_space_units: "c \<in> set (join_space ws) \<Longrightarrow> c = 0x20 \<or> (\<exists>w \<in> set ws. c \<in> set w)"
  by (induction ws rule: join_space.induct) auto

lemma preview_one_line: "one_line (preview parse toString s)"
proof -
  have "\<not> js_space c" if "w \<in> set (concat (map js_words ss))" "c \<in> set w" for c w ss
    using that js_words_units by auto
  then show ?thesis
    unfolding one_line_def preview_def stripMarkdownUncached_words by (auto dest: join_space_units)
qed

lemma trimEnd_prefix: "\<exists>t. s = trimEnd s @ t"
  unfolding trimEnd_def by (metis rev_append rev_rev_ident takeWhile_dropWhile_id)

lemma trimEnd_length: "length (trimEnd s) \<le> length s"
  unfolding trimEnd_def by (metis length_dropWhile_le length_rev)

text \<open>
  What a card shows. The excerpt is one line of at most 141 characters, and what stands before its
  ellipsis is the beginning of the preview of the body, all of it when it is short; the title is never
  empty when the fallback is not; and the label of a day says today, yesterday or the days of the last
  week, and otherwise names the day, with the year unless it is the current one.
\<close>

theorem note_card_shows:
  "(let e = excerpt (preview parse toString) n; p = preview parse toString (note_body n) in
      length e \<le> 141 \<and> one_line e \<and>
      (if length p \<le> 140 then e = p else \<exists>t rest. e = t @ [0x2026] \<and> p = t @ rest)) \<and>
   (case deriveTitle (preview parse toString) n (c # cs) of [] \<Rightarrow> False | _ \<Rightarrow> True) \<and>
   (case formatDayBucket day now of
      Today \<Rightarrow> unixDay now \<le> day
    | Yesterday \<Rightarrow> unixDay now = day + 1
    | DaysAgo k \<Rightarrow> unixDay now = day + k \<and> 2 \<le> k \<and> k \<le> 6
    | OnDate d shown \<Rightarrow> d = day \<and> day + 7 \<le> unixDay now \<and>
        (\<not> shown \<longleftrightarrow> (\<exists>y. getUTCFullYear day = Some y \<and> getUTCFullYear (unixDay now) = Some y)))"
proof -
  define p where "p = preview parse toString (note_body n)"
  have line: "one_line p" unfolding p_def by (rule preview_one_line)
  obtain t where t: "take 140 p = trimEnd (take 140 p) @ t" using trimEnd_prefix by blast
  then have split: "p = trimEnd (take 140 p) @ t @ drop 140 p" by (metis append.assoc append_take_drop_id)
  then have "set (trimEnd (take 140 p)) \<subseteq> set p" by (metis Un_upper1 set_append)
  moreover have "\<not> js_space 0x2026" by (simp add: js_space_def)
  ultimately have long: "one_line (trimEnd (take 140 p) @ [0x2026])" using line by (auto simp: one_line_def)
  have e: "excerpt (preview parse toString) n = (if length p \<le> 140 then p else trimEnd (take 140 p) @ [0x2026])"
    by (auto simp: excerpt_def Let_def EXCERPT_LEN_def p_def)
  have "length (trimEnd (take 140 p)) \<le> 140" using trimEnd_length [of "take 140 p"] by simp
  then have "length (excerpt (preview parse toString) n) \<le> 141" unfolding e by simp
  moreover have "one_line (excerpt (preview parse toString) n)" unfolding e using line long by simp
  moreover have "if length p \<le> 140 then excerpt (preview parse toString) n = p
      else \<exists>t rest. excerpt (preview parse toString) n = t @ [0x2026] \<and> p = t @ rest"
    unfolding e using split by auto
  moreover have "deriveTitle (preview parse toString) n (c # cs) \<noteq> []"
    by (simp add: deriveTitle_def Let_def)
  moreover have "case formatDayBucket day now of
      Today \<Rightarrow> unixDay now \<le> day
    | Yesterday \<Rightarrow> unixDay now = day + 1
    | DaysAgo k \<Rightarrow> unixDay now = day + k \<and> 2 \<le> k \<and> k \<le> 6
    | OnDate d shown \<Rightarrow> d = day \<and> day + 7 \<le> unixDay now \<and>
        (\<not> shown \<longleftrightarrow> (\<exists>y. getUTCFullYear day = Some y \<and> getUTCFullYear (unixDay now) = Some y))"
    by (auto simp: formatDayBucket_def Let_def split: option.splits)
  ultimately show ?thesis unfolding Let_def p_def [symmetric] by (auto split: list.splits)
qed

text \<open>Cutting at 140 code units can cut a character in two: the excerpt then ends in half a surrogate pair.\<close>

lemma collapse_no_space: "list_all (\<lambda>c. \<not> js_space c) s \<Longrightarrow> collapse_spaces s = s"
  by (induction s) auto

lemma dropWhile_no_space: "list_all (\<lambda>c. \<not> js_space c) s \<Longrightarrow> dropWhile js_space s = s"
  by (cases s) auto

lemma preview_no_space:
  assumes "list_all (\<lambda>c. \<not> js_space c) s"
  shows "preview (Mdast ''paragraph'' []) md_data s = s"
  using assms collapse_no_space [OF assms] dropWhile_no_space [OF assms] dropWhile_no_space [of "rev s"]
  by (simp add: preview_def stripMarkdownUncached_def text_segment_def trim_def list_all_iff)

lemma well_formed_letter: "well_formed (97 # s) = well_formed s"
  by (cases s) (simp_all add: high_surrogate_def low_surrogate_def)

lemma well_formed_letters: "well_formed (replicate n 97 @ s) = well_formed s"
  by (induction n) (simp_all add: well_formed_letter del: well_formed.simps)

lemma excerpt_splits_pair:
  "\<exists>n. well_formed (note_body n) \<and> \<not> well_formed (excerpt (preview (Mdast ''paragraph'' []) md_data) n)"
proof -
  let ?body = "replicate 139 97 @ [0xD83D, 0xDE00, 97] :: jsstring"
  let ?n = "\<lparr>note_id = [], note_title = [], note_body = ?body, note_updatedDay = 0, note_archived = False\<rparr>"
  have "list_all (\<lambda>c. \<not> js_space c) ?body" by (simp add: js_space_def list_all_iff)
  moreover have cut: "trimEnd (take 140 ?body) = replicate 139 97 @ [0xD83D]"
    by (simp add: trimEnd_def js_space_def)
  ultimately have "excerpt (preview (Mdast ''paragraph'' []) md_data) ?n = replicate 139 97 @ [0xD83D, 0x2026]"
    using cut by (simp only: excerpt_def preview_no_space EXCERPT_LEN_def plain_note.select_convs Let_def) simp
  moreover have "well_formed ?body \<and> \<not> well_formed (replicate 139 97 @ [0xD83D, 0x2026])"
    unfolding well_formed_letters by (simp add: high_surrogate_def low_surrogate_def)
  ultimately show ?thesis by (intro exI [of _ ?n]) simp
qed

end
