(* ===== verification/Live_Update.thy ===== *)
theory Live_Update
  imports Notes_Store
begin

text \<open>
  The notification channel (\<open>packages/storage/src/multi-tab.ts\<close>) between the storage worker and the notes
  stores of all tabs. The world keeps the history of the notes table, so that a reload, which reads its
  pages while other tabs write, can see each page in any table since it began, and any of its requests may
  be rejected, as when the leading tab fails. A broadcast is queued for
  every open channel and delivered in order; a tab's own request is one of the worker's requests.
\<close>

section \<open>The channel\<close>

record 'e live_world =
  lw_hasBroadcastChannel :: bool
  lw_tables :: "note_table list"
  lw_subscribers :: "nat list"
  lw_inbox :: "nat \<Rightarrow> tx_applied list"
  lw_stores :: "nat \<Rightarrow> 'e notes_store option"
  lw_begun :: "nat \<Rightarrow> nat \<Rightarrow> nat"
  lw_rejected :: "nat \<Rightarrow> (nat \<times> 'e repo_error) list"

definition live_start :: "bool \<Rightarrow> note_table \<Rightarrow> 'e live_world" where
  "live_start bc t =
     \<lparr>lw_hasBroadcastChannel = bc, lw_tables = [t], lw_subscribers = [], lw_inbox = (\<lambda>_. []),
      lw_stores = Map.empty, lw_begun = (\<lambda>_ _. 0), lw_rejected = (\<lambda>_. [])\<rparr>"

text \<open>\<open>makeTxBroadcaster().broadcast\<close>, for each notification in turn.\<close>

definition tx_broadcast :: "tx_applied list \<Rightarrow> 'e live_world \<Rightarrow> 'e live_world" where
  "tx_broadcast notes w =
     (if \<not> lw_hasBroadcastChannel w then w
      else w\<lparr>lw_inbox := (\<lambda>i. if i \<in> set (lw_subscribers w) then lw_inbox w i @ notes else lw_inbox w i)\<rparr>)"

definition subscribeTxApplied :: "nat \<Rightarrow> 'e live_world \<Rightarrow> 'e live_world" where
  "subscribeTxApplied i w =
     (if \<not> lw_hasBroadcastChannel w then w
      else w\<lparr>lw_subscribers := i # lw_subscribers w, lw_inbox := (lw_inbox w)(i := [])\<rparr>)"

definition unsubscribeTxApplied :: "nat \<Rightarrow> 'e live_world \<Rightarrow> 'e live_world" where
  "unsubscribeTxApplied i w =
     (if \<not> lw_hasBroadcastChannel w then w
      else w\<lparr>lw_subscribers := removeAll i (lw_subscribers w), lw_inbox := (lw_inbox w)(i := [])\<rparr>)"

section \<open>Tabs\<close>

text \<open>A store after an operation; a reload that the operation began is marked with the present table.\<close>

definition put_store :: "nat \<Rightarrow> nat \<Rightarrow> 'e notes_store \<Rightarrow> 'e live_world \<Rightarrow> 'e live_world" where
  "put_store i old st w =
     w\<lparr>lw_stores := (lw_stores w)(i \<mapsto> st),
       lw_begun := (if ns_generation st = old then lw_begun w
         else (lw_begun w)(i := (lw_begun w i)(ns_generation st := length (lw_tables w) - 1)))\<rparr>"

definition on_store :: "nat \<Rightarrow> ('e notes_store \<Rightarrow> 'e notes_store) \<Rightarrow> 'e live_world \<Rightarrow> 'e live_world" where
  "on_store i f w =
     (case lw_stores w i of None \<Rightarrow> w | Some st \<Rightarrow> put_store i (ns_generation st) (f st) w)"

definition seen_table :: "nat \<Rightarrow> nat \<Rightarrow> nat \<Rightarrow> nat" where
  "seen_table begun present n = min (max begun n) present"

text \<open>The rejections that ended reloads of a tab since it opened, by the generation of the reload.\<close>

definition note_rejection :: "nat \<Rightarrow> nat \<times> bool \<Rightarrow> (nat \<times> 'e repo_error) option \<Rightarrow> 'e live_world \<Rightarrow> 'e live_world" where
  "note_rejection i r rejected w =
     (case (lw_stores w i, rejected) of
        (Some st, Some (k, e)) \<Rightarrow>
          if r \<in> set (ns_reloads st)
          then w\<lparr>lw_rejected := (lw_rejected w)(i := lw_rejected w i @ [(fst r, e)])\<rparr> else w
      | _ \<Rightarrow> w)"

datatype 'e live_event =
    Requested worker_request
  | OpenTab nat
  | CloseTab nat
  | Deliver nat
  | Toggle nat bool
  | Reload nat
  | ReloadEnds nat "nat \<times> bool" "nat \<Rightarrow> nat" "(nat \<times> 'e repo_error) option"

fun live_handle :: "'e vault \<Rightarrow> 'e live_event \<Rightarrow> 'e live_world \<Rightarrow> 'e live_world" where
  "live_handle vault (Requested req) w =
     (case handle req (last (lw_tables w)) of
        (t, tx, result) \<Rightarrow> tx_broadcast tx (w\<lparr>lw_tables := lw_tables w @ [t]\<rparr>))"
| "live_handle vault (OpenTab i) w =
     (case lw_stores w i of
        Some _ \<Rightarrow> w
      | None \<Rightarrow> put_store i 0 createNotesStore
          ((subscribeTxApplied i w)\<lparr>lw_rejected := (lw_rejected w)(i := [])\<rparr>))"
| "live_handle vault (CloseTab i) w = unsubscribeTxApplied i (w\<lparr>lw_stores := (lw_stores w)(i := None)\<rparr>)"
| "live_handle vault (Deliver i) w =
     (case lw_inbox w i of
        [] \<Rightarrow> w
      | n # rest \<Rightarrow> on_store i (on_tx_applied n) (w\<lparr>lw_inbox := (lw_inbox w)(i := rest)\<rparr>))"
| "live_handle vault (Toggle i b) w = on_store i (setShowArchived b) w"
| "live_handle vault (Reload i) w = on_store i reload w"
| "live_handle vault (ReloadEnds i r pages rejected) w =
     on_store i (reload_done r (loadAllNotes (rejecting rejected (\<lambda>p. store_page vault (snd r)
       (lw_tables w ! seen_table (lw_begun w i (fst r)) (length (lw_tables w) - 1) (pages p))))))
       (note_rejection i r rejected w)"

section \<open>The invariant\<close>

definition of_load :: "'e repo_error load_error + plain_note list \<Rightarrow> 'e notes_state" where
  "of_load r = (case r of Inr ns \<Rightarrow> Ready ns | Inl e \<Rightarrow> LoadFailed e)"

definition fresh_since :: "'e live_world \<Rightarrow> nat \<Rightarrow> nat \<Rightarrow> bool" where
  "fresh_since w i k \<longleftrightarrow> k < length (lw_tables w) \<and>
     (lw_inbox w i = [] \<longrightarrow> (\<forall>j. k \<le> j \<longrightarrow> j < length (lw_tables w) \<longrightarrow> lw_tables w ! j = last (lw_tables w)))"

definition loaded_since ::
  "'e vault \<Rightarrow> note_table list \<Rightarrow> nat \<Rightarrow> (nat \<times> 'e repo_error) list \<Rightarrow> 'e notes_store \<Rightarrow> bool" where
  "loaded_since vault ts k rejections st \<longleftrightarrow>
     (ns_generation st, ns_showArchived st) \<in> set (ns_reloads st) \<or>
     (\<exists>seen rejected. (\<forall>p. k \<le> seen p \<and> seen p < length ts) \<and>
        (\<forall>q e. rejected = Some (q, e) \<longrightarrow> (ns_generation st, e) \<in> set rejections) \<and>
        ns_state st = of_load (loadAllNotes
          (rejecting rejected (\<lambda>p. store_page vault (ns_showArchived st) (ts ! seen p)))))"

definition tab_ok :: "'e vault \<Rightarrow> 'e live_world \<Rightarrow> nat \<Rightarrow> 'e notes_store \<Rightarrow> bool" where
  "tab_ok vault w i st \<longleftrightarrow> store_inv st \<and> i \<in> set (lw_subscribers w) \<and>
     fresh_since w i (lw_begun w i (ns_generation st)) \<and>
     loaded_since vault (lw_tables w) (lw_begun w i (ns_generation st)) (lw_rejected w i) st"

definition live_inv :: "'e vault \<Rightarrow> 'e live_world \<Rightarrow> bool" where
  "live_inv vault w \<longleftrightarrow> lw_hasBroadcastChannel w \<and> lw_tables w \<noteq> [] \<and> (\<forall>t \<in> set (lw_tables w). table_inv t) \<and>
     (\<forall>i st. lw_stores w i = Some st \<longrightarrow> tab_ok vault w i st)"

lemma loaded_since_reload: "loaded_since vault ts k rej (reload s)" "loaded_since vault ts k rej createNotesStore"
  by (simp_all add: loaded_since_def reload_def createNotesStore_def Let_def)

lemma loaded_since_append:
  assumes "loaded_since vault ts k rej st"
  shows "loaded_since vault (ts @ [t]) k rej st"
proof (cases "(ns_generation st, ns_showArchived st) \<in> set (ns_reloads st)")
  case False
  then obtain seen rejected where seen: "\<And>p. k \<le> seen p \<and> seen p < length ts"
      "\<And>q e. rejected = Some (q, e) \<Longrightarrow> (ns_generation st, e) \<in> set rej"
      "ns_state st = of_load (loadAllNotes (rejecting rejected (\<lambda>p. store_page vault (ns_showArchived st) (ts ! seen p))))"
    using assms unfolding loaded_since_def by blast
  have "(ts @ [t]) ! seen p = ts ! seen p" "seen p < length (ts @ [t])" for p
    using seen(1) [of p] by (simp_all add: nth_append)
  with seen show ?thesis unfolding loaded_since_def by (intro disjI2 exI [of _ seen] exI [of _ rejected]) simp
qed (simp add: loaded_since_def)

lemma loaded_since_more:
  "loaded_since vault ts k rej st \<Longrightarrow> set rej \<subseteq> set rej' \<Longrightarrow> loaded_since vault ts k rej' st"
  unfolding loaded_since_def by blast

lemma fresh_now:
  assumes "lw_tables w \<noteq> []"
  shows "fresh_since w i (length (lw_tables w) - 1)"
proof -
  have "j = length (lw_tables w) - 1" if "length (lw_tables w) - 1 \<le> j" "j < length (lw_tables w)" for j
    using that by linarith
  then show ?thesis using assms by (auto simp: fresh_since_def last_conv_nth)
qed

lemma seen_bounds: "b < n \<Longrightarrow> b \<le> seen_table b (n - 1) p \<and> seen_table b (n - 1) p < n"
  by (auto simp: seen_table_def)

lemma reload_done_loaded:
  assumes "store_inv st" and "loaded_since vault ts k rej st" and "k < length ts" and "k = begun (ns_generation st)"
    and "set rej \<subseteq> set rej'"
    and "\<And>q e. r \<in> set (ns_reloads st) \<Longrightarrow> rejected = Some (q, e) \<Longrightarrow> (fst r, e) \<in> set rej'"
  shows "loaded_since vault ts k rej' (reload_done r (loadAllNotes (rejecting rejected (\<lambda>p. store_page vault (snd r)
    (ts ! seen_table (begun (fst r)) (length ts - 1) (pages p))))) st)"
proof -
  have old: "loaded_since vault ts k rej' st" by (rule loaded_since_more [OF assms(2,5)])
  show ?thesis
  proof (cases "r \<in> set (ns_reloads st)")
    case mem: True
    show ?thesis
    proof (cases "fst r = ns_generation st")
      case True
      then have "snd r = ns_showArchived st" using latest_flag [OF assms(1), of "snd r"] mem by (metis prod.collapse)
      moreover have "\<forall>p. k \<le> seen_table k (length ts - 1) (pages p) \<and> seen_table k (length ts - 1) (pages p) < length ts"
        using seen_bounds [OF assms(3)] by blast
      ultimately show ?thesis using mem True assms(4) assms(6) [OF mem]
        by (auto simp: reload_done_def isLatest_def loaded_since_def of_load_def
            intro!: exI [of _ "\<lambda>p. seen_table k (length ts - 1) (pages p)"] exI [of _ rejected])
    next
      case False
      then have "r \<noteq> (ns_generation st, ns_showArchived st)" by auto
      then show ?thesis using mem False old
        by (auto simp: reload_done_def isLatest_def loaded_since_def)
    qed
  qed (use old in \<open>simp add: reload_done_def\<close>)
qed

lemma reload_done_generation [simp]: "ns_generation (reload_done r result st) = ns_generation st"
  by (simp add: reload_done_def Let_def)

section \<open>Every event keeps the invariant\<close>

lemma put_store_simps [simp]:
  "lw_tables (put_store i old st w) = lw_tables w" "lw_subscribers (put_store i old st w) = lw_subscribers w"
  "lw_inbox (put_store i old st w) = lw_inbox w" "lw_hasBroadcastChannel (put_store i old st w) = lw_hasBroadcastChannel w"
  "lw_stores (put_store i old st w) = (lw_stores w)(i \<mapsto> st)"
  "lw_rejected (put_store i old st w) = lw_rejected w"
  "j \<noteq> i \<Longrightarrow> lw_begun (put_store i old st w) j = lw_begun w j"
  by (simp_all add: put_store_def)

lemma tab_ok_frame:
  assumes "tab_ok vault w j st" and "lw_tables w' = lw_tables w" and "lw_inbox w' j = lw_inbox w j"
    and "lw_begun w' j = lw_begun w j" and "lw_rejected w' j = lw_rejected w j" and "j \<in> set (lw_subscribers w')"
  shows "tab_ok vault w' j st"
  using assms by (simp add: tab_ok_def fresh_since_def)

text \<open>An operation that begins a reload, and one that does not.\<close>

lemma put_began:
  assumes "lw_tables w \<noteq> []" and "i \<in> set (lw_subscribers w)" and "store_inv st"
    and "ns_generation st \<noteq> old" and "\<And>k. loaded_since vault (lw_tables w) k (lw_rejected w i) st"
  shows "tab_ok vault (put_store i old st w) i st"
proof -
  have "lw_begun (put_store i old st w) i (ns_generation st) = length (lw_tables w) - 1"
    using assms(4) by (simp add: put_store_def)
  moreover have "fresh_since (put_store i old st w) i (length (lw_tables w) - 1)"
    using fresh_now [OF assms(1), of i] by (simp add: fresh_since_def)
  ultimately show ?thesis using assms by (simp add: tab_ok_def)
qed

lemma put_same:
  assumes "tab_ok vault w i st" and "store_inv st'" and "ns_generation st' = ns_generation st"
    and "loaded_since vault (lw_tables w) (lw_begun w i (ns_generation st)) (lw_rejected w i) st'"
  shows "tab_ok vault (put_store i (ns_generation st) st' w) i st'"
  using assms by (simp add: tab_ok_def fresh_since_def put_store_def)

lemma live_inv_put:
  assumes "live_inv vault w" and "tab_ok vault (put_store i old st w) i st"
  shows "live_inv vault (put_store i old st w)"
proof -
  have "tab_ok vault (put_store i old st w) j st'" if "j \<noteq> i" "lw_stores w j = Some st'" for j st'
    by (rule tab_ok_frame [of vault w]) (use assms(1) that in \<open>auto simp: live_inv_def tab_ok_def\<close>)
  with assms show ?thesis by (auto simp: live_inv_def)
qed

lemma live_reload:
  assumes "live_inv vault w" and "lw_stores w i = Some st"
  shows "tab_ok vault (put_store i (ns_generation st) (reload st) w) i (reload st)"
    and "tab_ok vault (put_store i (ns_generation st) (reload (st\<lparr>ns_showArchived := b\<rparr>)) w) i (reload (st\<lparr>ns_showArchived := b\<rparr>))"
proof -
  have w: "lw_tables w \<noteq> []" "i \<in> set (lw_subscribers w)" "store_inv st"
    using assms by (auto simp: live_inv_def tab_ok_def)
  have gen: "ns_generation (reload st) \<noteq> ns_generation st"
      "ns_generation (reload (st\<lparr>ns_showArchived := b\<rparr>)) \<noteq> ns_generation st"
    by (simp_all add: reload_def)
  show "tab_ok vault (put_store i (ns_generation st) (reload st) w) i (reload st)"
    by (rule put_began [OF w(1,2) reload_inv(1) [OF w(3)] gen(1) loaded_since_reload(1)])
  show "tab_ok vault (put_store i (ns_generation st) (reload (st\<lparr>ns_showArchived := b\<rparr>)) w) i (reload (st\<lparr>ns_showArchived := b\<rparr>))"
    by (rule put_began [OF w(1,2) reload_inv(2) [OF w(3)] gen(2) loaded_since_reload(1)])
qed

lemma live_toggle:
  assumes "live_inv vault w"
  shows "live_inv vault (on_store i (setShowArchived b) w)"
proof (cases "lw_stores w i")
  case (Some st)
  have "tab_ok vault w i st" using assms Some by (simp add: live_inv_def)
  then have "tab_ok vault (put_store i (ns_generation st) st w) i st"
    by (rule put_same) (use \<open>tab_ok vault w i st\<close> in \<open>auto simp: tab_ok_def\<close>)
  then show ?thesis using live_inv_put [OF assms] live_reload(2) [OF assms Some] Some
    by (simp add: on_store_def setShowArchived_def)
qed (use assms in \<open>simp add: on_store_def\<close>)

lemma note_rejection_simps [simp]:
  "lw_tables (note_rejection i r rejected w) = lw_tables w" "lw_subscribers (note_rejection i r rejected w) = lw_subscribers w"
  "lw_inbox (note_rejection i r rejected w) = lw_inbox w" "lw_stores (note_rejection i r rejected w) = lw_stores w"
  "lw_hasBroadcastChannel (note_rejection i r rejected w) = lw_hasBroadcastChannel w"
  "lw_begun (note_rejection i r rejected w) = lw_begun w"
  "set (lw_rejected w j) \<subseteq> set (lw_rejected (note_rejection i r rejected w) j)"
  by (auto simp: note_rejection_def split: option.splits)

lemma note_rejection_noted:
  "lw_stores w i = Some st \<Longrightarrow> r \<in> set (ns_reloads st) \<Longrightarrow>
   (fst r, e) \<in> set (lw_rejected (note_rejection i r (Some (q, e)) w) i)"
  by (simp add: note_rejection_def)

lemma note_rejection_inv:
  assumes "live_inv vault w"
  shows "live_inv vault (note_rejection i r rejected w)"
proof -
  have "tab_ok vault (note_rejection i r rejected w) j st" if "lw_stores w j = Some st" for j st
  proof -
    have "tab_ok vault w j st" using assms that by (simp add: live_inv_def)
    then have "loaded_since vault (lw_tables w) (lw_begun w j (ns_generation st))
        (lw_rejected (note_rejection i r rejected w) j) st"
      by (intro loaded_since_more [OF _ note_rejection_simps(7)]) (simp add: tab_ok_def)
    with \<open>tab_ok vault w j st\<close> show ?thesis by (simp add: tab_ok_def fresh_since_def)
  qed
  with assms show ?thesis by (simp add: live_inv_def)
qed

lemma live_reload_ends:
  assumes "live_inv vault w"
  shows "live_inv vault (live_handle vault (ReloadEnds i r pages rejected) w)"
proof (cases "lw_stores w i")
  case (Some st)
  let ?w = "note_rejection i r rejected w"
  let ?st = "reload_done r (loadAllNotes (rejecting rejected (\<lambda>p. store_page vault (snd r)
    (lw_tables w ! seen_table (lw_begun w i (fst r)) (length (lw_tables w) - 1) (pages p))))) st"
  have inv_w: "live_inv vault ?w" by (rule note_rejection_inv [OF assms])
  then have ok': "tab_ok vault ?w i st" using Some by (simp add: live_inv_def)
  have "tab_ok vault w i st" using assms Some by (simp add: live_inv_def)
  then have inv: "store_inv st" "lw_begun w i (ns_generation st) < length (lw_tables w)"
      "loaded_since vault (lw_tables w) (lw_begun w i (ns_generation st)) (lw_rejected w i) st"
    by (auto simp: tab_ok_def fresh_since_def)
  have "loaded_since vault (lw_tables w) (lw_begun w i (ns_generation st)) (lw_rejected ?w i) ?st"
    by (rule reload_done_loaded [OF inv(1,3,2), where begun = "lw_begun w i"]) (use note_rejection_noted [OF Some] in simp_all)
  then have "tab_ok vault (put_store i (ns_generation st) ?st ?w) i ?st"
    by (intro put_same [OF ok'] reload_done_inv inv) simp_all
  then show ?thesis using live_inv_put [OF inv_w] Some by (simp add: on_store_def)
qed (use note_rejection_inv [OF assms] in \<open>simp add: on_store_def\<close>)

lemma live_open:
  assumes "live_inv vault w"
  shows "live_inv vault (live_handle vault (OpenTab i) w)"
proof (cases "lw_stores w i")
  case None
  define u where "u = (subscribeTxApplied i w)\<lparr>lw_rejected := (lw_rejected w)(i := [])\<rparr>"
  have same: "lw_tables u = lw_tables w" "lw_stores u = lw_stores w" "lw_begun u = lw_begun w"
      "set (lw_subscribers u) = insert i (set (lw_subscribers w))" "j \<noteq> i \<Longrightarrow> lw_inbox u j = lw_inbox w j"
      "j \<noteq> i \<Longrightarrow> lw_rejected u j = lw_rejected w j" for j
    using assms by (simp_all add: u_def subscribeTxApplied_def live_inv_def)
  have "tab_ok vault u j st" if "lw_stores w j = Some st" for j st
  proof -
    have "j \<noteq> i" using that None by auto
    with assms that show ?thesis
      by (intro tab_ok_frame [of vault w j st u]) (auto simp: same live_inv_def tab_ok_def)
  qed
  then have "live_inv vault u" using assms by (simp add: live_inv_def same) (simp add: u_def subscribeTxApplied_def)
  moreover have "tab_ok vault (put_store i 0 createNotesStore u) i createNotesStore"
    using assms by (intro put_began createNotesStore_inv loaded_since_reload)
      (simp_all add: same live_inv_def, simp add: createNotesStore_def reload_def)
  ultimately show ?thesis using live_inv_put None by (simp add: u_def)
qed (use assms in simp)

lemma live_close:
  assumes "live_inv vault w"
  shows "live_inv vault (live_handle vault (CloseTab i) w)"
proof -
  have "tab_ok vault (live_handle vault (CloseTab i) w) j st" if "j \<noteq> i" "lw_stores w j = Some st" for j st
    by (rule tab_ok_frame [of vault w])
      (use assms that in \<open>auto simp: live_inv_def tab_ok_def unsubscribeTxApplied_def\<close>)
  then show ?thesis using assms
    by (auto simp: live_inv_def unsubscribeTxApplied_def split: if_splits)
qed

lemma live_deliver:
  assumes "live_inv vault w"
  shows "live_inv vault (live_handle vault (Deliver i) w)"
proof (cases "lw_inbox w i")
  case (Cons n rest)
  let ?w = "w\<lparr>lw_inbox := (lw_inbox w)(i := rest)\<rparr>"
  show ?thesis
  proof (cases "lw_stores w i")
    case None
    have "tab_ok vault ?w j st" if "lw_stores w j = Some st" for j st
      by (rule tab_ok_frame [of vault w]) (use assms that None in \<open>auto simp: live_inv_def tab_ok_def\<close>)
    with assms None Cons show ?thesis by (simp add: live_inv_def on_store_def)
  next
    case (Some st)
    have "tab_ok vault (put_store i (ns_generation st) (reload st) ?w) i (reload st)"
      using assms Some by (intro put_began loaded_since_reload reload_inv)
        (auto simp: live_inv_def tab_ok_def reload_def Let_def)
    moreover have "tab_ok vault (put_store i (ns_generation st) (reload st) ?w) j st'"
      if "j \<noteq> i" "lw_stores w j = Some st'" for j st'
      by (rule tab_ok_frame [of vault w]) (use assms that in \<open>auto simp: live_inv_def tab_ok_def\<close>)
    ultimately show ?thesis using assms Some Cons
      by (simp add: live_inv_def on_store_def on_tx_applied_def)
  qed
qed (use assms in simp)

lemma live_requested:
  assumes "live_inv vault w"
  shows "live_inv vault (live_handle vault (Requested req) w)"
proof -
  obtain t tx result where h: "handle req (last (lw_tables w)) = (t, tx, result)" using prod_cases3 by blast
  define w' where "w' = live_handle vault (Requested req) w"
  have bc: "lw_hasBroadcastChannel w" and ne: "lw_tables w \<noteq> []" using assms by (simp_all add: live_inv_def)
  have w: "lw_tables w' = lw_tables w @ [t]" "lw_stores w' = lw_stores w" "lw_begun w' = lw_begun w"
      "lw_subscribers w' = lw_subscribers w" "lw_hasBroadcastChannel w'" "lw_rejected w' = lw_rejected w"
      "lw_inbox w' = (\<lambda>i. if i \<in> set (lw_subscribers w) then lw_inbox w i @ tx else lw_inbox w i)"
    using bc by (simp_all add: w'_def h tx_broadcast_def fun_eq_iff)
  have inv: "table_inv t" using handle_inv [of "last (lw_tables w)" req] assms h by (simp add: live_inv_def)
  have same: "t = last (lw_tables w)" if "tx = []" using handle_unchanged [of req "last (lw_tables w)"] that h by simp
  have "tab_ok vault w' i st" if "lw_stores w i = Some st" for i st
  proof -
    have ok: "tab_ok vault w i st" using assms that by (simp add: live_inv_def)
    let ?k = "lw_begun w i (ns_generation st)"
    have k: "?k < length (lw_tables w)" using ok by (simp add: tab_ok_def fresh_since_def)
    have "fresh_since w' i ?k"
    proof (cases "tx = [] \<and> lw_inbox w i = []")
      case True
      then have "\<forall>j. ?k \<le> j \<longrightarrow> j < length (lw_tables w) \<longrightarrow> lw_tables w ! j = t"
        using ok same by (simp add: tab_ok_def fresh_since_def)
      then show ?thesis using k by (auto simp: fresh_since_def w(1) nth_append)
    next
      case False
      then show ?thesis using ok k by (auto simp: fresh_since_def w(1,7) tab_ok_def)
    qed
    then show ?thesis using ok by (simp add: tab_ok_def w(1,3,4,6) loaded_since_append)
  qed
  with assms inv show ?thesis unfolding w'_def [symmetric] live_inv_def w(1,2) using w(5) by auto
qed

lemma live_inv_handle: "live_inv vault w \<Longrightarrow> live_inv vault (live_handle vault e w)"
proof (cases e)
  case (Reload i)
  show "live_inv vault w \<Longrightarrow> ?thesis" unfolding Reload
    by (cases "lw_stores w i") (simp_all add: on_store_def live_inv_put live_reload(1))
qed (simp_all only: live_requested live_open live_close live_deliver live_reload_ends, simp add: live_toggle)

lemma live_inv_start: "table_inv t \<Longrightarrow> live_inv vault (live_start True t)"
  by (simp add: live_inv_def live_start_def)

interpretation live: event_invariant "\<lambda>w. \<exists>t. table_inv t \<and> w = live_start True t" "live_handle vault" "live_inv vault" for vault
  by unfold_locales (auto simp: live_inv_start live_inv_handle)

section \<open>Properties\<close>

lemma loads_or_rejected:
  assumes "table_inv t" and "readable vault t" and "length (plain_notes vault inc t) \<le> 40000"
  shows "of_load (loadAllNotes (rejecting rejected (\<lambda>_. store_page vault inc t))) = Ready (plain_notes vault inc t) \<or>
    (\<exists>k e. rejected = Some (k, e) \<and>
       of_load (loadAllNotes (rejecting rejected (\<lambda>_. store_page vault inc t))) = LoadFailed (PageError e))"
proof -
  have "loadAllNotes (\<lambda>_. store_page vault inc t) = Inr (plain_notes vault inc t)"
    using store_pages.load_all [of t vault MAX_PAGES inc] assms by (simp add: loadAllNotes_def MAX_PAGES_def)
  then show ?thesis
    using load_pages_rejecting [of MAX_PAGES rejected "\<lambda>_. store_page vault inc t" 0 None "[]"]
    by (auto simp: loadAllNotes_def of_load_def)
qed

text \<open>
  C2: every tab ends up showing the database, or the error that kept it from reading it. In a browser with
  \<open>BroadcastChannel\<close>, any number of tabs open, close, write, reload and switch the archived filter in any
  interleaving, each page of a reload may be read before or after any write, and any page request may be
  rejected. Once nothing is queued for a tab and none of its reloads is under way, and the vault can read
  the present table, whose notes under the tab's filter are at most 40 000, the list it shows is exactly
  those notes; unless a request of its newest reload was rejected, and then it shows that error.
\<close>

theorem tabs_show_the_database:
  assumes "table_inv t0" and "w = fold (live_handle vault) es (live_start True t0)"
    and "lw_stores w i = Some st" and "lw_inbox w i = []" and "ns_reloads st = []"
    and "readable vault (last (lw_tables w))"
    and "length (plain_notes vault (ns_showArchived st) (last (lw_tables w))) \<le> 40000"
  shows "ns_state st = Ready (plain_notes vault (ns_showArchived st) (last (lw_tables w))) \<or>
    (\<exists>e. (ns_generation st, e) \<in> set (lw_rejected w i) \<and> ns_state st = LoadFailed (PageError e))"
proof -
  let ?t = "last (lw_tables w)"
  have inv: "live_inv vault w" unfolding assms(2) by (rule live.run_inv) (use assms(1) in blast)
  then have ok: "tab_ok vault w i st" and t: "table_inv ?t" using assms(3) by (simp_all add: live_inv_def)
  obtain seen rejected where seen: "\<And>p. lw_begun w i (ns_generation st) \<le> seen p \<and> seen p < length (lw_tables w)"
      "\<And>q e. rejected = Some (q, e) \<Longrightarrow> (ns_generation st, e) \<in> set (lw_rejected w i)"
      "ns_state st = of_load (loadAllNotes
        (rejecting rejected (\<lambda>p. store_page vault (ns_showArchived st) (lw_tables w ! seen p))))"
    using ok assms(5) unfolding tab_ok_def loaded_since_def by auto
  then have "lw_tables w ! seen p = ?t" for p using ok assms(4) by (simp add: tab_ok_def fresh_since_def)
  with seen(3) have
    "ns_state st = of_load (loadAllNotes (rejecting rejected (\<lambda>_. store_page vault (ns_showArchived st) ?t)))" by simp
  with loads_or_rejected [OF t assms(6,7), of rejected] seen(2) show ?thesis by auto
qed

text \<open>
  Two tabs, of which the second cannot load at first. The first saves a note, both are told, and both reload.
\<close>

definition sample_id :: jsstring where "sample_id = js ''00000000000000000000000000''"

definition sample_note :: plain_note where
  "sample_note = \<lparr>note_id = sample_id, note_title = js ''hello'', note_body = js ''world'',
     note_updatedDay = 20454, note_archived = False\<rparr>"

definition sealed_note :: encrypted_note_row where
  "sealed_note = projr (encryptNote sample_vault sample_entropy sample_id 20454 (js ''hello'') (js ''world''))"

definition sample_session :: "unit live_event list" where
  "sample_session =
     [OpenTab 0, OpenTab 1, ReloadEnds 0 (1, False) (\<lambda>_. 0) None,
      ReloadEnds 1 (1, False) (\<lambda>_. 0) (Some (0, RepoSend (SendRejected (Text (js ''storage worker error''))))),
      Requested (RUpsertNote sealed_note), Deliver 0, Deliver 1,
      ReloadEnds 1 (2, False) (\<lambda>_. 1) None, ReloadEnds 0 (2, False) (\<lambda>_. 1) None]"

lemma sealed_note_facts:
  "decryptRow sample_vault sealed_note = Inr sample_note" "row_id sealed_note = sample_id"
  "row_archived sealed_note = False"
proof -
  have "faithful_text (js ''hello'')" "faithful_text (js ''world'')"
    by (simp_all add: faithful_text_def starts_with_bom_def high_surrogate_def low_surrogate_def)
  moreover have "entropy_ok sample_entropy" by (simp add: entropy_ok_def sample_entropy_def)
  ultimately obtain row where row: "encryptNote sample_vault sample_entropy sample_id 20454 (js ''hello'') (js ''world'') = Inr row"
      "row_id row = sample_id" "decryptRow sample_vault row = Inr sample_note"
    using note_round_trip [OF sample_vault_correct] unfolding sample_note_def by blast
  then have "sealed_note = row" by (simp add: sealed_note_def)
  moreover have "row_archived row = False" using row(1) by (auto simp: encryptNote_def bind_result_eq_Inr_iff)
  ultimately show "decryptRow sample_vault sealed_note = Inr sample_note" "row_id sealed_note = sample_id"
    "row_archived sealed_note = False"
    using row by simp_all
qed

lemma sealed_note_stored:
  "decodeRowId sample_id = Inr (replicate 16 0)"
  "row_of (stored_row sealed_note (replicate 16 0)) = sealed_note"
  "upsert_sql (stored_row sealed_note (replicate 16 0)) [] = [stored_row sealed_note (replicate 16 0)]"
proof -
  have enc: "encodeRowId (replicate 16 0) = Inr sample_id"
    unfolding sample_id_def by (subst encodeRowId_eq) (simp, code_simp)
  then show "decodeRowId sample_id = Inr (replicate 16 0)" by (intro row_id.dec_enc) simp_all
  show "row_of (stored_row sealed_note (replicate 16 0)) = sealed_note"
    by (rule row_of_stored_row) (simp_all add: enc sealed_note_facts)
qed (simp add: upsert_sql_def)

lemma sealed_note_table:
  "table_inv [stored_row sealed_note (replicate 16 0)]"
  "readable sample_vault [stored_row sealed_note (replicate 16 0)]"
  "plain_notes sample_vault False [stored_row sealed_note (replicate 16 0)] = [sample_note]"
proof -
  have "db_id (stored_row sealed_note (replicate 16 0)) = replicate 16 0"
    "db_archived (stored_row sealed_note (replicate 16 0)) = 0"
    by (simp_all add: stored_row_def sealed_note_facts(3))
  then show "table_inv [stored_row sealed_note (replicate 16 0)]"
    "readable sample_vault [stored_row sealed_note (replicate 16 0)]"
    "plain_notes sample_vault False [stored_row sealed_note (replicate 16 0)] = [sample_note]"
    by (simp_all add: table_inv_def db_row_ok_def readable_def plain_notes_def visible_def order_desc_def
        sealed_note_stored(2) sealed_note_facts)
qed

lemma sealed_note_saved:
  "handle (RUpsertNote sealed_note) [] =
     ([stored_row sealed_note (replicate 16 0)], [[sample_id]], Inr (SUpsertNote sealed_note))"
  using sealed_note_stored(3)
  by (simp add: repo_upsert_def sealed_note_facts(2) sealed_note_stored(1) stored_row_def)

theorem tabs_show_the_database_witness:
  "\<exists>w st0 st1. w = fold (live_handle sample_vault) sample_session (live_start True []) \<and>
     lw_stores w 0 = Some st0 \<and> lw_stores w 1 = Some st1 \<and>
     ns_state st0 = Ready [sample_note] \<and> ns_state st1 = Ready [sample_note]"
proof -
  define w where "w = fold (live_handle sample_vault) sample_session (live_start True [])"
  have run: "lw_tables w = [[], [stored_row sealed_note (replicate 16 0)]] \<and>
    (\<exists>st. lw_stores w 0 = Some st \<and> ns_reloads st = [] \<and> \<not> ns_showArchived st \<and> lw_inbox w 0 = [] \<and>
      lw_rejected w 0 = []) \<and>
    (\<exists>st. lw_stores w 1 = Some st \<and> ns_reloads st = [] \<and> \<not> ns_showArchived st \<and> lw_inbox w 1 = [] \<and>
      ns_generation st = 2 \<and> map fst (lw_rejected w 1) = [1])"
    unfolding w_def sample_session_def
    by (simp add: sealed_note_saved live_start_def subscribeTxApplied_def put_store_def on_store_def createNotesStore_def
        tx_broadcast_def note_rejection_def on_tx_applied_def reload_def reload_done_def isLatest_def Let_def
        del: handle.simps)
  then obtain st0 st1 where st:
      "lw_stores w 0 = Some st0" "ns_reloads st0 = []" "ns_showArchived st0 = False" "lw_inbox w 0 = []" "lw_rejected w 0 = []"
      "lw_stores w 1 = Some st1" "ns_reloads st1 = []" "ns_showArchived st1 = False" "lw_inbox w 1 = []"
      "ns_generation st1 = 2" "map fst (lw_rejected w 1) = [1]"
    by auto
  have last: "last (lw_tables w) = [stored_row sealed_note (replicate 16 0)]" using run by simp
  have empty: "table_inv []" by (simp add: table_inv_def)
  have "ns_state st0 = Ready [sample_note]"
    using tabs_show_the_database [OF empty w_def st(1,4,2)] st by (simp add: last sealed_note_table)
  moreover have "ns_state st1 = Ready [sample_note]"
    using tabs_show_the_database [OF empty w_def st(6,9,7)] st by (auto simp: last sealed_note_table)
  ultimately show ?thesis using w_def st by blast
qed

text \<open>
  Without \<open>BroadcastChannel\<close> nothing announces a write, not even to the tab that made it, and the stores do
  not reload after their own writes: the list stays as it was.
\<close>

lemma no_channel_no_reload:
  assumes "\<not> lw_hasBroadcastChannel w"
  shows "lw_stores (live_handle vault (Requested req) w) = lw_stores w"
    and "lw_inbox (live_handle vault (Requested req) w) = lw_inbox w"
  using assms by (simp_all add: tx_broadcast_def case_prod_unfold)

end
