(* ===== verification/Worker_Ports.thy ===== *)
theory Worker_Ports
  imports Rpc Leader_Transport
begin

text \<open>
  The transports under the RPC client: the interface \<open>WorkerLike\<close> of \<open>packages/storage/src/rpc.ts\<close>, the
  adapters \<open>adaptDedicated\<close> and \<open>adaptShared\<close> of \<open>index.ts\<close>, \<open>bcToWorkerLike\<close> and the listener sets of
  the leader transport in \<open>leader.ts\<close>, and what \<open>WorkerClient\<close> does to a transport when it is constructed
  and terminated. An object of the platform is a record of its listeners and of what it was asked to
  post; a listener is a value, and the same one is registered at most once.
\<close>

section \<open>Events of the platform\<close>

datatype port_event = MessageEvent | ErrorEvent

text \<open>\<open>EventTarget\<close> listeners and JavaScript sets alike: in order of registration, without repetition.\<close>

definition listener_add :: "'l \<Rightarrow> 'l list \<Rightarrow> 'l list" where
  "listener_add l ls = (if l \<in> set ls then ls else ls @ [l])"

definition listener_remove :: "'l \<Rightarrow> 'l list \<Rightarrow> 'l list" where
  "listener_remove l ls = removeAll l ls"

lemma set_listener [simp]:
  "set (listener_add l ls) = insert l (set ls)"
  "set (listener_remove l ls) = set ls - {l}"
  by (auto simp: listener_add_def listener_remove_def)

lemma distinct_listener [simp]:
  "distinct (listener_add l ls) \<longleftrightarrow> distinct ls"
  "distinct ls \<Longrightarrow> distinct (listener_remove l ls)"
  by (simp_all add: listener_add_def listener_remove_def distinct_removeAll)

lemma listener_remove_add [simp]:
  "listener_remove l (listener_add l ls) = listener_remove l ls"
  by (simp add: listener_add_def listener_remove_def)

lemma listener_other [simp]:
  "removeAll l (listener_add l' ls) = (if l = l' then removeAll l ls else listener_add l' (removeAll l ls))"
  "removeAll l (listener_remove l' ls) = listener_remove l' (removeAll l ls)"
  by (auto simp: listener_add_def listener_remove_def removeAll_filter_not_eq filter_filter conj_commute)

section \<open>WorkerLike\<close>

text \<open>
  The object of closures that an adapter returns, over the state \<open>'w\<close> of what it adapts. A post that
  throws returns \<open>None\<close>.
\<close>

record ('w, 'l, 'd) worker_like =
  wl_postMessage :: "'d \<Rightarrow> 'w \<Rightarrow> 'w option"
  wl_addEventListener :: "port_event \<Rightarrow> 'l \<Rightarrow> 'w \<Rightarrow> 'w"
  wl_removeEventListener :: "port_event \<Rightarrow> 'l \<Rightarrow> 'w \<Rightarrow> 'w"
  wl_close :: "'w \<Rightarrow> 'w"

section \<open>The dedicated worker\<close>

record ('l, 'd) dedicated_worker =
  dw_message :: "'l list"
  dw_error :: "'l list"
  dw_posted :: "'d list"
  dw_terminated :: bool

fun dw_add :: "port_event \<Rightarrow> 'l \<Rightarrow> ('l, 'd) dedicated_worker \<Rightarrow> ('l, 'd) dedicated_worker" where
  "dw_add MessageEvent l w = w\<lparr>dw_message := listener_add l (dw_message w)\<rparr>"
| "dw_add ErrorEvent l w = w\<lparr>dw_error := listener_add l (dw_error w)\<rparr>"

fun dw_remove :: "port_event \<Rightarrow> 'l \<Rightarrow> ('l, 'd) dedicated_worker \<Rightarrow> ('l, 'd) dedicated_worker" where
  "dw_remove MessageEvent l w = w\<lparr>dw_message := listener_remove l (dw_message w)\<rparr>"
| "dw_remove ErrorEvent l w = w\<lparr>dw_error := listener_remove l (dw_error w)\<rparr>"

text \<open>What \<open>Worker\<close> does with a post and \<open>terminate\<close>, who is registered, and whether an event reaches them.\<close>

definition dw_post :: "'d \<Rightarrow> ('l, 'd) dedicated_worker \<Rightarrow> ('l, 'd) dedicated_worker option" where
  "dw_post d w = Some (if dw_terminated w then w else w\<lparr>dw_posted := dw_posted w @ [d]\<rparr>)"

definition dw_terminate :: "('l, 'd) dedicated_worker \<Rightarrow> ('l, 'd) dedicated_worker" where
  "dw_terminate w = w\<lparr>dw_terminated := True\<rparr>"

fun dw_registered :: "port_event \<Rightarrow> ('l, 'd) dedicated_worker \<Rightarrow> 'l list" where
  "dw_registered MessageEvent w = dw_message w"
| "dw_registered ErrorEvent w = dw_error w"

definition dw_delivers :: "port_event \<Rightarrow> ('l, 'd) dedicated_worker \<Rightarrow> bool" where
  "dw_delivers k w \<longleftrightarrow> \<not> dw_terminated w"

definition adaptDedicated :: "(('l, 'd) dedicated_worker, 'l, 'd) worker_like" where
  "adaptDedicated =
     \<lparr>wl_postMessage = dw_post, wl_addEventListener = dw_add, wl_removeEventListener = dw_remove,
      wl_close = dw_terminate\<rparr>"

section \<open>The shared worker\<close>

text \<open>
  A \<open>SharedWorker\<close> object and its port. Messages that arrive before \<open>start\<close> wait in the port's queue,
  which \<open>start\<close> lets through; a closed port delivers nothing.
\<close>

record ('l, 'd) shared_worker =
  sh_error :: "'l list"
  sh_message :: "'l list"
  sh_started :: bool
  sh_closed :: bool
  sh_posted :: "'d list"

definition port_start :: "('l, 'd) shared_worker \<Rightarrow> ('l, 'd) shared_worker" where
  "port_start s = s\<lparr>sh_started := True\<rparr>"

definition port_post :: "'d \<Rightarrow> ('l, 'd) shared_worker \<Rightarrow> ('l, 'd) shared_worker option" where
  "port_post d s = Some (if sh_closed s then s else s\<lparr>sh_posted := sh_posted s @ [d]\<rparr>)"

definition port_close :: "('l, 'd) shared_worker \<Rightarrow> ('l, 'd) shared_worker" where
  "port_close s = s\<lparr>sh_closed := True\<rparr>"

fun sh_registered :: "port_event \<Rightarrow> ('l, 'd) shared_worker \<Rightarrow> 'l list" where
  "sh_registered MessageEvent s = sh_message s"
| "sh_registered ErrorEvent s = sh_error s"

definition sh_delivers :: "port_event \<Rightarrow> ('l, 'd) shared_worker \<Rightarrow> bool" where
  "sh_delivers k s \<longleftrightarrow> (k = MessageEvent \<longrightarrow> sh_started s \<and> \<not> sh_closed s)"

text \<open>\<open>route\<close>: errors fire on the \<open>SharedWorker\<close> object, messages on its port.\<close>

definition shared_route ::
  "('l \<Rightarrow> 'l list \<Rightarrow> 'l list) \<Rightarrow> port_event \<Rightarrow> 'l \<Rightarrow> ('l, 'd) shared_worker \<Rightarrow> ('l, 'd) shared_worker" where
  "shared_route change kind listener s =
     (if kind = ErrorEvent then s\<lparr>sh_error := change listener (sh_error s)\<rparr>
      else s\<lparr>sh_message := change listener (sh_message s)\<rparr>)"

definition adaptShared ::
  "('l, 'd) shared_worker \<Rightarrow> (('l, 'd) shared_worker, 'l, 'd) worker_like \<times> ('l, 'd) shared_worker" where
  "adaptShared shared =
     (\<lparr>wl_postMessage = port_post, wl_addEventListener = shared_route listener_add,
       wl_removeEventListener = shared_route listener_remove, wl_close = port_close\<rparr>,
      port_start shared)"

section \<open>A broadcast channel\<close>

text \<open>
  \<open>bcToWorkerLike\<close>: the channel and the closure's \<open>errorListeners\<close>. A closed channel throws on a post; a
  \<open>BroadcastChannel\<close> has no error event.
\<close>

record ('l, 'd) bc_worker =
  bw_message :: "'l list"
  bw_errorListeners :: "'l list"
  bw_closed :: bool
  bw_posted :: "'d list"

definition bw_post :: "'d \<Rightarrow> ('l, 'd) bc_worker \<Rightarrow> ('l, 'd) bc_worker option" where
  "bw_post d w = (if bw_closed w then None else Some (w\<lparr>bw_posted := bw_posted w @ [d]\<rparr>))"

fun bw_add :: "port_event \<Rightarrow> 'l \<Rightarrow> ('l, 'd) bc_worker \<Rightarrow> ('l, 'd) bc_worker" where
  "bw_add MessageEvent l w = w\<lparr>bw_message := listener_add l (bw_message w)\<rparr>"
| "bw_add ErrorEvent l w = w\<lparr>bw_errorListeners := listener_add l (bw_errorListeners w)\<rparr>"

fun bw_remove :: "port_event \<Rightarrow> 'l \<Rightarrow> ('l, 'd) bc_worker \<Rightarrow> ('l, 'd) bc_worker" where
  "bw_remove MessageEvent l w = w\<lparr>bw_message := listener_remove l (bw_message w)\<rparr>"
| "bw_remove ErrorEvent l w = w\<lparr>bw_errorListeners := listener_remove l (bw_errorListeners w)\<rparr>"

definition bw_close :: "('l, 'd) bc_worker \<Rightarrow> ('l, 'd) bc_worker" where
  "bw_close w = w\<lparr>bw_errorListeners := [], bw_closed := True\<rparr>"

fun bw_registered :: "port_event \<Rightarrow> ('l, 'd) bc_worker \<Rightarrow> 'l list" where
  "bw_registered MessageEvent w = bw_message w"
| "bw_registered ErrorEvent w = bw_errorListeners w"

definition bw_delivers :: "port_event \<Rightarrow> ('l, 'd) bc_worker \<Rightarrow> bool" where
  "bw_delivers k w \<longleftrightarrow> k = MessageEvent \<and> \<not> bw_closed w"

definition bcToWorkerLike :: "(('l, 'd) bc_worker, 'l, 'd) worker_like" where
  "bcToWorkerLike =
     \<lparr>wl_postMessage = bw_post, wl_addEventListener = bw_add, wl_removeEventListener = bw_remove,
      wl_close = bw_close\<rparr>"

section \<open>The leader transport\<close>

text \<open>The listener sets that the transport of one tab hands its events to, and the tab itself.\<close>

record 'l leader_port =
  lp_tab :: tab
  lp_messageListeners :: "'l list"
  lp_errorListeners :: "'l list"

definition lp_post :: "wire \<Rightarrow> 'l leader_port \<Rightarrow> 'l leader_port option" where
  "lp_post d p = Some (p\<lparr>lp_tab := fst (tab_post d (lp_tab p))\<rparr>)"

fun lp_add :: "port_event \<Rightarrow> 'l \<Rightarrow> 'l leader_port \<Rightarrow> 'l leader_port" where
  "lp_add MessageEvent l p = p\<lparr>lp_messageListeners := listener_add l (lp_messageListeners p)\<rparr>"
| "lp_add ErrorEvent l p = p\<lparr>lp_errorListeners := listener_add l (lp_errorListeners p)\<rparr>"

fun lp_remove :: "port_event \<Rightarrow> 'l \<Rightarrow> 'l leader_port \<Rightarrow> 'l leader_port" where
  "lp_remove MessageEvent l p = p\<lparr>lp_messageListeners := listener_remove l (lp_messageListeners p)\<rparr>"
| "lp_remove ErrorEvent l p = p\<lparr>lp_errorListeners := listener_remove l (lp_errorListeners p)\<rparr>"

definition lp_close :: "'l leader_port \<Rightarrow> 'l leader_port" where
  "lp_close p =
     (if t_closed (lp_tab p) then p
      else p\<lparr>lp_tab := fst (tab_close (lp_tab p)), lp_messageListeners := [], lp_errorListeners := []\<rparr>)"

fun lp_registered :: "port_event \<Rightarrow> 'l leader_port \<Rightarrow> 'l list" where
  "lp_registered MessageEvent p = lp_messageListeners p"
| "lp_registered ErrorEvent p = lp_errorListeners p"

definition lp_delivers :: "port_event \<Rightarrow> 'l leader_port \<Rightarrow> bool" where
  "lp_delivers k p \<longleftrightarrow> \<not> t_closed (lp_tab p)"

definition leader_worker_like :: "('l leader_port, 'l, wire) worker_like" where
  "leader_worker_like =
     \<lparr>wl_postMessage = lp_post, wl_addEventListener = lp_add, wl_removeEventListener = lp_remove,
      wl_close = lp_close\<rparr>"

section \<open>Making the transports\<close>

definition makeDedicatedTransport :: "(('l, 'd) dedicated_worker, 'l, 'd) worker_like \<times> ('l, 'd) dedicated_worker" where
  "makeDedicatedTransport =
     (adaptDedicated, \<lparr>dw_message = [], dw_error = [], dw_posted = [], dw_terminated = False\<rparr>)"

definition makeSharedTransport :: "(('l, 'd) shared_worker, 'l, 'd) worker_like \<times> ('l, 'd) shared_worker" where
  "makeSharedTransport =
     adaptShared \<lparr>sh_error = [], sh_message = [], sh_started = False, sh_closed = False, sh_posted = []\<rparr>"

definition newBroadcastChannel :: "('l, 'd) bc_worker" where
  "newBroadcastChannel = \<lparr>bw_message = [], bw_errorListeners = [], bw_closed = False, bw_posted = []\<rparr>"

text \<open>The globals that the leader transport asks for: \<open>navigator.locks\<close> and \<open>BroadcastChannel\<close>.\<close>

record leader_globals =
  lg_locks :: "bool option"
  lg_broadcastChannel :: bool

definition supportsLeaderElection :: "leader_globals \<Rightarrow> bool" where
  "supportsLeaderElection g \<longleftrightarrow> lg_locks g = Some True \<and> lg_broadcastChannel g"

definition makeLeaderTransport ::
  "leader_globals \<Rightarrow> string \<Rightarrow> (('l leader_port, 'l, wire) worker_like \<times> 'l leader_port) option" where
  "makeLeaderTransport g clientId =
     (if \<not> supportsLeaderElection g then None
      else Some (leader_worker_like, \<lparr>lp_tab = fst (createLeaderTransport clientId),
             lp_messageListeners = [], lp_errorListeners = []\<rparr>))"

text \<open>
  \<open>defaultNewLeaderId\<close>: \<open>crypto.randomUUID\<close> where it exists, otherwise sixteen bytes in hexadecimal, which
  stay zero where there is no \<open>getRandomValues\<close> either.
\<close>

definition hex_digit :: "nat \<Rightarrow> char" where
  "hex_digit n = ''0123456789abcdef'' ! n"

definition hex_byte :: "byte \<Rightarrow> string" where
  "hex_byte b = [hex_digit (unat b div 16), hex_digit (unat b mod 16)]"

definition defaultNewLeaderId :: "string option \<Rightarrow> bytes option \<Rightarrow> string" where
  "defaultNewLeaderId randomUUID getRandomValues =
     (case randomUUID of
        Some uuid \<Rightarrow> uuid
      | None \<Rightarrow> concat (map hex_byte (case getRandomValues of None \<Rightarrow> replicate 16 0 | Some bs \<Rightarrow> bs)))"

lemma hex_digit_inject: "m < 16 \<Longrightarrow> n < 16 \<Longrightarrow> hex_digit m = hex_digit n \<longleftrightarrow> m = n"
proof -
  have "distinct ''0123456789abcdef''" by simp
  then show "m < 16 \<Longrightarrow> n < 16 \<Longrightarrow> ?thesis"
    unfolding hex_digit_def by (subst nth_eq_iff_index_eq) simp_all
qed

lemma hex_byte_inject: "hex_byte b = hex_byte c \<longleftrightarrow> b = c"
proof
  assume "hex_byte b = hex_byte c"
  then have "unat b div 16 = unat c div 16" "unat b mod 16 = unat c mod 16"
    using unat_byte_less [of b] unat_byte_less [of c] by (simp_all add: hex_byte_def hex_digit_inject)
  then show "b = c" by (metis div_mult_mod_eq word_unat_eq_iff)
qed simp

text \<open>Identifiers of different random bytes differ, and their pair channels never coincide.\<close>

lemma hex_bytes_inject: "concat (map hex_byte bs) = concat (map hex_byte cs) \<longleftrightarrow> bs = cs"
proof (induction bs arbitrary: cs)
  case Nil
  then show ?case by (cases cs) (simp_all add: hex_byte_def)
next
  case (Cons b bs)
  then show ?case using hex_byte_inject [of b] by (cases cs) (auto simp: hex_byte_def)
qed

lemma hex_bytes_length: "length (concat (map hex_byte bs)) = 2 * length bs"
  by (induction bs) (simp_all add: hex_byte_def)

lemma pair_channels_private:
  assumes "length l = length l'" and "pairChannelName l c = pairChannelName l' c'"
  shows "l = l' \<and> c = c'"
  using assms by (simp add: pairChannelName_def)

lemma random_channels_private:
  assumes "length bs = 16" and "length bs' = 16"
    and "pairChannelName (defaultNewLeaderId None (Some bs)) c = pairChannelName (defaultNewLeaderId None (Some bs')) c'"
  shows "bs = bs' \<and> c = c'"
  using pair_channels_private [OF _ assms(3)] assms(1,2)
  by (simp add: defaultNewLeaderId_def hex_bytes_length hex_bytes_inject)

section \<open>The client on its transport\<close>

text \<open>The constructor of \<open>WorkerClient\<close>, and \<open>terminate\<close> with the close request it posts.\<close>

definition client_construct :: "('w, 'l, 'd) worker_like \<Rightarrow> 'l \<Rightarrow> 'l \<Rightarrow> 'w \<Rightarrow> 'w" where
  "client_construct W onMessage onError w =
     wl_addEventListener W ErrorEvent onError (wl_addEventListener W MessageEvent onMessage w)"

definition client_post :: "('w, 'l, 'd) worker_like \<Rightarrow> 'd \<Rightarrow> 'w \<Rightarrow> 'w" where
  "client_post W d w = (case wl_postMessage W d w of None \<Rightarrow> w | Some w' \<Rightarrow> w')"

definition client_teardown :: "('w, 'l, 'd) worker_like \<Rightarrow> 'd \<Rightarrow> 'l \<Rightarrow> 'l \<Rightarrow> 'w \<Rightarrow> 'w" where
  "client_teardown W closing onMessage onError w =
     wl_close W (wl_removeEventListener W ErrorEvent onError
       (wl_removeEventListener W MessageEvent onMessage (client_post W closing w)))"

text \<open>What others, or the client's own requests, do to the same transport meanwhile.\<close>

datatype ('l, 'd) port_use = UseAdd port_event 'l | UseRemove port_event 'l | UsePost 'd

fun use_port :: "('w, 'l, 'd) worker_like \<Rightarrow> ('l, 'd) port_use \<Rightarrow> 'w \<Rightarrow> 'w" where
  "use_port W (UseAdd k l) w = wl_addEventListener W k l w"
| "use_port W (UseRemove k l) w = wl_removeEventListener W k l w"
| "use_port W (UsePost d) w = client_post W d w"

fun use_of :: "('l, 'd) port_use \<Rightarrow> 'l option" where
  "use_of (UseAdd k l) = Some l"
| "use_of (UseRemove k l) = Some l"
| "use_of (UsePost d) = None"

definition called ::
  "(port_event \<Rightarrow> 'w \<Rightarrow> 'l list) \<Rightarrow> (port_event \<Rightarrow> 'w \<Rightarrow> bool) \<Rightarrow> port_event \<Rightarrow> 'w \<Rightarrow> 'l list" where
  "called registered delivers k w = (if delivers k w then registered k w else [])"

text \<open>How often a message and an error event call the client's two listeners after the given uses.\<close>

definition client_hears ::
  "('w, 'l, 'd) worker_like \<Rightarrow> (port_event \<Rightarrow> 'w \<Rightarrow> 'l list) \<Rightarrow> (port_event \<Rightarrow> 'w \<Rightarrow> bool)
    \<Rightarrow> 'l \<Rightarrow> 'l \<Rightarrow> ('l, 'd) port_use list \<Rightarrow> 'w \<Rightarrow> nat \<times> nat" where
  "client_hears W registered delivers m e us w =
     (let w1 = fold (use_port W) us (client_construct W m e w)
      in (count_list (called registered delivers MessageEvent w1) m,
          count_list (called registered delivers ErrorEvent w1) e))"

text \<open>Whom a message calls, and whether an error still calls the client, after it was terminated.\<close>

definition client_gone ::
  "('w, 'l, 'd) worker_like \<Rightarrow> (port_event \<Rightarrow> 'w \<Rightarrow> 'l list) \<Rightarrow> (port_event \<Rightarrow> 'w \<Rightarrow> bool)
    \<Rightarrow> 'd \<Rightarrow> 'l \<Rightarrow> 'l \<Rightarrow> 'w \<Rightarrow> bool" where
  "client_gone W registered delivers closing m e w \<longleftrightarrow>
     (let w1 = client_teardown W closing m e w
      in called registered delivers MessageEvent w1 = [] \<and> e \<notin> set (called registered delivers ErrorEvent w1))"

lemma count_listener [simp]:
  "l \<noteq> m \<Longrightarrow> count_list (listener_add m ls) l = count_list ls l"
  "l \<noteq> m \<Longrightarrow> count_list (listener_remove m ls) l = count_list ls l"
  "count_list (listener_remove l ls) l = 0"
  by (induction ls) (auto simp: listener_add_def listener_remove_def)

lemma count_listener_new: "count_list ls l = 0 \<Longrightarrow> count_list (listener_add l ls) l = 1"
  by (simp add: listener_add_def count_list_0_iff)

text \<open>
  The contract behind \<open>WorkerLike\<close>: each kind of event has its own listeners, posting touches none of
  them, and a transport that was closed delivers no message.
\<close>

locale transport =
  fixes W :: "('w, 'l, 'd) worker_like"
    and registered :: "port_event \<Rightarrow> 'w \<Rightarrow> 'l list"
    and delivers :: "port_event \<Rightarrow> 'w \<Rightarrow> bool"
  assumes registered_add: "registered k' (wl_addEventListener W k l w) =
      (if k' = k then listener_add l (registered k w) else registered k' w)"
    and registered_remove: "registered k' (wl_removeEventListener W k l w) =
      (if k' = k then listener_remove l (registered k w) else registered k' w)"
    and registered_post: "wl_postMessage W d w = Some w' \<Longrightarrow> registered k w' = registered k w"
    and delivers_add: "delivers k' (wl_addEventListener W k l w) = delivers k' w"
    and delivers_remove: "delivers k' (wl_removeEventListener W k l w) = delivers k' w"
    and delivers_post: "wl_postMessage W d w = Some w' \<Longrightarrow> delivers k w' = delivers k w"
    and close_silent: "\<not> delivers MessageEvent (wl_close W w)"
    and close_registered: "set (registered k (wl_close W w)) \<subseteq> set (registered k w)"
begin

lemma post_keeps [simp]:
  "registered k (client_post W d w) = registered k w" "delivers k (client_post W d w) = delivers k w"
  by (simp_all add: client_post_def registered_post delivers_post split: option.splits)

lemmas port_simps = registered_add registered_remove delivers_add delivers_remove

lemma use_keeps:
  assumes "list_all (\<lambda>u. use_of u \<noteq> Some l) us"
  shows "count_list (registered k (fold (use_port W) us w)) l = count_list (registered k w) l \<and>
    delivers k (fold (use_port W) us w) = delivers k w"
  using assms
proof (induction us arbitrary: w)
  case (Cons u us)
  then show ?case by (cases u) (auto simp: port_simps)
qed simp

lemma constructed:
  assumes "count_list (registered MessageEvent w) m = 0" and "count_list (registered ErrorEvent w) e = 0"
  shows "count_list (registered MessageEvent (client_construct W m e w)) m = 1"
    and "count_list (registered ErrorEvent (client_construct W m e w)) e = 1"
    and "delivers k (client_construct W m e w) = delivers k w"
  using assms by (simp_all add: client_construct_def port_simps count_listener_new)

lemma hears:
  assumes "registered MessageEvent w = []" and "registered ErrorEvent w = []"
    and "list_all (\<lambda>u. use_of u \<noteq> Some m \<and> use_of u \<noteq> Some e) us"
  shows "client_hears W registered delivers m e us w =
    (if delivers MessageEvent w then 1 else 0, if delivers ErrorEvent w then 1 else 0)"
  using use_keeps [of m us MessageEvent] use_keeps [of e us ErrorEvent] constructed [of w m e] assms
  by (simp add: client_hears_def called_def list_all_iff Let_def)

lemma gone: "client_gone W registered delivers closing m e w"
  using close_registered [of ErrorEvent] close_silent
  by (fastforce simp: client_gone_def called_def client_teardown_def port_simps Let_def)

end

lemmas dedicated_defs = adaptDedicated_def dw_delivers_def dw_post_def dw_terminate_def
lemmas shared_defs = adaptShared_def sh_delivers_def port_post_def port_close_def shared_route_def
lemmas bc_defs = bcToWorkerLike_def bw_delivers_def bw_post_def bw_close_def
lemmas leader_defs = leader_worker_like_def lp_delivers_def lp_post_def lp_close_def

lemma tab_post_closed [simp]: "t_closed (fst (tab_post d t)) = t_closed t"
  by (simp add: tab_post_def split: option.splits)

lemma tab_close_closed [simp]: "t_closed (fst (tab_close t))"
  by (simp add: tab_close_def action_defs)

interpretation dedicated: transport adaptDedicated dw_registered dw_delivers
proof (unfold_locales, goal_cases)
  case (1 k' k l w)
  then show ?case by (cases k; cases k') (simp_all add: dedicated_defs)
next
  case (2 k' k l w)
  then show ?case by (cases k; cases k') (simp_all add: dedicated_defs)
next
  case (3 d w w' k)
  then show ?case by (cases k) (auto simp: dedicated_defs split: if_splits)
next
  case (4 k' k l w)
  then show ?case by (cases k) (simp_all add: dedicated_defs)
next
  case (5 k' k l w)
  then show ?case by (cases k) (simp_all add: dedicated_defs)
next
  case (8 k w)
  then show ?case by (cases k) (simp_all add: dedicated_defs)
qed (auto simp: dedicated_defs split: if_splits)

interpretation shared: transport "fst (adaptShared s)" sh_registered sh_delivers for s
proof (unfold_locales, goal_cases)
  case (1 k' k l w)
  then show ?case by (cases k; cases k') (simp_all add: shared_defs)
next
  case (2 k' k l w)
  then show ?case by (cases k; cases k') (simp_all add: shared_defs)
next
  case (3 d w w' k)
  then show ?case by (cases k) (auto simp: shared_defs split: if_splits)
next
  case (4 k' k l w)
  then show ?case by (cases k) (simp_all add: shared_defs)
next
  case (5 k' k l w)
  then show ?case by (cases k) (simp_all add: shared_defs)
next
  case (8 k w)
  then show ?case by (cases k) (simp_all add: shared_defs)
qed (auto simp: shared_defs split: if_splits)

interpretation broadcast: transport bcToWorkerLike bw_registered bw_delivers
proof (unfold_locales, goal_cases)
  case (1 k' k l w)
  then show ?case by (cases k; cases k') (simp_all add: bc_defs)
next
  case (2 k' k l w)
  then show ?case by (cases k; cases k') (simp_all add: bc_defs)
next
  case (3 d w w' k)
  then show ?case by (cases k) (auto simp: bc_defs split: if_splits)
next
  case (4 k' k l w)
  then show ?case by (cases k) (simp_all add: bc_defs)
next
  case (5 k' k l w)
  then show ?case by (cases k) (simp_all add: bc_defs)
next
  case (8 k w)
  then show ?case by (cases k) (simp_all add: bc_defs)
qed (auto simp: bc_defs split: if_splits)

interpretation leading: transport leader_worker_like lp_registered lp_delivers
proof (unfold_locales, goal_cases)
  case (1 k' k l w)
  then show ?case by (cases k; cases k') (simp_all add: leader_defs)
next
  case (2 k' k l w)
  then show ?case by (cases k; cases k') (simp_all add: leader_defs)
next
  case (3 d w w' k)
  then show ?case by (cases k) (auto simp: leader_defs split: if_splits)
next
  case (4 k' k l w)
  then show ?case by (cases k) (simp_all add: leader_defs)
next
  case (5 k' k l w)
  then show ?case by (cases k) (simp_all add: leader_defs)
next
  case (8 k w)
  then show ?case by (cases k) (simp_all add: leader_defs)
qed (auto simp: leader_defs split: if_splits)

section \<open>Properties\<close>

lemma fresh_ports:
  "dw_registered k (snd makeDedicatedTransport) = []" "dw_delivers k (snd makeDedicatedTransport)"
  "sh_registered k (snd makeSharedTransport) = []" "sh_delivers k (snd makeSharedTransport)"
  "bw_registered k newBroadcastChannel = []" "bw_delivers k newBroadcastChannel \<longleftrightarrow> k = MessageEvent"
  by (cases k; simp add: makeDedicatedTransport_def makeSharedTransport_def newBroadcastChannel_def
      dw_delivers_def adaptShared_def port_start_def sh_delivers_def bw_delivers_def)+

text \<open>
  C24: every transport serves the RPC client alike. After \<open>WorkerClient\<close> was constructed on a new dedicated
  worker, shared worker, leader transport or broadcast channel, and whatever others register, remove and
  post there, each message calls its \<open>onMessage\<close> once and each error event its \<open>onError\<close> once (a broadcast
  channel has no error event). After \<open>terminate\<close>, in any state of the transport and even when the closing
  post throws, no message calls anyone and no error event calls the client.
\<close>

theorem transports_serve_client:
  assumes "list_all (\<lambda>u. use_of u \<noteq> Some m \<and> use_of u \<noteq> Some e) us"
    and "makeLeaderTransport g c = Some (leader, port)"
  shows "client_hears (fst makeDedicatedTransport) dw_registered dw_delivers m e us (snd makeDedicatedTransport) = (1, 1) \<and>
    client_hears (fst makeSharedTransport) sh_registered sh_delivers m e us (snd makeSharedTransport) = (1, 1) \<and>
    client_hears leader lp_registered lp_delivers m e us port = (1, 1) \<and>
    client_hears bcToWorkerLike bw_registered bw_delivers m e us newBroadcastChannel = (1, 0) \<and>
    client_gone (fst makeDedicatedTransport) dw_registered dw_delivers closing m e w \<and>
    client_gone (fst makeSharedTransport) sh_registered sh_delivers closing m e w' \<and>
    client_gone leader lp_registered lp_delivers closing m e port' \<and>
    client_gone bcToWorkerLike bw_registered bw_delivers closing m e channel"
proof -
  have port: "leader = leader_worker_like" "lp_registered MessageEvent port = []" "lp_registered ErrorEvent port = []"
    "lp_delivers k port" for k
    using assms(2) by (auto simp: makeLeaderTransport_def lp_delivers_def createLeaderTransport_def
        action_defs split: if_splits)
  have W: "fst makeDedicatedTransport = adaptDedicated" by (simp add: makeDedicatedTransport_def)
  show ?thesis
    unfolding W port(1) makeSharedTransport_def
    using assms(1) port
    by (simp add: fresh_ports [unfolded makeSharedTransport_def] dedicated.hears leading.hears broadcast.hears shared.hears
        dedicated.gone leading.gone broadcast.gone shared.gone makeSharedTransport_def
        del: dw_registered.simps sh_registered.simps bw_registered.simps lp_registered.simps)
qed

text \<open>A page registers a listener of its own (2) beside the client's (0 and 1).\<close>

theorem transports_serve_client_witness:
  "client_hears (fst makeSharedTransport) sh_registered sh_delivers 0 1
     [UseAdd MessageEvent 2 :: (nat, wire) port_use] (snd makeSharedTransport) = (1, 1)"
proof -
  obtain port where g: "makeLeaderTransport \<lparr>lg_locks = Some True, lg_broadcastChannel = True\<rparr> ''c'' =
      Some (leader_worker_like :: (nat leader_port, nat, wire) worker_like, port)"
    by (simp add: makeLeaderTransport_def supportsLeaderElection_def)
  show ?thesis by (rule transports_serve_client [OF _ g, THEN conjunct2, THEN conjunct1]) simp
qed

end
