(* ===== verification/Worker_Types.thy ===== *)
theory Worker_Types
  imports Repo
begin

text \<open>
  The types of the worker's answers. \<open>send\<close> in \<open>packages/storage/src/rpc.ts\<close> checks only the kind of a
  response and then casts it to the type that the request promises. \<open>response_typed\<close> is that type, with the
  invariants the page relies on where TypeScript has only \<open>string\<close> and \<open>number\<close>; a session is a sequence of
  requests that one client sends one after the other.
\<close>

section \<open>The type of a response\<close>

definition row_id_ok :: "jsstring \<Rightarrow> bool" where
  "row_id_ok i \<longleftrightarrow> (case decodeRowId i of Inl e \<Rightarrow> False | Inr bs \<Rightarrow> True)"

definition row_id_canonical :: "jsstring \<Rightarrow> bool" where
  "row_id_canonical i \<longleftrightarrow> (case decodeRowId i of Inl e \<Rightarrow> False | Inr bs \<Rightarrow> encodeRowId bs = Inr i)"

definition cursor_ok :: "jsstring option \<Rightarrow> bool" where
  "cursor_ok c \<longleftrightarrow> (case cursorWhere c of Inl e \<Rightarrow> False | Inr clause \<Rightarrow> True)"

fun response_typed :: "worker_request \<Rightarrow> worker_response \<Rightarrow> bool" where
  "response_typed RBootstrap (SBootstrap v) = (v = SCHEMA_VERSION)"
| "response_typed RPing SPing = True"
| "response_typed (RListNotes limit cursor inc) (SListNotes rows next) =
     (int (length rows) \<le> clamp_limit limit \<and> distinct (map row_id rows) \<and>
      list_all (\<lambda>r. row_id_canonical (row_id r) \<and> (inc \<or> \<not> row_archived r)) rows \<and>
      (next = None \<or> rows \<noteq> [] \<and> cursor_ok next))"
| "response_typed (RUpsertNote row) (SUpsertNote r) = (r = row \<and> row_id_ok (row_id r))"
| "response_typed (RGetNote i) (SGetNote row) =
     (row_id_ok i \<and> (case row of None \<Rightarrow> True | Some r \<Rightarrow>
        row_id_canonical (row_id r) \<and> decodeRowId (row_id r) = decodeRowId i))"
| "response_typed (RArchiveNote i) SArchiveNote = row_id_ok i"
| "response_typed (RDeleteNote i) SDeleteNote = row_id_ok i"
| "response_typed RClose SClose = True"
| "response_typed _ _ = False"

text \<open>Only a request with arguments is ever refused, and then by the repository.\<close>

fun answer_typed :: "worker_request \<Rightarrow> send_error + worker_response \<Rightarrow> bool" where
  "answer_typed req (Inr r) = response_typed req r"
| "answer_typed req (Inl (SendRejected (OfRepository e))) = (req \<notin> {RBootstrap, RPing, RClose})"
| "answer_typed req (Inl e) = False"

lemma row_of_canonical: "length (db_id r) = 16 \<Longrightarrow> row_id_canonical (row_id (row_of r))"
  using row_id_facts(1) [of r] by (simp add: row_id_canonical_def encodeRowId_eq row_of_def)

lemma selected_rows:
  assumes "table_inv t" and "raw = select_page_sql inc clause n t"
  shows "\<forall>r \<in> set raw. length (db_id r) = 16 \<and> (inc \<or> db_archived r = 0)" and "distinct (map db_id raw)"
proof -
  let ?all = "filter (\<lambda>r. (inc \<or> db_archived r = 0) \<and> cursor_holds clause r) t"
  have "set raw \<subseteq> set ?all"
    using set_take_subset [of n "order_desc ?all"] unfolding assms(2) select_page_sql_def by simp
  then show "\<forall>r \<in> set raw. length (db_id r) = 16 \<and> (inc \<or> db_archived r = 0)"
    using assms(1) by (auto simp: table_inv_def list_all_iff db_row_ok_def)
  have "distinct (map db_id ?all)"
    using assms(1) by (simp add: table_inv_def distinct_map inj_on_def)
  then have "distinct (map db_id (order_desc ?all))"
    by (simp add: order_desc_def distinct_map)
  then show "distinct (map db_id raw)"
    unfolding assms(2) select_page_sql_def by (simp add: take_map [symmetric] distinct_take)
qed

section \<open>Every answer has its type\<close>

lemma list_page:
  assumes "table_inv t" and "repo_list limit cursor inc t = Inr page"
  shows "\<exists>rs. page_rows page = map row_of rs \<and> int (length rs) \<le> clamp_limit limit \<and> distinct (map db_id rs) \<and>
    (\<forall>r \<in> set rs. length (db_id r) = 16 \<and> (inc \<or> db_archived r = 0)) \<and>
    (page_nextCursor page = None \<or> rs \<noteq> [] \<and> page_nextCursor page = Some (cursor_of (last rs)))"
proof -
  define n where "n = nat (clamp_limit limit)"
  obtain clause where clause: "cursorWhere cursor = Inr clause"
    using assms(2) by (auto simp: repo_list_def bind_result_eq_Inr_iff Let_def)
  define raw where "raw = select_page_sql inc clause (n + 1) t"
  define rs where "rs = take n raw"
  note raw = selected_rows [OF assms(1) raw_def]
  have rows: "\<forall>r \<in> set rs. length (db_id r) = 16 \<and> (inc \<or> db_archived r = 0)"
    using raw(1) set_take_subset [of n raw] unfolding rs_def by blast
  then have "map_result decodeRow rs = Inr (map row_of rs)"
    by (intro map_result_Inr decodeRow_row_of) blast
  then have "page = \<lparr>page_rows = map row_of rs, page_nextCursor =
      (if n < length raw \<and> map row_of rs \<noteq> []
       then Some (show_int (row_updatedDay (last (map row_of rs))) @ 58 # row_id (last (map row_of rs))) else None)\<rparr>"
    using assms(2) unfolding repo_list_def Let_def clause bind_result_simps n_def [symmetric] raw_def [symmetric]
      rs_def [symmetric] by simp
  moreover have "row_updatedDay (row_of r) = updated_day r" for r by (simp add: row_of_def)
  ultimately have "page_rows page = map row_of rs"
    "page_nextCursor page = None \<or> rs \<noteq> [] \<and> page_nextCursor page = Some (cursor_of (last rs))"
    by (auto simp: last_map cursor_of_def)
  moreover have "int (length rs) \<le> clamp_limit limit" by (simp add: rs_def n_def clamp_limit_def)
  moreover have "distinct (map db_id rs)" using raw(2) by (simp add: rs_def take_map [symmetric])
  ultimately show ?thesis using rows by blast
qed

lemma row_ids_distinct:
  assumes "distinct (map db_id rs)" and "\<forall>r \<in> set rs. length (db_id r) = 16"
  shows "distinct (map row_id (map row_of rs))"
  using assms
proof (induction rs)
  case (Cons r rs)
  have "row_id (row_of q) \<noteq> row_id (row_of r)" if "q \<in> set rs" for q
  proof
    assume "row_id (row_of q) = row_id (row_of r)"
    then have "db_id q = db_id r"
      using row_id_facts(1) [of q] row_id_facts(1) [of r] Cons.prems(2) that by simp
    moreover have "db_id q \<in> db_id ` set rs" using that by (rule imageI)
    ultimately show False using Cons.prems(1) by simp
  qed
  with Cons show ?case by force
qed simp

lemma list_typed:
  assumes "table_inv t" and "repo_list limit cursor inc t = Inr page"
  shows "response_typed (RListNotes limit cursor inc) (SListNotes (page_rows page) (page_nextCursor page))"
proof -
  from list_page [OF assms] obtain rs where rs: "page_rows page = map row_of rs" "int (length rs) \<le> clamp_limit limit"
    "distinct (map db_id rs)" "\<forall>r \<in> set rs. length (db_id r) = 16 \<and> (inc \<or> db_archived r = 0)"
    "page_nextCursor page = None \<or> rs \<noteq> [] \<and> page_nextCursor page = Some (cursor_of (last rs))" by blast
  have "\<not> row_archived (row_of r) \<longleftrightarrow> db_archived r \<noteq> 1" for r by (simp add: row_of_def)
  then have "list_all (\<lambda>r. row_id_canonical (row_id r) \<and> (inc \<or> \<not> row_archived r)) (page_rows page)"
    using rs(4) row_of_canonical by (auto simp: rs(1) list_all_iff)
  moreover have "cursor_ok (page_nextCursor page)" if "page_nextCursor page \<noteq> None"
    using that rs(4,5) cursorWhere_cursor_of [of "last rs"] by (auto simp: cursor_ok_def)
  moreover have "distinct (map row_id (page_rows page))"
    unfolding rs(1) using rs(3,4) by (intro row_ids_distinct) blast+
  ultimately show ?thesis using rs(1,2,5) by auto
qed

lemma get_typed:
  assumes "table_inv t" and "repo_get i t = Inr row"
  shows "response_typed (RGetNote i) (SGetNote row)"
proof -
  obtain bs where bs: "decodeRowId i = Inr bs"
    using assms(2) by (cases "decodeRowId i") (auto simp: repo_get_def)
  show ?thesis
  proof (cases "select_by_id_sql bs t")
    case Nil
    then show ?thesis using assms(2) bs by (simp add: repo_get_def row_id_ok_def)
  next
    case (Cons r rs)
    then have r: "r \<in> set t" "db_id r = bs" by (auto simp: select_by_id_sql_def filter_eq_Cons_iff)
    then have "length (db_id r) = 16" using assms(1) by (auto simp: table_inv_def list_all_iff db_row_ok_def)
    then show ?thesis
      using assms(2) bs Cons r row_id_facts(1) [of r]
      by (auto simp: repo_get_def decodeRow_row_of row_of_canonical row_id_ok_def)
  qed
qed

lemma write_typed:
  "repo_upsert row t = Inr (t', r) \<Longrightarrow> r = row \<and> row_id_ok (row_id row)"
  "repo_archive i t = Inr t' \<Longrightarrow> row_id_ok i"
  "repo_delete i t = Inr t' \<Longrightarrow> row_id_ok i"
  by (auto simp: repo_upsert_def repo_archive_def repo_delete_def row_id_ok_def bind_result_eq_Inr_iff lift_row_id_def
      split: sum.splits)

lemma handle_typed:
  assumes "table_inv t"
  shows "case snd (snd (handle req t)) of
      Inr r \<Rightarrow> response_typed req r
    | Inl m \<Rightarrow> (\<exists>e. m = OfRepository e) \<and> req \<notin> {RBootstrap, RPing, RClose}"
proof (cases req)
  case (RListNotes limit cursor inc)
  then show ?thesis
    using list_typed [OF assms, of limit cursor inc] by (cases "repo_list limit cursor inc t") simp_all
next
  case (RUpsertNote row)
  then show ?thesis using write_typed(1) [of row t] by (cases "repo_upsert row t") (auto split: prod.splits)
next
  case (RGetNote i)
  then show ?thesis using get_typed [OF assms, of i] by (cases "repo_get i t") simp_all
next
  case (RArchiveNote i)
  then show ?thesis using write_typed(2) [of i t] by (cases "repo_archive i t") simp_all
next
  case (RDeleteNote i)
  then show ?thesis using write_typed(3) [of i t] by (cases "repo_delete i t") simp_all
qed simp_all

text \<open>Progress and preservation: a request on a well-formed table gets a typed answer and leaves one.\<close>

lemma response_typed_kind: "response_typed req r \<Longrightarrow> response_kind r = request_kind req"
  by (induction req r rule: response_typed.induct) simp_all

lemma client_send_typed:
  assumes "table_inv t"
  shows "answer_typed req (snd (snd (client_send req t))) \<and> table_inv (fst (client_send req t))"
proof -
  obtain t' tx result where h: "handle req t = (t', tx, result)" using prod_cases3 by blast
  have "table_inv t'" using handle_inv [OF assms, of req] h by simp
  moreover have "answer_typed req (send_result (request_kind req)
      (case result of Inl m \<Rightarrow> Rejected m | Inr r \<Rightarrow> Resolved r))"
    using handle_typed [OF assms, of req] h
    by (cases result) (auto simp: response_typed_kind)
  ultimately show ?thesis using h by (simp add: client_send_def)
qed

fun run_session ::
  "worker_request list \<Rightarrow> note_table \<Rightarrow> (worker_request \<times> (send_error + worker_response)) list" where
  "run_session [] t = []"
| "run_session (req # reqs) t =
     (case client_send req t of (t', tx, answer) \<Rightarrow> (req, answer) # run_session reqs t')"

lemma session_typed: "table_inv t \<Longrightarrow> list_all (\<lambda>(req, answer). answer_typed req answer) (run_session reqs t)"
proof (induction reqs arbitrary: t)
  case (Cons req reqs)
  then show ?case
    using client_send_typed [OF Cons.prems, of req] by (cases "client_send req t") (auto dest: Cons.IH)
qed simp

section \<open>Properties\<close>

text \<open>
  C4: type soundness of the wire. In every session on a new database, whatever is requested and with
  whatever arguments, \<open>send\<close> never fails its kind check and never rejects \<open>bootstrap\<close>, \<open>ping\<close> or \<open>close\<close>, and the
  response it casts has the type its request promises: a page of at most the clamped limit of distinct rows
  with canonical ids, none archived unless asked for, and a next cursor the worker accepts; the row that was
  written; the row of exactly the id that was asked for.
\<close>

theorem wire_type_soundness: "list_all (\<lambda>(req, answer). answer_typed req answer) (run_session reqs [])"
  by (rule session_typed) (simp add: table_inv_def)

end
