(* ===== verification/Use_Notes.thy ===== *)
theory Use_Notes
  imports Notes_Store
begin

text \<open>
  The binding of notes stores to React (\<open>apps/web/src/notes/use-notes.ts\<close>): an effect creates one store per
  repository and stops its subscription when the repository changes or the view unmounts, and the view shows
  the snapshot of the store that the last render knows. Repositories and stores are numbers; a state update
  takes effect at the next render.
\<close>

section \<open>The hook\<close>

text \<open>
  \<open>un_created\<close> is the store of the mounted effect, \<open>un_queued\<close> a \<open>setBundle\<close> that no render has seen yet;
  \<open>un_subscribed\<close> and \<open>un_released\<close> are the stores that still listen to the channel and those that stopped,
  \<open>un_loads\<close> the loads that have ended: of which store, for which of its reloads, and with what result.
\<close>

record 'e use_notes =
  un_repo :: "nat option"
  un_bundle :: "nat option"
  un_queued :: "nat option"
  un_created :: "nat option"
  un_stores :: "nat \<Rightarrow> (nat \<times> 'e notes_store) option"
  un_subscribed :: "nat list"
  un_released :: "nat list"
  un_next :: nat
  un_loads :: "(nat \<times> (nat \<times> bool) \<times> ('e repo_error load_error + plain_note list)) list"

definition use_notes_new :: "'e use_notes" where
  "use_notes_new =
     \<lparr>un_repo = None, un_bundle = None, un_queued = None, un_created = None, un_stores = (\<lambda>_. None),
      un_subscribed = [], un_released = [], un_next = 0, un_loads = []\<rparr>"

definition notes_effect_cleanup :: "'e use_notes \<Rightarrow> 'e use_notes" where
  "notes_effect_cleanup h =
     (case un_created h of
        None \<Rightarrow> h
      | Some n \<Rightarrow> h\<lparr>un_created := None, un_repo := None, un_subscribed := remove1 n (un_subscribed h),
                    un_released := un_released h @ [n]\<rparr>)"

definition notes_effect :: "nat \<Rightarrow> 'e use_notes \<Rightarrow> 'e use_notes" where
  "notes_effect repo h =
     (let n = un_next h
      in h\<lparr>un_repo := Some repo, un_created := Some n, un_queued := Some n,
           un_stores := (un_stores h)(n \<mapsto> (repo, createNotesStore)),
           un_subscribed := un_subscribed h @ [n], un_next := Suc n\<rparr>)"

text \<open>An operation on the state of one store.\<close>

definition with_store :: "nat \<Rightarrow> ('e notes_store \<Rightarrow> 'e notes_store) \<Rightarrow> 'e use_notes \<Rightarrow> 'e use_notes" where
  "with_store n f h = h\<lparr>un_stores := (un_stores h)(n := map_option (apsnd f) (un_stores h n))\<rparr>"

text \<open>What the view calls goes to the bundle it rendered with, if there is one.\<close>

definition on_bundle :: "('e notes_store \<Rightarrow> 'e notes_store) \<Rightarrow> 'e use_notes \<Rightarrow> 'e use_notes" where
  "on_bundle f h = (case un_bundle h of None \<Rightarrow> h | Some n \<Rightarrow> with_store n f h)"

text \<open>The load of a reload in flight ends.\<close>

definition load_ended ::
  "nat \<Rightarrow> nat \<times> bool \<Rightarrow> 'e repo_error load_error + plain_note list \<Rightarrow> 'e use_notes \<Rightarrow> 'e use_notes" where
  "load_ended n r result h =
     (case un_stores h n of
        None \<Rightarrow> h
      | Some (_, st) \<Rightarrow>
          if r \<in> set (ns_reloads st)
          then (with_store n (reload_done r result) h)\<lparr>un_loads := un_loads h @ [(n, r, result)]\<rparr>
          else h)"

datatype 'e use_notes_event =
    RepoProp nat
  | ViewUnmounts
  | ViewRenders
  | ChannelNotice tx_applied
  | ViewReload
  | ViewSetShowArchived bool
  | StoreLoaded nat "nat \<times> bool" "'e repo_error load_error + plain_note list"

fun use_notes_handle :: "'e use_notes_event \<Rightarrow> 'e use_notes \<Rightarrow> 'e use_notes" where
  "use_notes_handle (RepoProp repo) h = notes_effect repo (notes_effect_cleanup h)"
| "use_notes_handle ViewUnmounts h = (notes_effect_cleanup h)\<lparr>un_queued := None, un_bundle := None\<rparr>"
| "use_notes_handle ViewRenders h =
     (case un_queued h of None \<Rightarrow> h | Some n \<Rightarrow> h\<lparr>un_bundle := Some n, un_queued := None\<rparr>)"
| "use_notes_handle (ChannelNotice ids) h = fold (\<lambda>n. with_store n (on_tx_applied ids)) (un_subscribed h) h"
| "use_notes_handle ViewReload h = on_bundle reload h"
| "use_notes_handle (ViewSetShowArchived b) h = on_bundle (setShowArchived b) h"
| "use_notes_handle (StoreLoaded n r result) h = load_ended n r result h"

definition emptySnapshot :: "'e notes_state \<times> bool" where
  "emptySnapshot = (Loading, False)"

definition un_snapshot :: "'e use_notes \<Rightarrow> 'e notes_state \<times> bool" where
  "un_snapshot h =
     (case un_bundle h of
        None \<Rightarrow> emptySnapshot
      | Some n \<Rightarrow> (case un_stores h n of None \<Rightarrow> emptySnapshot | Some (_, st) \<Rightarrow> (ns_state st, ns_showArchived st)))"

section \<open>The invariant\<close>

definition shown_next :: "'e use_notes \<Rightarrow> nat option" where
  "shown_next h = (case un_queued h of None \<Rightarrow> un_bundle h | Some n \<Rightarrow> Some n)"

definition shown_result :: "'e repo_error load_error + plain_note list \<Rightarrow> 'e notes_state" where
  "shown_result result = (case result of Inr notes \<Rightarrow> Ready notes | Inl e \<Rightarrow> LoadFailed e)"

text \<open>The newest reload of a store is in flight, or it ended and the state is what it returned.\<close>

definition newest_shown ::
  "(nat \<times> (nat \<times> bool) \<times> ('e repo_error load_error + plain_note list)) list \<Rightarrow> nat \<Rightarrow> 'e notes_store \<Rightarrow> bool" where
  "newest_shown loads n st \<longleftrightarrow>
     (ns_generation st, ns_showArchived st) \<in> set (ns_reloads st) \<or>
     (\<exists>result. (n, (ns_generation st, ns_showArchived st), result) \<in> set loads \<and>
        ns_state st = shown_result result)"

text \<open>Each reload of each store ends at most once.\<close>

definition loads_once :: "'e use_notes \<Rightarrow> bool" where
  "loads_once h \<longleftrightarrow>
     distinct (map (\<lambda>(n, r, _). (n, fst r)) (un_loads h)) \<and>
     (\<forall>(n, r, _) \<in> set (un_loads h). \<exists>repo st. un_stores h n = Some (repo, st) \<and>
        fst r \<le> ns_generation st \<and> fst r \<notin> fst ` set (ns_reloads st))"

definition use_notes_inv :: "'e use_notes \<Rightarrow> bool" where
  "use_notes_inv h \<longleftrightarrow>
     ledger (un_subscribed h) (un_released h) (un_next h) \<and>
     (\<forall>n repo st. un_stores h n = Some (repo, st) \<longrightarrow> n < un_next h \<and> store_inv st \<and> newest_shown (un_loads h) n st) \<and>
     loads_once h \<and>
     (case un_created h of
        None \<Rightarrow> un_subscribed h = [] \<and> un_repo h = None
      | Some n \<Rightarrow> un_subscribed h = [n] \<and> shown_next h = Some n \<and>
          (\<exists>repo st. un_repo h = Some repo \<and> un_stores h n = Some (repo, st)))"

text \<open>The operations on a store begin reloads and end none.\<close>

definition begins_reloads :: "('e notes_store \<Rightarrow> 'e notes_store) \<Rightarrow> bool" where
  "begins_reloads f \<longleftrightarrow> (\<forall>st. f st = st \<or>
     (ns_generation (f st) = ns_generation st + 1 \<and>
      ns_reloads (f st) = ns_reloads st @ [(ns_generation (f st), ns_showArchived (f st))] \<and>
      (store_inv st \<longrightarrow> store_inv (f st))))"

lemma begins_reloads_ops: "begins_reloads reload" "begins_reloads (on_tx_applied ids)" "begins_reloads (setShowArchived b)"
proof -
  have "store_inv (reload (st\<lparr>ns_showArchived := b\<rparr>))" if "store_inv st" for st :: "'e notes_store"
    by (rule reload_inv(2) [OF that])
  then show "begins_reloads reload" "begins_reloads (on_tx_applied ids)" "begins_reloads (setShowArchived b)"
    using reload_inv(1) by (auto simp: begins_reloads_def on_tx_applied_def setShowArchived_def, auto simp: reload_def)
qed

lemma begins_reloads_keeps:
  assumes "begins_reloads f"
  shows "store_inv st \<Longrightarrow> store_inv (f st)" and "newest_shown loads n st \<Longrightarrow> newest_shown loads n (f st)"
    and "ns_generation st \<le> ns_generation (f st)"
    and "g \<le> ns_generation st \<Longrightarrow> g \<notin> fst ` set (ns_reloads st) \<Longrightarrow> g \<notin> fst ` set (ns_reloads (f st))"
proof -
  have "f st = st \<or> ns_generation (f st) = ns_generation st + 1 \<and>
      ns_reloads (f st) = ns_reloads st @ [(ns_generation (f st), ns_showArchived (f st))] \<and>
      (store_inv st \<longrightarrow> store_inv (f st))"
    using assms unfolding begins_reloads_def by blast
  then show "store_inv st \<Longrightarrow> store_inv (f st)" "newest_shown loads n st \<Longrightarrow> newest_shown loads n (f st)"
    "ns_generation st \<le> ns_generation (f st)"
    "g \<le> ns_generation st \<Longrightarrow> g \<notin> fst ` set (ns_reloads st) \<Longrightarrow> g \<notin> fst ` set (ns_reloads (f st))"
    by (auto simp: newest_shown_def)
qed

lemma use_notes_new_inv: "use_notes_inv use_notes_new"
  by (simp add: use_notes_inv_def use_notes_new_def loads_once_def)

lemma notes_cleanup_inv:
  "use_notes_inv h \<Longrightarrow> use_notes_inv (notes_effect_cleanup h) \<and> un_created (notes_effect_cleanup h) = None"
  by (cases "un_created h")
    (auto simp: use_notes_inv_def notes_effect_cleanup_def loads_once_def dest: ledger_release_all)

lemma created_newest: "newest_shown loads n createNotesStore"
  by (simp add: newest_shown_def createNotesStore_def reload_def Let_def)

lemma notes_effect_inv:
  assumes "use_notes_inv h" and "un_created h = None"
  shows "use_notes_inv (notes_effect repo h)"
proof -
  have new: "un_stores h (un_next h) = None"
    using assms(1) by (cases "un_stores h (un_next h)") (fastforce simp: use_notes_inv_def)+
  have "loads_once (notes_effect repo h)"
    using assms(1) new by (fastforce simp: use_notes_inv_def loads_once_def notes_effect_def Let_def)
  moreover have "\<forall>n r st. un_stores h n = Some (r, st) \<longrightarrow> n < Suc (un_next h)"
    using assms(1) by (force simp: use_notes_inv_def)
  ultimately show ?thesis
    using assms ledger_make [of "[]" "un_released h" "un_next h"]
    by (auto simp: use_notes_inv_def notes_effect_def shown_next_def createNotesStore_inv created_newest Let_def)
qed

lemma with_store_inv:
  assumes "use_notes_inv h" and "begins_reloads f"
  shows "use_notes_inv (with_store n f h)"
proof -
  note keeps = begins_reloads_keeps [OF assms(2)]
  have "loads_once (with_store n f h)"
    unfolding loads_once_def
  proof (intro conjI ballI)
    show "distinct (map (\<lambda>(n, r, _). (n, fst r)) (un_loads (with_store n f h)))"
      using assms(1) by (simp add: use_notes_inv_def loads_once_def with_store_def)
    fix x assume "x \<in> set (un_loads (with_store n f h))"
    moreover obtain m r result where x: "x = (m, r, result)" by (rule prod_cases3)
    ultimately have "(m, r, result) \<in> set (un_loads h)" by (simp add: with_store_def)
    then obtain repo st where st: "un_stores h m = Some (repo, st)" "fst r \<le> ns_generation st"
        "fst r \<notin> fst ` set (ns_reloads st)"
      using assms(1) unfolding use_notes_inv_def loads_once_def by blast
    show "case x of (m, r, _) \<Rightarrow> \<exists>repo st. un_stores (with_store n f h) m = Some (repo, st) \<and>
        fst r \<le> ns_generation st \<and> fst r \<notin> fst ` set (ns_reloads st)"
      using st keeps(3) [of st] keeps(4) [OF st(2,3)] x by (auto simp: with_store_def)
  qed
  then show ?thesis
    using assms(1) keeps(1,2)
    by (auto simp: use_notes_inv_def with_store_def shown_next_def split: option.splits if_splits)
qed

lemma fold_with_store_inv:
  assumes "use_notes_inv h" and "begins_reloads f"
  shows "use_notes_inv (fold (\<lambda>n. with_store n f) ns h)"
  using assms(1) by (induction ns arbitrary: h) (simp_all add: with_store_inv assms(2))

lemma on_bundle_inv: "use_notes_inv h \<Longrightarrow> begins_reloads f \<Longrightarrow> use_notes_inv (on_bundle f h)"
  by (simp add: on_bundle_def with_store_inv split: option.splits)

lemma newest_shown_more: "newest_shown loads n st \<Longrightarrow> newest_shown (loads @ ls) n st"
  by (auto simp: newest_shown_def)

lemma reload_done_newest:
  assumes "store_inv st" and "newest_shown loads n st" and "r \<in> set (ns_reloads st)"
  shows "newest_shown (loads @ [(n, r, result)]) n (reload_done r result st)"
proof (cases "fst r = ns_generation st")
  case True
  then have "r = (ns_generation st, snd r)" by (cases r) simp
  with latest_flag [OF assms(1), of "snd r"] assms(3) have "r = (ns_generation st, ns_showArchived st)" by simp
  with assms(3) show ?thesis
    by (auto simp: newest_shown_def reload_done_def isLatest_def shown_result_def Let_def)
next
  case False
  then have "r \<noteq> (ns_generation st, ns_showArchived st)" by auto
  then have "(ns_generation st, ns_showArchived st) \<in> set (remove1 r (ns_reloads st)) \<longleftrightarrow>
      (ns_generation st, ns_showArchived st) \<in> set (ns_reloads st)" by (simp add: in_set_remove1)
  then show ?thesis using assms(2,3) False by (auto simp: newest_shown_def reload_done_def isLatest_def Let_def)
qed

lemma load_ended_inv:
  assumes "use_notes_inv h"
  shows "use_notes_inv (load_ended n r result h)"
proof (cases "\<exists>repo st. un_stores h n = Some (repo, st) \<and> r \<in> set (ns_reloads st)")
  case True
  then obtain repo st where st: "un_stores h n = Some (repo, st)" "r \<in> set (ns_reloads st)" by blast
  let ?st = "reload_done r result st"
  define h' where "h' = load_ended n r result h"
  have h': "un_stores h' = (un_stores h)(n \<mapsto> (repo, ?st))" "un_loads h' = un_loads h @ [(n, r, result)]"
      "un_subscribed h' = un_subscribed h" "un_released h' = un_released h" "un_next h' = un_next h"
      "un_created h' = un_created h" "un_repo h' = un_repo h" "shown_next h' = shown_next h"
    using st by (simp_all add: h'_def load_ended_def with_store_def shown_next_def split: option.split)
  have inv: "store_inv st" "newest_shown (un_loads h) n st" "n < un_next h" "loads_once h"
    using assms st(1) by (auto simp: use_notes_inv_def)
  have fields: "ns_generation ?st = ns_generation st" "ns_reloads ?st = remove1 r (ns_reloads st)"
    using st(2) by (simp_all add: reload_done_def Let_def)
  have gone: "fst r \<notin> fst ` set (remove1 r (ns_reloads st))"
  proof -
    have "distinct (map fst (ns_reloads st))" using inv(1) by (simp add: store_inv_def)
    then show ?thesis using st(2) by (auto simp: distinct_map set_remove1_eq inj_on_def)
  qed
  have range: "fst r \<le> ns_generation st" using inv(1) st(2) by (auto simp: store_inv_def)
  have once: "loads_once h'"
  proof -
    have old: "\<exists>repo st. un_stores h m = Some (repo, st) \<and> fst q \<le> ns_generation st \<and> fst q \<notin> fst ` set (ns_reloads st)"
      if "(m, q, x) \<in> set (un_loads h)" for m q x
      using inv(4) that unfolding loads_once_def by blast
    have stores: "\<exists>repo st. un_stores h' m = Some (repo, st) \<and> fst q \<le> ns_generation st \<and> fst q \<notin> fst ` set (ns_reloads st)"
      if "(m, q, x) \<in> set (un_loads h')" for m q x
    proof (cases "(m, q, x) \<in> set (un_loads h)")
      case True
      from old [OF this] show ?thesis
        using st set_remove1_subset [of r "ns_reloads st"] by (cases "m = n") (fastforce simp: h'(1) fields)+
    next
      case False
      with that show ?thesis using gone range by (simp add: h' fields)
    qed
    have "(n, fst r) \<notin> (\<lambda>(n, r, _). (n, fst r)) ` set (un_loads h)"
      using old st by fastforce
    moreover have "distinct (map (\<lambda>(n, r, _). (n, fst r)) (un_loads h))" using inv(4) by (simp add: loads_once_def)
    ultimately have "distinct (map (\<lambda>(n, r, _). (n, fst r)) (un_loads h'))" unfolding h'(2) by simp
    then show ?thesis using stores unfolding loads_once_def by blast
  qed
  have "newest_shown (un_loads h') m st'" "store_inv st'" "m < un_next h"
    if "un_stores h' m = Some (repo', st')" for m repo' st'
  proof -
    have "m = n \<and> st' = ?st \<or> m \<noteq> n \<and> un_stores h m = Some (repo', st')" using that by (auto simp: h'(1) split: if_splits)
    then show "newest_shown (un_loads h') m st'" "store_inv st'" "m < un_next h"
      using assms inv(3) reload_done_newest [OF inv(1,2) st(2)] reload_done_inv [OF inv(1), of r result]
      by (auto simp: use_notes_inv_def h'(2) intro: newest_shown_more)
  qed
  then show ?thesis
    using assms once st unfolding h'_def [symmetric] use_notes_inv_def
    by (auto simp: h'(1,3-8) split: option.splits)
next
  case False
  then have "load_ended n r result h = h" by (auto simp: load_ended_def split: option.splits)
  with assms show ?thesis by simp
qed

lemma notes_render_inv: "use_notes_inv h \<Longrightarrow> use_notes_inv (use_notes_handle ViewRenders h)"
  by (cases "un_queued h") (auto simp: use_notes_inv_def shown_next_def loads_once_def split: option.splits)

lemma notes_unmount_inv: "use_notes_inv h \<Longrightarrow> use_notes_inv (use_notes_handle ViewUnmounts h)"
  using notes_cleanup_inv [of h] by (auto simp: use_notes_inv_def loads_once_def)

interpretation use_notes: event_invariant "\<lambda>h. h = use_notes_new" use_notes_handle use_notes_inv
proof (unfold_locales, goal_cases)
  case (2 h e)
  show ?case
  proof (cases e)
    case (RepoProp repo)
    then show ?thesis using notes_cleanup_inv [OF 2] by (simp add: notes_effect_inv)
  next
    case (ChannelNotice ids)
    then show ?thesis using fold_with_store_inv [OF 2 begins_reloads_ops(2)] by simp
  qed (use 2 in \<open>simp_all add: notes_unmount_inv notes_render_inv on_bundle_inv begins_reloads_ops load_ended_inv
      del: use_notes_handle.simps(2,3)\<close>)
qed (simp add: use_notes_new_inv)

text \<open>
  C21: a view listens with one store and shows it. However repositories come and go, the view renders, other
  tabs write and loads end in any order: every subscription but that of the mounted repository's store was
  stopped, exactly once; a reload ends at most once; and after the next render the snapshot is that
  store's, in which either the newest reload is still running, or it has ended and the view shows what it
  returned: its notes, loaded under the filter that is shown, or its error.
\<close>

theorem use_notes_shows_its_repository:
  "let h = fold use_notes_handle es use_notes_new; h' = use_notes_handle ViewRenders h
   in distinct (un_released h @ un_subscribed h) \<and> set (un_released h @ un_subscribed h) = {..<un_next h} \<and>
      distinct (map (\<lambda>(n, r, _). (n, fst r)) (un_loads h)) \<and>
      (case un_repo h of
         None \<Rightarrow> un_subscribed h = []
       | Some repo \<Rightarrow> (\<exists>n st. un_subscribed h = [n] \<and> un_stores h' n = Some (repo, st) \<and>
           snd (un_snapshot h') = ns_showArchived st \<and> fst (un_snapshot h') = ns_state st \<and>
           ((ns_generation st, ns_showArchived st) \<in> set (ns_reloads st) \<or>
            (\<exists>result. (n, (ns_generation st, ns_showArchived st), result) \<in> set (un_loads h) \<and>
               fst (un_snapshot h') = (case result of Inr notes \<Rightarrow> Ready notes | Inl e \<Rightarrow> LoadFailed e)))))"
proof -
  define h where "h = fold use_notes_handle es use_notes_new"
  have inv: "use_notes_inv h" unfolding h_def by (rule use_notes.run_inv) (rule refl)
  let ?h = "use_notes_handle ViewRenders h"
  have "\<exists>n st. un_subscribed h = [n] \<and> un_stores ?h n = Some (repo, st) \<and>
      snd (un_snapshot ?h) = ns_showArchived st \<and> fst (un_snapshot ?h) = ns_state st \<and> newest_shown (un_loads h) n st"
    if repo: "un_repo h = Some repo" for repo
  proof -
    obtain n where n: "un_created h = Some n" using inv repo by (auto simp: use_notes_inv_def split: option.splits)
    then obtain st where st: "un_subscribed h = [n]" "shown_next h = Some n" "un_stores h n = Some (repo, st)"
        "newest_shown (un_loads h) n st"
      using inv repo by (auto simp: use_notes_inv_def)
    then have "un_snapshot ?h = (ns_state st, ns_showArchived st)" "un_stores ?h = un_stores h"
      by (auto simp: shown_next_def un_snapshot_def split: option.splits)
    with st show ?thesis by auto
  qed
  moreover have "un_repo h = None \<Longrightarrow> un_subscribed h = []"
    using inv by (auto simp: use_notes_inv_def split: option.splits)
  moreover have "distinct (map (\<lambda>(n, r, _). (n, fst r)) (un_loads h))"
    using inv by (simp add: use_notes_inv_def loads_once_def)
  moreover have "distinct (un_released h @ un_subscribed h) \<and> set (un_released h @ un_subscribed h) = {..<un_next h}"
    using inv by (simp only: use_notes_inv_def ledger_def)
  ultimately show ?thesis
    unfolding h_def [symmetric] Let_def newest_shown_def shown_result_def
    by (cases "un_repo h") (fastforce simp del: use_notes_handle.simps)+
qed

end
