(* ===== verification/Page_Shell.thy ===== *)
theory Page_Shell
  imports Share_Client
begin

text \<open>
  Two small parts of the page: the \<open>dialog\<close> element behind the share and delete dialogs
  (\<open>apps/web/src/share/use-modal-dialog.ts\<close>) and the registration of the service worker
  (\<open>apps/web/src/app/service-worker-registration.tsx\<close>). A callback is its number.
\<close>

section \<open>The modal dialog\<close>

text \<open>What the element's \<open>showModal\<close> does: it is missing, it shows the dialog, or it throws.\<close>

datatype show_modal = NoShowModal | ShowsModal | ShowModalThrows

record modal_dialog =
  md_mounted :: bool
  md_open :: bool
  md_modal :: bool
  md_listening :: bool
  md_onCloseRef :: nat
  md_calls :: "nat list"

definition modal_new :: "nat \<Rightarrow> modal_dialog" where
  "modal_new onClose =
     \<lparr>md_mounted = False, md_open = False, md_modal = False, md_listening = False, md_onCloseRef = onClose,
      md_calls = []\<rparr>"

text \<open>The effect; without an element the ref is empty and nothing happens.\<close>

definition modal_effect :: "show_modal option \<Rightarrow> modal_dialog \<Rightarrow> modal_dialog" where
  "modal_effect element d =
     (case element of
        None \<Rightarrow> d
      | Some show \<Rightarrow>
          (let d1 = d\<lparr>md_mounted := True, md_open := True, md_modal := (show = ShowsModal)\<rparr>
           in d1\<lparr>md_listening := True\<rparr>))"

definition modal_cleanup :: "modal_dialog \<Rightarrow> modal_dialog" where
  "modal_cleanup d =
     (if \<not> md_mounted d then d
      else d\<lparr>md_mounted := False, md_listening := False, md_open := False, md_modal := False\<rparr>)"

text \<open>
  The \<open>cancel\<close> event. With the listener its default, which closes the dialog, is prevented and the latest
  \<open>onClose\<close> is called; without it the browser closes the dialog.
\<close>

definition modal_cancel :: "modal_dialog \<Rightarrow> modal_dialog" where
  "modal_cancel d =
     (if md_listening d then d\<lparr>md_calls := md_calls d @ [md_onCloseRef d]\<rparr>
      else d\<lparr>md_open := False, md_modal := False\<rparr>)"

datatype modal_event = DialogRenders nat | DialogMounts "show_modal option" | DialogCancel | DialogUnmounts

fun modal_handle :: "modal_event \<Rightarrow> modal_dialog \<Rightarrow> modal_dialog" where
  "modal_handle (DialogRenders onClose) d = d\<lparr>md_onCloseRef := onClose\<rparr>"
| "modal_handle (DialogMounts element) d = (if md_mounted d then d else modal_effect element d)"
| "modal_handle DialogCancel d = modal_cancel d"
| "modal_handle DialogUnmounts d = modal_cleanup d"

definition modal_inv :: "modal_dialog \<Rightarrow> bool" where
  "modal_inv d \<longleftrightarrow> (md_open d \<longleftrightarrow> md_mounted d) \<and> (md_listening d \<longleftrightarrow> md_mounted d) \<and> (md_modal d \<longrightarrow> md_open d)"

interpretation modal: event_invariant "\<lambda>d. \<exists>c. d = modal_new c" modal_handle modal_inv
proof (unfold_locales, goal_cases)
  case (2 d e)
  then show ?case
    by (cases e) (auto simp: modal_inv_def modal_effect_def modal_cleanup_def modal_cancel_def Let_def split: option.splits)
qed (auto simp: modal_inv_def modal_new_def)

text \<open>
  A mounted dialog is visible whatever \<open>showModal\<close> did, stays so on a cancel, and each cancel calls the
  \<open>onClose\<close> of the latest render once; an unmounted dialog is closed and calls nothing.
\<close>

lemma modal_dialog_behaves:
  "let d = fold modal_handle es (modal_new c); d' = modal_handle DialogCancel d
   in (md_open d \<longleftrightarrow> md_mounted d) \<and> (md_open d' \<longleftrightarrow> md_mounted d) \<and>
      md_calls d' = md_calls d @ (if md_mounted d then [md_onCloseRef d] else [])"
proof -
  have "modal_inv (fold modal_handle es (modal_new c))" by (rule modal.run_inv) blast
  then show ?thesis by (auto simp: modal_inv_def modal_cancel_def Let_def)
qed

section \<open>Registering the service worker\<close>

record page_environment =
  pe_production :: bool
  pe_serviceWorker :: bool
  pe_basePath :: jsstring
  pe_buildId :: jsstring

text \<open>The script and the scope that the page asks for; \<open>None\<close> where it registers nothing.\<close>

definition registration :: "page_environment \<Rightarrow> (jsstring \<times> jsstring) option" where
  "registration env =
     (if \<not> pe_production env \<or> \<not> pe_serviceWorker env then None
      else map_option (\<lambda>v. (pe_basePath env @ js ''/sw.js?v='' @ v, pe_basePath env @ js ''/''))
        (encodeURIComponent (pe_buildId env)))"

text \<open>The notice of a new version: a worker was installed while an older one controls the page.\<close>

datatype worker_state = SwInstalling | SwInstalled | SwActivating | SwActivated | SwRedundant

definition announces_update :: "worker_state \<Rightarrow> bool \<Rightarrow> bool" where
  "announces_update state controlled \<longleftrightarrow> state = SwInstalled \<and> controlled"

lemma upper_hex_units: "d < 16 \<Longrightarrow> unat (upper_hex d) \<in> {48..57} \<union> {65..70}"
proof -
  have unit: "unat (of_nat k :: code_unit) = k" if "k < 100" for k
    using that by (simp add: unat_of_nat)
  assume "d < 16"
  then show ?thesis
    using unit [of "48 + d"] unit [of "55 + d"] unfolding upper_hex_def by (cases "d < 10") (simp_all del: of_nat_add)
qed

text \<open>The build id never adds a parameter or a fragment to the script's URL.\<close>

lemma percent_units: "u \<in> set (percent_byte b) \<Longrightarrow> u \<notin> {35, 38, 61, 63}"
proof -
  assume u: "u \<in> set (percent_byte b)"
  show ?thesis
  proof (cases "unreserved b")
    case True
    then have "u = ucast b" using u by (simp add: percent_byte_def)
    moreover have "unat (ucast b :: code_unit) = unat b"
      using unat_byte_less [of b] by (simp add: unsigned_ucast_eq unsigned_take_bit_eq take_bit_nat_eq_self)
    moreover have "unat b \<notin> {35, 38, 61, 63}"
      using True by (auto simp: unreserved_def word_le_nat_alt word_unat_eq_iff)
    ultimately show ?thesis by (auto simp: word_unat_eq_iff)
  next
    case False
    then have "u = 37 \<or> u = upper_hex (unat b div 16) \<or> u = upper_hex (unat b mod 16)"
      using u by (auto simp: percent_byte_def)
    moreover have "unat b div 16 < 16" using unat_byte_less [of b] by simp
    ultimately show ?thesis using upper_hex_units [of "unat b div 16"] upper_hex_units [of "unat b mod 16"]
      by auto
  qed
qed

lemma registration_query:
  assumes "registration env = Some (url, scope)"
  shows "\<exists>v. url = pe_basePath env @ js ''/sw.js?v='' @ v \<and> list_all (\<lambda>u. u \<notin> {35, 38, 61, 63}) v \<and>
    starts_with scope url"
proof -
  obtain v where v: "encodeURIComponent (pe_buildId env) = Some v" "url = pe_basePath env @ js ''/sw.js?v='' @ v"
    "scope = pe_basePath env @ js ''/''"
    using assms by (auto simp: registration_def simp del: js_Cons split: if_splits)
  have "v = concat (map percent_byte (text_encode (pe_buildId env)))"
    using v(1) by (simp add: encodeURIComponent_def split: if_splits)
  then have "list_all (\<lambda>u. u \<notin> {35, 38, 61, 63}) v"
    using percent_units by (fastforce simp: list_all_iff)
  moreover have "url = scope @ js ''sw.js?v='' @ v" unfolding v(2,3) by simp
  then have "starts_with scope url" by simp
  ultimately show ?thesis using v(2) by blast
qed

end
