(* ===== verification/Tabs_Database.thy ===== *)
theory Tabs_Database
  imports Leader_System Worker "HOL-Library.Sublist"
begin

text \<open>
  The leader transport from end to end: in every tab a \<open>WorkerClient\<close> (\<open>packages/storage/src/rpc.ts\<close>) over
  the transport of \<open>Leader_Transport\<close> (\<open>leader.ts\<close>), all tabs of the origin with their lock manager
  (\<open>Leader_System\<close>), and the writer's storage worker (\<open>Worker\<close>) on the one database file. What a tab posts
  on a channel joins a set of posted messages; any of them may reach its listeners at any time, any number
  of times or never. The worker takes its messages in order. The abstract view is one database that
  executes requests one after the other; the theorem says that what a tab is told is what that
  database answered to the tab's own request.
\<close>

section \<open>Messages as envelopes\<close>

text \<open>The objects on the wire, as \<open>WorkerClient\<close> and the worker read them.\<close>

fun envelope_wire :: "server_envelope \<Rightarrow> wire" where
  "envelope_wire (Response i r) = \<lparr>w_id = Some i, w_payload = Reply r\<rparr>"
| "envelope_wire (Failure i m) = \<lparr>w_id = Some i, w_payload = ErrorReply m\<rparr>"

definition wire_envelope :: "wire \<Rightarrow> server_envelope option" where
  "wire_envelope w =
     (case w_id w of None \<Rightarrow> None | Some i \<Rightarrow>
        (case w_payload w of
           Reply r \<Rightarrow> Some (Response i r) | ErrorReply m \<Rightarrow> Some (Failure i m) | _ \<Rightarrow> None))"

definition wire_request :: "wire \<Rightarrow> client_envelope option" where
  "wire_request w =
     (case w_id w of None \<Rightarrow> None | Some i \<Rightarrow>
        (case w_payload w of Request r \<Rightarrow> Some \<lparr>ce_id = i, ce_request = r\<rparr> | _ \<Rightarrow> None))"

definition client_hear :: "wire \<Rightarrow> worker_client \<Rightarrow> worker_client" where
  "client_hear w c = (case wire_envelope w of None \<Rightarrow> c | Some env \<Rightarrow> wc_onMessage env c)"

section \<open>The state of the origin\<close>

text \<open>
  What only the proof knows: every request each client sent, which client's request the leader of a tab
  forwarded under which id, the requests the worker executed, in order, the tabs and client ids used so far,
  the rows at the start and the length of a leader id, which one browser's \<open>newLeaderId\<close> does not change.
\<close>

record ghost =
  gh_sent :: "string \<times> int \<Rightarrow> worker_request option"
  gh_ticket :: "nat \<Rightarrow> int \<Rightarrow> (string \<times> int) option"
  gh_log :: "(string \<times> int \<times> worker_request) list"
  gh_initial :: note_table
  gh_tabs :: "nat set"
  gh_clients :: "string set"
  gh_idLength :: nat

record net =
  nt_sys :: system
  nt_client :: "string \<Rightarrow> worker_client"
  nt_posted :: "(string \<times> tab_effect) set"
  nt_writer :: "(nat \<times> storage_worker) option"
  nt_inbox :: "wire list"
  nt_table :: note_table
  nt_ghost :: ghost

text \<open>
  What a tab's effects do outside it. The page-side listeners are the client's two; a microtask of \<open>post\<close>
  is delivered later; a spawned writer opens the file as it is.
\<close>

fun net_effect :: "nat \<Rightarrow> string \<Rightarrow> tab_effect \<Rightarrow> net \<Rightarrow> net" where
  "net_effect n c (EmitMessage w) s = s\<lparr>nt_client := (nt_client s)(c := client_hear w (nt_client s c))\<rparr>"
| "net_effect n c EmitError s = s\<lparr>nt_client := (nt_client s)(c := wc_onError (nt_client s c))\<rparr>"
| "net_effect n c SpawnWriter s =
     s\<lparr>nt_writer := Some (n, sw_connect 0 (sw_new (nt_table s))), nt_inbox := []\<rparr>"
| "net_effect n c CloseWriter s =
     (if map_option fst (nt_writer s) = Some n then s\<lparr>nt_writer := None, nt_inbox := []\<rparr> else s)"
| "net_effect n c (WriterPost w) s =
     (if map_option fst (nt_writer s) = Some n then s\<lparr>nt_inbox := nt_inbox s @ [w]\<rparr> else s)"
| "net_effect n c (Discover m) s = s\<lparr>nt_posted := insert (c, Discover m) (nt_posted s)\<rparr>"
| "net_effect n c (PairPost ch w) s = s\<lparr>nt_posted := insert (c, PairPost ch w) (nt_posted s)\<rparr>"
| "net_effect n c (BridgePost ch w) s = s\<lparr>nt_posted := insert (c, BridgePost ch w) (nt_posted s)\<rparr>"
| "net_effect n c (EmitLater w) s = s\<lparr>nt_posted := insert (c, EmitLater w) (nt_posted s)\<rparr>"
| "net_effect n c _ s = s"

definition act :: "nat \<Rightarrow> tab \<times> tab_effect list \<Rightarrow> system \<Rightarrow> net \<Rightarrow> net" where
  "act n r sy s =
     fold (net_effect n (t_clientId (fst r))) (snd r) (s\<lparr>nt_sys := perform n r sy\<rparr>)"

section \<open>Steps\<close>

definition net_open :: "nat \<Rightarrow> string \<Rightarrow> net \<Rightarrow> net" where
  "net_open n c s = act n (createLeaderTransport c) (nt_sys s)
     (s\<lparr>nt_client := (nt_client s)(c := wc_new),
        nt_ghost := (nt_ghost s)\<lparr>gh_tabs := insert n (gh_tabs (nt_ghost s)),
          gh_clients := insert c (gh_clients (nt_ghost s))\<rparr>\<rparr>)"

definition with_sent :: "string \<Rightarrow> int \<Rightarrow> worker_request \<Rightarrow> ghost \<Rightarrow> ghost" where
  "with_sent c i req g = g\<lparr>gh_sent := (gh_sent g)((c, i) \<mapsto> req)\<rparr>"

text \<open>\<open>send\<close>: the envelope is posted on the transport.\<close>

definition net_call :: "nat \<Rightarrow> tab \<Rightarrow> worker_request \<Rightarrow> net \<Rightarrow> net" where
  "net_call n t req s =
     (let c = t_clientId t
      in case wc_send req None (nt_client s c) of (c', env) \<Rightarrow>
        act n (tab_post (request_wire (ce_id env) (ce_request env)) t) (nt_sys s)
          (s\<lparr>nt_client := (nt_client s)(c := c'),
             nt_ghost := with_sent c (ce_id env) req (nt_ghost s)\<rparr>))"

text \<open>\<open>terminate\<close>: the close request is posted and the transport closed.\<close>

definition net_hang_up :: "nat \<Rightarrow> tab \<Rightarrow> net \<Rightarrow> net" where
  "net_hang_up n t s =
     (let c = t_clientId t
      in case wc_terminate (nt_client s c) of (c', env) \<Rightarrow>
        act n (run_all [tab_post (request_wire (ce_id env) (ce_request env)), tab_close] t) (nt_sys s)
          (s\<lparr>nt_client := (nt_client s)(c := c'),
             nt_ghost := with_sent c (ce_id env) RClose (nt_ghost s)\<rparr>))"

text \<open>The bridge of client \<open>c\<close> takes the next id for a numbered message that is not a close.\<close>

definition issue :: "nat \<Rightarrow> tab \<Rightarrow> string \<Rightarrow> wire \<Rightarrow> ghost \<Rightarrow> ghost" where
  "issue n t c w g =
     (case w_id w of None \<Rightarrow> g | Some i \<Rightarrow>
        if w_payload w = Request RClose then g
        else g\<lparr>gh_ticket := (gh_ticket g)(n := (gh_ticket g n)(mx_next (t_mux t) \<mapsto> (c, i)))\<rparr>)"

definition log_request :: "nat \<Rightarrow> int \<Rightarrow> worker_request \<Rightarrow> ghost \<Rightarrow> ghost" where
  "log_request n k req g =
     (case gh_ticket g n k of None \<Rightarrow> g | Some (c, i) \<Rightarrow> g\<lparr>gh_log := gh_log g @ [(c, i, req)]\<rparr>)"

text \<open>The worker takes the first message of its queue; it executes the request or parks it.\<close>

definition net_receive :: "nat \<Rightarrow> storage_worker \<Rightarrow> wire \<Rightarrow> wire list \<Rightarrow> net \<Rightarrow> net" where
  "net_receive n w x q s =
     (case wire_request x of
        None \<Rightarrow> s\<lparr>nt_inbox := q\<rparr>
      | Some env \<Rightarrow>
          let w' = sw_receive 0 env w
          in s\<lparr>nt_writer := Some (n, w'), nt_inbox := q, nt_table := sw_table w',
               nt_ghost := (if 0 \<notin> set (sw_ports w) \<or> needs_db (ce_request env) \<and> \<not> sw_opened w
                 then nt_ghost s else log_request n (ce_id env) (ce_request env) (nt_ghost s))\<rparr>)"

text \<open>The opening started for the j-th parked request ends; with the database, the request is executed.\<close>

definition net_open_done :: "nat \<Rightarrow> storage_worker \<Rightarrow> nat \<Rightarrow> jsstring option \<Rightarrow> net \<Rightarrow> net" where
  "net_open_done n w j err s =
     (let w' = sw_open_done j err w
      in s\<lparr>nt_writer := Some (n, w'), nt_table := sw_table w',
           nt_ghost := (case sw_parked w ! j of (p, k, req) \<Rightarrow>
             if err = None then log_request n k req (nt_ghost s) else nt_ghost s)\<rparr>)"

definition net_unload :: "nat \<Rightarrow> net \<Rightarrow> net" where
  "net_unload n s =
     (if map_option fst (nt_writer s) = Some n then s\<lparr>nt_writer := None, nt_inbox := []\<rparr> else s)
       \<lparr>nt_sys := sys_unload n (nt_sys s)\<rparr>"

inductive tab_own_event :: "tab \<Rightarrow> tab \<times> tab_effect list \<Rightarrow> bool" where
  own_writer_error: "tab_own_event t (tab_writerError now t)"
| own_timer: "tab_own_event t (tab_timer t)"
| own_finally: "tab_own_event t (tab_lockFinally g t)"

inductive net_step :: "net \<Rightarrow> net \<Rightarrow> bool" where
  net_step_open: "n \<notin> gh_tabs (nt_ghost s) \<Longrightarrow> c \<notin> gh_clients (nt_ghost s) \<Longrightarrow> net_step s (net_open n c s)"
| net_step_call: "sys_tab (nt_sys s) n = Some t \<Longrightarrow> net_step s (net_call n t req s)"
| net_step_hang_up: "sys_tab (nt_sys s) n = Some t \<Longrightarrow> net_step s (net_hang_up n t s)"
| net_step_own: "sys_tab (nt_sys s) n = Some t \<Longrightarrow> tab_own_event t r \<Longrightarrow> net_step s (act n r (nt_sys s) s)"
| net_step_discovery: "sys_tab (nt_sys s) n = Some t \<Longrightarrow> (c, Discover msg) \<in> nt_posted s \<Longrightarrow>
    net_step s (act n (tab_onDiscovery msg t) (nt_sys s) s)"
| net_step_pair: "sys_tab (nt_sys s) n = Some t \<Longrightarrow> (c, BridgePost ch w) \<in> nt_posted s \<Longrightarrow>
    t_pairChannel t = Some ch \<Longrightarrow> net_step s (act n (tab_onPairMessage w t) (nt_sys s) s)"
| net_step_bridge: "sys_tab (nt_sys s) n = Some t \<Longrightarrow> (c', PairPost ch w) \<in> nt_posted s \<Longrightarrow>
    map_of (mx_bridges (t_mux t)) c = Some b \<Longrightarrow> b_channel b = ch \<Longrightarrow>
    net_step s (act n (tab_onBridgeMessage c w t) (nt_sys s) (s\<lparr>nt_ghost := issue n t c w (nt_ghost s)\<rparr>))"
| net_step_writer: "sys_tab (nt_sys s) n = Some t \<Longrightarrow> nt_writer s = Some (n, w) \<Longrightarrow> (p, env) \<in> set (sw_out w) \<Longrightarrow>
    net_step s (act n (tab_onWriterMessage (envelope_wire env) t) (nt_sys s) s)"
| net_step_later: "(c, EmitLater w) \<in> nt_posted s \<Longrightarrow>
    net_step s (s\<lparr>nt_client := (nt_client s)(c := client_hear w (nt_client s c))\<rparr>)"
| net_step_receive: "nt_writer s = Some (n, w) \<Longrightarrow> nt_inbox s = x # q \<Longrightarrow>
    net_step s (net_receive n w x q s)"
| net_step_open_done: "nt_writer s = Some (n, w) \<Longrightarrow> j < length (sw_parked w) \<Longrightarrow>
    net_step s (net_open_done n w j err s)"
| net_step_grant: "sys_held (nt_sys s) = None \<Longrightarrow> sys_queue (nt_sys s) = n # q \<Longrightarrow> sys_tab (nt_sys s) n = Some t \<Longrightarrow>
    length newId = gh_idLength (nt_ghost s) \<Longrightarrow>
    net_step s (act n (tab_grant newId t) ((nt_sys s)\<lparr>sys_held := Some n, sys_queue := q\<rparr>) s)"
| net_step_grant_throws: "sys_held (nt_sys s) = None \<Longrightarrow> sys_queue (nt_sys s) = n # q \<Longrightarrow>
    sys_tab (nt_sys s) n = Some t \<Longrightarrow> length newId = gh_idLength (nt_ghost s) \<Longrightarrow>
    net_step s (act n (tab_grant_throws newId t) ((nt_sys s)\<lparr>sys_held := Some n, sys_queue := q\<rparr>) s)"
| net_step_refuse: "n \<in> set (sys_queue (nt_sys s)) \<Longrightarrow> sys_tab (nt_sys s) n = Some t \<Longrightarrow>
    net_step s (act n (tab_lockRejected t) ((nt_sys s)\<lparr>sys_queue := remove1 n (sys_queue (nt_sys s))\<rparr>) s)"
| net_step_unload: "net_step s (net_unload n s)"

definition net_start :: "nat \<Rightarrow> note_table \<Rightarrow> net" where
  "net_start len rows =
     \<lparr>nt_sys = \<lparr>sys_tab = (\<lambda>_. None), sys_held = None, sys_queue = []\<rparr>, nt_client = (\<lambda>_. wc_new),
      nt_posted = {}, nt_writer = None, nt_inbox = [], nt_table = rows,
      nt_ghost = \<lparr>gh_sent = (\<lambda>_. None), gh_ticket = (\<lambda>_ _. None), gh_log = [], gh_initial = rows,
        gh_tabs = {}, gh_clients = {}, gh_idLength = len\<rparr>\<rparr>"

definition net_init :: "net \<Rightarrow> bool" where
  "net_init s \<longleftrightarrow> (\<exists>len rows. s = net_start len rows)"

section \<open>The abstract database\<close>

definition rows_after :: "note_table \<Rightarrow> (string \<times> int \<times> worker_request) list \<Rightarrow> note_table" where
  "rows_after = foldl (\<lambda>rows (c, i, req). fst (handle req rows))"

fun outcome_of :: "error_text + worker_response \<Rightarrow> outcome" where
  "outcome_of (Inl m) = Rejected m"
| "outcome_of (Inr r) = Resolved r"

definition answer :: "worker_request \<Rightarrow> note_table \<Rightarrow> outcome" where
  "answer req rows = outcome_of (snd (snd (handle req rows)))"

text \<open>The request was executed at some point of the log, and this is what it returned there.\<close>

definition executed :: "ghost \<Rightarrow> string \<Rightarrow> int \<Rightarrow> worker_request \<Rightarrow> outcome \<Rightarrow> bool" where
  "executed g c i req v \<longleftrightarrow> (\<exists>before after. gh_log g = before @ (c, i, req) # after \<and>
     v = answer req (rows_after (gh_initial g) before))"

text \<open>An outcome that says the request got no answer: the transport or the opening of the database failed.\<close>

fun no_answer :: "outcome \<Rightarrow> bool" where
  "no_answer (Rejected (Text _)) = True"
| "no_answer (Rejected (OfOpen _)) = True"
| "no_answer _ = False"

definition genuine :: "ghost \<Rightarrow> string \<Rightarrow> int \<Rightarrow> outcome \<Rightarrow> bool" where
  "genuine g c i v \<longleftrightarrow> (\<exists>req. gh_sent g (c, i) = Some req \<and>
     (executed g c i req v \<or> no_answer v \<or> req = RClose \<and> v = Resolved SClose))"

section \<open>What a message may claim\<close>

definition channel_of :: "ghost \<Rightarrow> string \<Rightarrow> string \<Rightarrow> bool" where
  "channel_of g c ch \<longleftrightarrow> (\<exists>l. length l = gh_idLength g \<and> ch = pairChannelName l c)"

lemma channel_of_unique: "channel_of g c ch \<Longrightarrow> channel_of g c' ch \<Longrightarrow> c = c'"
  by (auto simp: channel_of_def pairChannelName_def)

definition genuine_wire :: "ghost \<Rightarrow> string \<Rightarrow> wire \<Rightarrow> bool" where
  "genuine_wire g c w \<longleftrightarrow> (\<exists>i. w_id w = Some i \<and>
     (case w_payload w of
        Reply r \<Rightarrow> genuine g c i (Resolved r)
      | ErrorReply m \<Rightarrow> genuine g c i (Rejected m)
      | _ \<Rightarrow> False))"

definition sent_wire :: "ghost \<Rightarrow> string \<Rightarrow> wire \<Rightarrow> bool" where
  "sent_wire g c w \<longleftrightarrow> (\<exists>i req. w = request_wire i req \<and> gh_sent g (c, i) = Some req)"

definition ticketed :: "ghost \<Rightarrow> nat \<Rightarrow> int \<Rightarrow> worker_request \<Rightarrow> bool" where
  "ticketed g n k req \<longleftrightarrow> (\<exists>c i. gh_ticket g n k = Some (c, i) \<and> gh_sent g (c, i) = Some req)"

definition answered :: "ghost \<Rightarrow> nat \<Rightarrow> server_envelope \<Rightarrow> bool" where
  "answered g n env \<longleftrightarrow> (\<exists>c i. gh_ticket g n (envelope_id env) = Some (c, i) \<and>
     genuine_wire g c (envelope_wire env\<lparr>w_id := Some i\<rparr>))"

text \<open>What a tab with client id \<open>c\<close> and number \<open>n\<close> may do to the outside.\<close>

fun effect_ok :: "ghost \<Rightarrow> nat \<Rightarrow> string \<Rightarrow> tab_effect \<Rightarrow> bool" where
  "effect_ok g n c (Discover (LeaderElected l)) \<longleftrightarrow> length l = gh_idLength g"
| "effect_ok g n c (Discover (PairRequest l c' ch)) \<longleftrightarrow> channel_of g c' ch"
| "effect_ok g n c (PairPost ch w) \<longleftrightarrow> channel_of g c ch \<and> sent_wire g c w"
| "effect_ok g n c (BridgePost ch w) \<longleftrightarrow> (\<exists>c'. channel_of g c' ch \<and> genuine_wire g c' w)"
| "effect_ok g n c (WriterPost w) \<longleftrightarrow> (\<exists>k req. w = request_wire k req \<and> ticketed g n k req)"
| "effect_ok g n c (EmitMessage w) \<longleftrightarrow> genuine_wire g c w"
| "effect_ok g n c (EmitLater w) \<longleftrightarrow> genuine_wire g c w"
| "effect_ok g n c _ \<longleftrightarrow> True"

definition mux_ok :: "ghost \<Rightarrow> nat \<Rightarrow> mux \<Rightarrow> bool" where
  "mux_ok g n m \<longleftrightarrow> (\<forall>(c, b) \<in> set (mx_bridges m). channel_of g c (b_channel b) \<and>
     (\<forall>(k, i) \<in> set (b_idMap b). gh_ticket g n k = Some (c, i) \<and> gh_sent g (c, i) \<noteq> None))"

definition tab_ok :: "ghost \<Rightarrow> nat \<Rightarrow> tab \<Rightarrow> bool" where
  "tab_ok g n t \<longleftrightarrow>
     (\<forall>(i, w) \<in> set (t_inFlight t). w_id w = Some i \<and> sent_wire g (t_clientId t) w) \<and>
     (\<forall>ch. t_pairChannel t = Some ch \<longrightarrow> channel_of g (t_clientId t) ch) \<and>
     (\<forall>l ch. t_pendingPair t = Some (l, ch) \<longrightarrow> channel_of g (t_clientId t) ch) \<and>
     (\<forall>l. t_leaderId t = Some l \<longrightarrow> length l = gh_idLength g) \<and>
     mux_ok g n (t_mux t)"

text \<open>One event of a tab: what it keeps and what it lets out.\<close>

definition result_ok :: "ghost \<Rightarrow> nat \<Rightarrow> tab \<Rightarrow> tab \<times> tab_effect list \<Rightarrow> bool" where
  "result_ok g n t r \<longleftrightarrow>
     tab_ok g n (fst r) \<and> t_clientId (fst r) = t_clientId t \<and>
     mx_next (t_mux t) \<le> mx_next (t_mux (fst r)) \<and>
     (\<forall>e \<in> set (snd r). effect_ok g n (t_clientId t) e)"

definition extends :: "ghost \<Rightarrow> ghost \<Rightarrow> bool" where
  "extends g g' \<longleftrightarrow>
     gh_sent g \<subseteq>\<^sub>m gh_sent g' \<and> (\<forall>n. gh_ticket g n \<subseteq>\<^sub>m gh_ticket g' n) \<and>
     prefix (gh_log g) (gh_log g') \<and> gh_initial g' = gh_initial g \<and> gh_idLength g' = gh_idLength g"

lemma map_le_Some: "m \<subseteq>\<^sub>m m' \<Longrightarrow> m x = Some y \<Longrightarrow> m' x = Some y"
  by (metis domI map_le_def)

lemma extends_sent: "extends g g' \<Longrightarrow> gh_sent g x = Some y \<Longrightarrow> gh_sent g' x = Some y"
  by (auto simp: extends_def dest: map_le_Some)

lemma extends_ticket: "extends g g' \<Longrightarrow> gh_ticket g n k = Some y \<Longrightarrow> gh_ticket g' n k = Some y"
  by (auto simp: extends_def dest: map_le_Some)

lemma extends_genuine: "extends g g' \<Longrightarrow> genuine g c i v \<Longrightarrow> genuine g' c i v"
  by (fastforce simp: genuine_def executed_def extends_def prefix_def dest: map_le_Some)

lemma extends_channel: "extends g g' \<Longrightarrow> channel_of g' c ch = channel_of g c ch"
  by (auto simp: channel_of_def extends_def)

lemma extends_idLength: "extends g g' \<Longrightarrow> gh_idLength g' = gh_idLength g"
  by (simp add: extends_def)

lemma extends_wire: "extends g g' \<Longrightarrow> genuine_wire g c w \<Longrightarrow> genuine_wire g' c w"
  by (auto simp: genuine_wire_def extends_genuine split: payload.splits)

lemma extends_sent_wire: "extends g g' \<Longrightarrow> sent_wire g c w \<Longrightarrow> sent_wire g' c w"
  unfolding sent_wire_def using extends_sent by blast

lemma extends_ticketed: "extends g g' \<Longrightarrow> ticketed g n k req \<Longrightarrow> ticketed g' n k req"
  unfolding ticketed_def by (meson extends_sent extends_ticket)

lemma extends_answered: "extends g g' \<Longrightarrow> answered g n env \<Longrightarrow> answered g' n env"
  unfolding answered_def by (meson extends_wire extends_ticket)

lemmas extended = extends_sent extends_ticket extends_genuine extends_channel extends_idLength extends_wire
  extends_sent_wire extends_ticketed extends_answered

lemma extends_effect: "extends g g' \<Longrightarrow> effect_ok g n c e \<Longrightarrow> effect_ok g' n c e"
  by (induction g n c e rule: effect_ok.induct) (simp_all add: extended, (metis extended)+)

lemma extends_mux: "extends g g' \<Longrightarrow> mux_ok g n m \<Longrightarrow> mux_ok g' n m"
  by (fastforce simp: mux_ok_def extended)

lemma extends_tab: "extends g g' \<Longrightarrow> tab_ok g n t \<Longrightarrow> tab_ok g' n t"
  by (auto simp: tab_ok_def extended extends_mux)

section \<open>The bridges let through only what they may\<close>

fun bridge_effect_ok :: "ghost \<Rightarrow> nat \<Rightarrow> string \<Rightarrow> bridge_effect \<Rightarrow> bool" where
  "bridge_effect_ok g n c (ToWriter w) \<longleftrightarrow> (\<exists>k req. w = request_wire k req \<and> ticketed g n k req)"
| "bridge_effect_ok g n c (ToClient w) \<longleftrightarrow> genuine_wire g c w"
| "bridge_effect_ok g n c ClientClosed \<longleftrightarrow> True"

lemma mux_ok_bridge:
  assumes "mux_ok g n m" and "(c, b) \<in> set (mx_bridges m)"
  shows "channel_of g c (b_channel b)"
    and "(k, i) \<in> set (b_idMap b) \<Longrightarrow> gh_ticket g n k = Some (c, i)"
    and "(k, i) \<in> set (b_idMap b) \<Longrightarrow> gh_sent g (c, i) \<noteq> None"
  using assms unfolding mux_ok_def by fastforce+

lemma mux_ok_map:
  assumes "mux_ok g n m"
    and "\<And>b. b_channel (f b) = b_channel b" and "\<And>b. set (b_idMap (f b)) \<subseteq> set (b_idMap b)"
  shows "mux_ok g n (m\<lparr>mx_bridges := map (\<lambda>(c, b). (c, f b)) (mx_bridges m)\<rparr>)"
  using assms(1) unfolding mux_ok_def by (auto simp: assms(2) dest!: subsetD [OF assms(3)])

lemma bridge_posts_ok:
  assumes "mux_ok g n m" and "\<forall>(c, e) \<in> set effs. bridge_effect_ok g n c e"
  shows "\<forall>x \<in> set (bridge_posts m effs). effect_ok g n c0 x"
proof -
  have "effect_ok g n c0 x"
    if "(c, e) \<in> set effs"
      and "x \<in> set (case e of
        ToWriter w \<Rightarrow> [WriterPost w]
      | ToClient w \<Rightarrow> (case map_of (mx_bridges m) c of Some b \<Rightarrow> [BridgePost (b_channel b) w] | None \<Rightarrow> [])
      | ClientClosed \<Rightarrow> [])" for c e x
  proof -
    have "bridge_effect_ok g n c e" using assms(2) that(1) by blast
    with that(2) show ?thesis
      using mux_ok_bridge(1) [OF assms(1)]
      by (cases e; cases "map_of (mx_bridges m) c") (auto dest: map_of_SomeD)
  qed
  then show ?thesis unfolding bridge_posts_def by fastforce
qed

lemma mux_pair_ok: "mux_ok g n m \<Longrightarrow> channel_of g c ch \<Longrightarrow> mux_ok g n (mux_pair c ch m)"
  by (auto simp: mux_ok_def mux_pair_def new_bridge_def dest!: in_set_AList_update)

lemma mux_dispose_ok: "mux_ok g n (mux_dispose m)"
  by (simp add: mux_ok_def)

lemma set_AList_delete: "set (AList.delete k al) \<subseteq> set al"
  by (auto simp: AList.delete_eq)

lemma mux_writer_ok:
  assumes "mux_ok g n m" and "answered g n env"
  shows "mux_ok g n (fst (mux_writer (envelope_wire env) m))"
    and "\<forall>(c, e) \<in> set (snd (mux_writer (envelope_wire env) m)). bridge_effect_ok g n c e"
proof -
  have "b_channel (fst (bridge_onWriterMessage w b)) = b_channel b"
      "set (b_idMap (fst (bridge_onWriterMessage w b))) \<subseteq> set (b_idMap b)" for w b
    by (auto simp: bridge_onWriterMessage_def dest: subsetD [OF set_AList_delete] split: option.splits)
  then show "mux_ok g n (fst (mux_writer (envelope_wire env) m))"
    unfolding mux_writer_def fst_conv by (intro mux_ok_map assms(1))
  obtain c' i' where ticket: "gh_ticket g n (envelope_id env) = Some (c', i')"
      and gen: "genuine_wire g c' (envelope_wire env\<lparr>w_id := Some i'\<rparr>)"
    using assms(2) by (auto simp: answered_def)
  have "bridge_effect_ok g n c e"
    if "(c, b) \<in> set (mx_bridges m)" "e \<in> set (snd (bridge_onWriterMessage (envelope_wire env) b))" for c b e
  proof -
    have id: "w_id (envelope_wire env) = Some (envelope_id env)" by (cases env) simp_all
    from that(2) id obtain i where "map_of (b_idMap b) (envelope_id env) = Some i"
        and e: "e = ToClient (envelope_wire env\<lparr>w_id := Some i\<rparr>)"
      by (auto simp: bridge_onWriterMessage_def split: option.splits if_splits)
    then have "gh_ticket g n (envelope_id env) = Some (c, i)"
      using mux_ok_bridge(2) [OF assms(1) that(1)] map_of_SomeD by fast
    with ticket gen e show ?thesis by simp
  qed
  then show "\<forall>(c, e) \<in> set (snd (mux_writer (envelope_wire env) m)). bridge_effect_ok g n c e"
    by (auto simp: mux_writer_def)
qed

lemma failure_genuine: "gh_sent g (c, i) \<noteq> None \<Longrightarrow> genuine_wire g c (error_wire i (Text m))"
  by (auto simp: genuine_wire_def genuine_def error_wire_def)

lemma mux_fail_ok:
  assumes "mux_ok g n m"
  shows "mux_ok g n (fst (mux_fail (Text e) m))"
    and "\<forall>(c, f) \<in> set (snd (mux_fail (Text e) m)). bridge_effect_ok g n c f"
proof -
  show "mux_ok g n (fst (mux_fail (Text e) m))"
    unfolding mux_fail_def fst_conv by (intro mux_ok_map assms) (simp_all add: failPending_def)
  have "bridge_effect_ok g n c f"
    if "(c, b) \<in> set (mx_bridges m)" "f \<in> set (snd (failPending (Text e) b))" for c b f
    using that(2) mux_ok_bridge(3) [OF assms that(1)]
    by (auto simp: failPending_def failure_genuine split: if_splits)
  then show "\<forall>(c, f) \<in> set (snd (mux_fail (Text e) m)). bridge_effect_ok g n c f"
    by (auto simp: mux_fail_def)
qed

text \<open>The bridge of \<open>c\<close> forwards a request that was sent on its channel, under the ticket issued for it.\<close>

lemma mux_client_ok:
  assumes "mux_ok g n m" and "sent_wire g c w"
    and "w_payload w = Request RClose \<or> (\<exists>i. w_id w = Some i \<and> gh_ticket g n (mx_next m) = Some (c, i))"
  shows "mux_ok g n (fst (mux_client c w m))"
    and "\<forall>(c', e) \<in> set (snd (mux_client c w m)). bridge_effect_ok g n c' e"
proof -
  obtain i req where w: "w = request_wire i req" and sent: "gh_sent g (c, i) = Some req"
    using assms(2) by (auto simp: sent_wire_def)
  have ticket: "gh_ticket g n (mx_next m) = Some (c, i)" if "req \<noteq> RClose"
    using assms(3) that w by (auto simp: request_wire_def)
  have del: "mux_ok g n (m\<lparr>mx_next := k, mx_bridges := AList.delete c (mx_bridges m)\<rparr>)" for k
    using assms(1) set_AList_delete by (fastforce simp: mux_ok_def)
  have upd: "mux_ok g n (m\<lparr>mx_next := k, mx_bridges := AList.update c b (mx_bridges m)\<rparr>)"
    if "channel_of g c (b_channel b)"
      and "\<forall>(k, i) \<in> set (b_idMap b). gh_ticket g n k = Some (c, i) \<and> gh_sent g (c, i) \<noteq> None" for k b
    using assms(1) that by (auto simp: mux_ok_def dest!: in_set_AList_update)
  have "mux_ok g n (fst (mux_client c w m)) \<and>
    (\<forall>(c', e) \<in> set (snd (mux_client c w m)). bridge_effect_ok g n c' e)"
  proof (cases "map_of (mx_bridges m) c")
    case None
    then show ?thesis using assms(1) by (simp add: mux_client_def)
  next
    case (Some b)
    then have b: "(c, b) \<in> set (mx_bridges m)" by (rule map_of_SomeD)
    note old = mux_ok_bridge [OF assms(1) b]
    have same: "\<forall>(k, i) \<in> set (b_idMap b). gh_ticket g n k = Some (c, i) \<and> gh_sent g (c, i) \<noteq> None"
      using old by blast
    then have grown: "\<forall>(k, i) \<in> set (AList.update (mx_next m) i (b_idMap b)).
        gh_ticket g n k = Some (c, i) \<and> gh_sent g (c, i) \<noteq> None" if "req \<noteq> RClose"
      using ticket [OF that] sent by (auto dest!: in_set_AList_update)
    show ?thesis
    proof (cases "req = RClose")
      case True
      then show ?thesis
        using Some w sent del [of "mx_next m"] upd [OF old(1) same, of "mx_next m"]
        by (auto simp: mux_client_def bridge_onClientMessage_def request_wire_def genuine_wire_def genuine_def)
    next
      case False
      then show ?thesis
        using Some w sent ticket grown upd [OF old(1) same, of "mx_next m"] upd [of "b\<lparr>b_idMap := AList.update (mx_next m) i (b_idMap b)\<rparr>"] old(1)
        by (auto simp: mux_client_def bridge_onClientMessage_def request_wire_def ticketed_def)
    qed
  qed
  then show "mux_ok g n (fst (mux_client c w m))"
    and "\<forall>(c', e) \<in> set (snd (mux_client c w m)). bridge_effect_ok g n c' e" by simp_all
qed

lemma mux_next_mono:
  "mx_next m \<le> mx_next (fst (mux_client c w m))"
  "mx_next (fst (mux_writer w m)) = mx_next m" "mx_next (fst (mux_fail e m)) = mx_next m"
  "mx_next (mux_pair c ch m) = mx_next m" "mx_next (mux_dispose m) = mx_next m"
  by (auto simp: mux_client_def bridge_onClientMessage_def mux_writer_def mux_fail_def mux_pair_def
      mux_dispose_def split: option.splits)

section \<open>The tab's events let through only what they may\<close>

lemma tab_ok_sent: "tab_ok g n t \<Longrightarrow> (i, w) \<in> set (t_inFlight t) \<Longrightarrow> w_id w = Some i \<and> sent_wire g (t_clientId t) w"
  by (auto simp: tab_ok_def)

lemma in_flight_sent:
  assumes "tab_ok g n t" and "(i, w) \<in> set (t_inFlight t)"
  shows "gh_sent g (t_clientId t, i) \<noteq> None"
proof -
  have "w_id w = Some i \<and> sent_wire g (t_clientId t) w" using assms by (rule tab_ok_sent)
  then show ?thesis by (auto simp: sent_wire_def request_wire_def)
qed

lemma replay_ok:
  assumes "tab_ok g n t" and "channel_of g (t_clientId t) ch"
  shows "e \<in> set (map (\<lambda>(_, data). PairPost ch data) (t_inFlight t)) \<Longrightarrow> effect_ok g n (t_clientId t) e"
  using assms tab_ok_sent by fastforce

text \<open>Forgetting part of what a tab keeps is always allowed.\<close>

lemma tab_ok_forget:
  assumes "tab_ok g n t" and "t_clientId u = t_clientId t"
    and "set (t_inFlight u) \<subseteq> set (t_inFlight t)"
    and "t_pairChannel u = None \<or> t_pairChannel u = t_pairChannel t"
    and "t_pendingPair u = None \<or> t_pendingPair u = t_pendingPair t"
    and "t_leaderId u = None \<or> t_leaderId u = t_leaderId t"
    and "mux_ok g n (t_mux u)"
  shows "tab_ok g n u"
  using assms by (auto simp: tab_ok_def) metis+

lemma tab_ok_mux: "tab_ok g n t \<Longrightarrow> mux_ok g n (t_mux t)"
  by (simp add: tab_ok_def)

lemma created_ok: "result_ok g n (fst (createLeaderTransport c)) (createLeaderTransport c)"
  by (simp add: result_ok_def createLeaderTransport_def action_defs tab_ok_def mux_ok_def mux_new_def)

lemma pairWithLeader_ok:
  assumes "tab_ok g n t" and "length l = gh_idLength g"
  shows "result_ok g n t (pairWithLeader l t)"
proof -
  have "channel_of g (t_clientId t) (pairChannelName l (t_clientId t))"
    using assms(2) by (auto simp: channel_of_def)
  with assms show ?thesis
    by (auto simp: result_ok_def pairWithLeader_def action_defs tab_ok_def Let_def)
qed

lemma discovery_ok:
  assumes "tab_ok g n t" and "effect_ok g n c (Discover msg)"
  shows "result_ok g n t (tab_onDiscovery msg t)"
proof (cases msg)
  case (LeaderElected l)
  with assms pairWithLeader_ok [OF assms(1)] show ?thesis by (auto simp: result_ok_def)
next
  case (PairRequest l c' ch)
  with assms have "mux_ok g n (mux_pair c' ch (t_mux t))" by (simp add: tab_ok_def mux_pair_ok)
  with PairRequest assms show ?thesis by (auto simp: result_ok_def tab_ok_def mux_next_mono)
next
  case (PairAck l c')
  have "tab_ok g n (t\<lparr>t_pendingPair := None\<rparr>)" "tab_ok g n (t\<lparr>t_pendingPair := None, t_ready := ReadyOk\<rparr>)"
    using assms(1) by (simp_all add: tab_ok_def)
  moreover have "channel_of g (t_clientId t) ch" if "t_pairChannel t = Some ch" for ch
    using assms(1) that by (simp add: tab_ok_def)
  ultimately show ?thesis
    using PairAck assms(1) replay_ok [OF assms(1)]
    by (auto simp: result_ok_def action_defs split: option.splits)
next
  case LeaderQuery
  with assms show ?thesis by (auto simp: result_ok_def tab_ok_def split: option.splits)
next
  case (LeaderFailed l m)
  with assms show ?thesis by (auto simp: result_ok_def action_defs tab_ok_def)
qed

lemma pair_ok:
  assumes "tab_ok g n t" and "genuine_wire g (t_clientId t) w"
  shows "result_ok g n t (tab_onPairMessage w t)"
proof -
  have "tab_ok g n (t\<lparr>t_inFlight := AList.delete i (t_inFlight t)\<rparr>)" for i
    using tab_ok_mux [OF assms(1)] by (intro tab_ok_forget [OF assms(1)]) (simp_all add: set_AList_delete)
  with assms show ?thesis by (auto simp: result_ok_def tab_onPairMessage_def split: option.splits)
qed

lemma tab_ok_with_mux: "tab_ok g n t \<Longrightarrow> mux_ok g n m \<Longrightarrow> tab_ok g n (t\<lparr>t_mux := m\<rparr>)"
  by (simp add: tab_ok_def)

lemma bridge_ok_result:
  assumes "tab_ok g n t" and "sent_wire g c w"
    and "w_payload w = Request RClose \<or> (\<exists>i. w_id w = Some i \<and> gh_ticket g n (mx_next (t_mux t)) = Some (c, i))"
  shows "result_ok g n t (tab_onBridgeMessage c w t)"
  using mux_client_ok [OF tab_ok_mux [OF assms(1)] assms(2,3)] mux_next_mono(1) tab_ok_with_mux [OF assms(1)]
    bridge_posts_ok [OF tab_ok_mux [OF assms(1)]]
  by (simp add: result_ok_def tab_onBridgeMessage_def case_prod_unfold)

lemma writer_ok:
  assumes "tab_ok g n t" and "answered g n env"
  shows "result_ok g n t (tab_onWriterMessage (envelope_wire env) t)"
  using mux_writer_ok [OF tab_ok_mux [OF assms(1)] assms(2)] tab_ok_with_mux [OF assms(1)] assms(1)
    bridge_posts_ok [OF tab_ok_mux [OF assms(1)]]
  by (simp add: result_ok_def tab_onWriterMessage_def case_prod_unfold mux_next_mono)

lemma restart_ok:
  assumes "tab_ok g n t"
  shows "result_ok g n t (restartLockRequest now t)"
proof -
  have "genuine_wire g (t_clientId t) (error_wire i permanentFailure)" if "(i, w) \<in> set (t_inFlight t)" for i w
    unfolding permanentFailure_def by (rule failure_genuine [OF in_flight_sent [OF assms that]])
  with assms show ?thesis
    by (auto simp: result_ok_def restartLockRequest_def action_defs tab_ok_def Let_def)
qed

lemma writer_failure_ok:
  assumes "tab_ok g n t"
  shows "result_ok g n t (handleWriterFailure l now t)"
proof (cases "t_closed t \<or> t_leaderId t \<noteq> Some l")
  case False
  define m where "m = fst (mux_fail writerError (t_mux t))"
  define u where "u = t\<lparr>t_errorListener := None, t_mux := mux_dispose m, t_writer := False, t_leaderId := None,
    t_holdsLock := False, t_currentLeaderId := None\<rparr>"
  have "tab_ok g n u"
    unfolding u_def by (rule tab_ok_forget [OF assms]) (simp_all add: mux_dispose_ok)
  then have after: "result_ok g n u (restartLockRequest now u)" by (rule restart_ok)
  have "\<forall>x \<in> set (bridge_posts (t_mux t) (snd (mux_fail writerError (t_mux t)))). effect_ok g n (t_clientId t) x"
    unfolding writerError_def using mux_fail_ok(2) [OF tab_ok_mux [OF assms]]
    by (rule bridge_posts_ok [OF tab_ok_mux [OF assms]])
  with after False show ?thesis
    by (auto simp: handleWriterFailure_def emit_def giveUpLeadership_def case_prod_unfold result_ok_def
        m_def [symmetric] u_def [symmetric])
      (auto simp: u_def m_def mux_next_mono)
qed (use assms in \<open>simp add: handleWriterFailure_def result_ok_def\<close>)

lemma own_ok: "tab_own_event t r \<Longrightarrow> tab_ok g n t \<Longrightarrow> result_ok g n t r"
proof (induction rule: tab_own_event.cases)
  case (own_writer_error t now)
  then show ?case
    by (cases "t_errorListener t") (simp_all add: tab_writerError_def writer_failure_ok, simp add: result_ok_def)
next
  case (own_timer t)
  then show ?case
    by (auto simp: tab_timer_def action_defs result_ok_def tab_ok_def split: option.splits)
next
  case (own_finally t g)
  then show ?case by (auto simp: tab_lockFinally_def result_ok_def tab_ok_def)
qed

lemma post_ok:
  assumes "tab_ok g n t" and "sent_wire g (t_clientId t) w"
  shows "result_ok g n t (tab_post w t)"
proof -
  obtain i req where w: "w = request_wire i req" and sent: "gh_sent g (t_clientId t, i) = Some req"
    using assms(2) by (auto simp: sent_wire_def)
  have "genuine_wire g (t_clientId t) (error_wire i permanentFailure)"
    unfolding permanentFailure_def using sent by (intro failure_genuine) simp
  moreover have "channel_of g (t_clientId t) ch" if "t_pairChannel t = Some ch" for ch
    using assms(1) that by (simp add: tab_ok_def)
  moreover have "tab_ok g n (t\<lparr>t_inFlight := AList.update i w (t_inFlight t)\<rparr>)"
    using assms w by (auto simp: tab_ok_def request_wire_def dest!: in_set_AList_update)
  ultimately show ?thesis
    using assms w by (auto simp: result_ok_def tab_post_def request_wire_def split: option.splits)
qed

lemma close_ok:
  assumes "tab_ok g n t"
  shows "result_ok g n t (tab_close t)"
proof -
  have "tab_ok g n (fst (tab_close t))"
    by (rule tab_ok_forget [OF assms])
      (auto simp: tab_close_def action_defs mux_dispose_ok tab_ok_mux [OF assms])
  then show ?thesis
    by (auto simp: result_ok_def tab_close_def action_defs mux_next_mono split: option.splits)
qed

lemma grant_ok:
  assumes "tab_ok g n t" and "length newId = gh_idLength g"
  shows "result_ok g n t (tab_grant newId t)"
proof -
  let ?ch = "pairChannelName newId (t_clientId t)"
  have ch: "channel_of g (t_clientId t) ?ch" using assms(2) by (auto simp: channel_of_def)
  have "mux_ok g n (mux_pair (t_clientId t) ?ch (t_mux t))"
    using tab_ok_mux [OF assms(1)] ch by (rule mux_pair_ok)
  with assms ch replay_ok [OF assms(1) ch] show ?thesis
    by (auto simp: result_ok_def tab_grant_def becomeLeader_def action_defs Let_def tab_ok_def mux_next_mono)
qed

lemma lock_events_ok:
  assumes "tab_ok g n t"
  shows "result_ok g n t (tab_lockRejected t)"
    and "length newId = gh_idLength g \<Longrightarrow> result_ok g n t (tab_grant_throws newId t)"
  using assms
  by (auto simp: result_ok_def tab_lockRejected_def tab_grant_throws_def action_defs tab_ok_def)

section \<open>Clients and the worker\<close>

definition client_ok :: "ghost \<Rightarrow> string \<Rightarrow> worker_client \<Rightarrow> bool" where
  "client_ok g c wc \<longleftrightarrow>
     (\<forall>i req. gh_sent g (c, i) = Some req \<longrightarrow> i < wc_nextId wc) \<and>
     (\<forall>i \<in> set (wc_pending wc). gh_sent g (c, i) \<noteq> None) \<and>
     (\<forall>i v. wc_settled wc i = Some v \<longrightarrow> genuine g c i v)"

lemma settle_ok: "client_ok g c wc \<Longrightarrow> genuine g c i v \<Longrightarrow> client_ok g c (settle i v wc)"
  by (auto simp: client_ok_def settle_def)

lemma failed_genuine: "gh_sent g (c, i) \<noteq> None \<Longrightarrow> genuine g c i (Rejected (Text m))"
  by (auto simp: genuine_def)

lemma fold_settle_ok:
  "client_ok g c wc \<Longrightarrow> \<forall>i \<in> set is. gh_sent g (c, i) \<noteq> None \<Longrightarrow>
   client_ok g c (fold (\<lambda>i. settle i (Rejected (Text m))) is wc)"
  by (induction "is" arbitrary: wc) (simp_all add: settle_ok failed_genuine)

lemma rejectAll_ok: "client_ok g c wc \<Longrightarrow> client_ok g c (rejectAll (Text m) wc)"
  using fold_settle_ok [of g c wc "wc_pending wc" m] by (simp add: rejectAll_def client_ok_def)

lemma onError_ok: "client_ok g c wc \<Longrightarrow> client_ok g c (wc_onError wc)"
  by (simp add: wc_onError_def rejectAll_ok)

lemma hear_ok:
  assumes "client_ok g c wc" and "genuine_wire g c w"
  shows "client_ok g c (client_hear w wc)"
proof -
  obtain i where id: "w_id w = Some i" using assms(2) by (auto simp: genuine_wire_def)
  have "client_ok g c (wc\<lparr>wc_pending := removeAll i (wc_pending wc)\<rparr>)"
    using assms(1) by (auto simp: client_ok_def)
  with assms id show ?thesis
    by (cases "w_payload w") (auto simp: client_hear_def wire_envelope_def genuine_wire_def settle_ok)
qed

lemma client_ok_extends:
  assumes "extends g g'" and "\<And>i. gh_sent g' (c, i) = gh_sent g (c, i)" and "client_ok g c wc"
  shows "client_ok g' c wc"
  using assms(3) extends_genuine [OF assms(1)] by (simp add: client_ok_def assms(2))

text \<open>A new request takes the client's next id, which no earlier request has.\<close>

lemma with_sent_extends:
  assumes "client_ok g c wc"
  shows "extends g (with_sent c (wc_nextId wc) req g)"
proof -
  have "gh_sent g (c, wc_nextId wc) = None"
    using assms by (cases "gh_sent g (c, wc_nextId wc)") (auto simp: client_ok_def)
  then show ?thesis by (auto simp: extends_def with_sent_def map_le_def)
qed

lemma with_sent_client:
  assumes "client_ok g c wc" and "wc_nextId u = wc_nextId wc + 1"
    and "set (wc_pending u) \<subseteq> insert (wc_nextId wc) (set (wc_pending wc))" and "wc_settled u = wc_settled wc"
  shows "client_ok (with_sent c (wc_nextId wc) req g) c u"
proof -
  have ext: "extends g (with_sent c (wc_nextId wc) req g)" by (rule with_sent_extends [OF assms(1)])
  have "genuine (with_sent c (wc_nextId wc) req g) c i v" if "wc_settled u i = Some v" for i v
    using extends_genuine [OF ext] assms(1,4) that by (simp add: client_ok_def)
  with assms(1-3) show ?thesis by (fastforce simp: client_ok_def with_sent_def)
qed

lemma send_ok:
  assumes "client_ok g c wc"
  shows "client_ok (with_sent c (wc_nextId wc) req g) c (fst (wc_send req None wc))"
  using with_sent_client [OF assms, of "fst (wc_send req None wc)"] by (simp add: wc_send_def Let_def)

lemma terminate_ok:
  assumes "client_ok g c wc"
  shows "client_ok (with_sent c (wc_nextId wc) RClose g) c (fst (wc_terminate wc))"
proof -
  have "client_ok (with_sent c (wc_nextId wc) RClose g) c (wc\<lparr>wc_nextId := wc_nextId wc + 1, wc_attached := False\<rparr>)"
    by (rule with_sent_client [OF assms]) auto
  then show ?thesis by (simp add: wc_terminate_def Let_def rejectAll_ok)
qed

definition worker_ok :: "ghost \<Rightarrow> nat \<Rightarrow> storage_worker \<Rightarrow> wire list \<Rightarrow> bool" where
  "worker_ok g n w inbox \<longleftrightarrow>
     (\<forall>x \<in> set inbox. \<exists>k req. x = request_wire k req \<and> ticketed g n k req) \<and>
     (\<forall>(p, k, req) \<in> set (sw_parked w). ticketed g n k req) \<and>
     (\<forall>(p, env) \<in> set (sw_out w). answered g n env)"

lemma extends_worker: "extends g g' \<Longrightarrow> worker_ok g n w inbox \<Longrightarrow> worker_ok g' n w inbox"
  unfolding worker_ok_def by (fast intro: extends_ticketed extends_answered)

lemma settle_worker:
  assumes "worker_ok g n w inbox"
    and "answered g n (case result of Inl m \<Rightarrow> fail k m | Inr r \<Rightarrow> respond k r)"
  shows "worker_ok g n (sw_settle p k req result w) inbox"
  using assms
  by (auto simp: worker_ok_def sw_settle_def sw_post_def sw_dispose_def Let_def split: sum.splits)

lemma answered_outcome:
  assumes "gh_ticket g n k = Some (c, i)" and "genuine g c i (outcome_of result)"
  shows "answered g n (case result of Inl m \<Rightarrow> fail k m | Inr r \<Rightarrow> respond k r)"
  using assms by (cases result) (auto simp: answered_def genuine_wire_def respond_def fail_def)

lemma log_request_extends: "extends g (log_request n k req g)"
  by (auto simp: extends_def log_request_def split: option.splits)

lemma rows_after_snoc: "rows_after rows (L @ [(c, i, req)]) = fst (handle req (rows_after rows L))"
  by (simp add: rows_after_def)

text \<open>Executing a ticketed request is executing it in the abstract database.\<close>

lemma run_worker:
  assumes "worker_ok g n w inbox" and "ticketed g n k req"
    and "sw_table w = rows_after (gh_initial g) (gh_log g)"
  shows "worker_ok (log_request n k req g) n (sw_run p k req w) inbox"
    and "sw_table (sw_run p k req w) = rows_after (gh_initial g) (gh_log (log_request n k req g))"
proof -
  let ?g = "log_request n k req g"
  obtain t tx result where h: "handle req (sw_table w) = (t, tx, result)" using prod_cases3 by blast
  obtain c i where ticket: "gh_ticket g n k = Some (c, i)" and sent: "gh_sent g (c, i) = Some req"
    using assms(2) by (auto simp: ticketed_def)
  have log: "gh_log ?g = gh_log g @ [(c, i, req)]" "gh_sent ?g = gh_sent g" "gh_ticket ?g = gh_ticket g"
      "gh_initial ?g = gh_initial g"
    using ticket by (simp_all add: log_request_def)
  have "executed ?g c i req (outcome_of result)"
    unfolding executed_def log(1,4)
    by (intro exI [of _ "gh_log g"] exI [of _ "[]"]) (simp add: answer_def h assms(3) [symmetric])
  then have "genuine ?g c i (outcome_of result)" using sent log by (auto simp: genuine_def)
  with ticket log have "answered ?g n (case result of Inl m \<Rightarrow> fail k m | Inr r \<Rightarrow> respond k r)"
    by (intro answered_outcome) simp_all
  moreover have "worker_ok ?g n (w\<lparr>sw_table := t, sw_tx := sw_tx w @ tx\<rparr>) inbox"
    using extends_worker [OF log_request_extends assms(1), of n k req] by (simp add: worker_ok_def)
  ultimately show "worker_ok ?g n (sw_run p k req w) inbox"
    by (simp add: sw_run_def h settle_worker)
  show "sw_table (sw_run p k req w) = rows_after (gh_initial g) (gh_log ?g)"
    by (simp add: sw_run_def h log rows_after_snoc assms(3) [symmetric])
qed

section \<open>The invariant of the origin\<close>

definition tab_entry :: "ghost \<Rightarrow> nat \<Rightarrow> tab \<Rightarrow> bool" where
  "tab_entry g n t \<longleftrightarrow> tab_ok g n t \<and> n \<in> gh_tabs g \<and> t_clientId t \<in> gh_clients g \<and>
     (\<forall>k p. gh_ticket g n k = Some p \<longrightarrow> k < mx_next (t_mux t))"

definition rest_ok :: "net \<Rightarrow> bool" where
  "rest_ok s \<longleftrightarrow>
     (\<forall>c. client_ok (nt_ghost s) c (nt_client s c)) \<and>
     (\<forall>c i req. gh_sent (nt_ghost s) (c, i) = Some req \<longrightarrow> c \<in> gh_clients (nt_ghost s)) \<and>
     (\<forall>n k p. gh_ticket (nt_ghost s) n k = Some p \<longrightarrow> n \<in> gh_tabs (nt_ghost s)) \<and>
     (\<forall>(c, e) \<in> nt_posted s. \<exists>n. effect_ok (nt_ghost s) n c e) \<and>
     (\<forall>n w. nt_writer s = Some (n, w) \<longrightarrow> sys_tab (nt_sys s) n \<noteq> None \<and>
        sw_table w = nt_table s \<and> worker_ok (nt_ghost s) n w (nt_inbox s)) \<and>
     nt_table s = rows_after (gh_initial (nt_ghost s)) (gh_log (nt_ghost s)) \<and>
     (\<forall>(c, i, req) \<in> set (gh_log (nt_ghost s)). gh_sent (nt_ghost s) (c, i) = Some req)"

definition net_inv :: "net \<Rightarrow> bool" where
  "net_inv s \<longleftrightarrow> sys_inv (nt_sys s) \<and>
     (\<forall>n t. sys_tab (nt_sys s) n = Some t \<longrightarrow> tab_entry (nt_ghost s) n t) \<and> rest_ok s"

lemma rest_sent: "rest_ok s \<Longrightarrow> gh_sent (nt_ghost s) (c, i) = Some req \<Longrightarrow> c \<in> gh_clients (nt_ghost s)"
  unfolding rest_ok_def by blast

lemma rest_ticket: "rest_ok s \<Longrightarrow> gh_ticket (nt_ghost s) n k = Some p \<Longrightarrow> n \<in> gh_tabs (nt_ghost s)"
  unfolding rest_ok_def by blast

lemma net_effect_fields [simp]:
  "nt_sys (net_effect n c e s) = nt_sys s" "nt_ghost (net_effect n c e s) = nt_ghost s"
  by (induction n c e s rule: net_effect.induct) simp_all

lemma worker_ok_posted:
  "worker_ok g n w inbox \<Longrightarrow> effect_ok g n c (WriterPost x) \<Longrightarrow> worker_ok g n w (inbox @ [x])"
  by (simp add: worker_ok_def)

lemma net_effect_rest:
  assumes "rest_ok s" and "sys_tab (nt_sys s) n \<noteq> None" and "effect_ok (nt_ghost s) n c e"
  shows "rest_ok (net_effect n c e s)"
proof (cases e)
  case (EmitMessage w)
  with assms show ?thesis by (simp add: rest_ok_def hear_ok)
next
  case EmitError
  with assms show ?thesis by (simp add: rest_ok_def onError_ok)
next
  case SpawnWriter
  with assms show ?thesis by (auto simp: rest_ok_def worker_ok_def sw_connect_def sw_new_def)
next
  case (WriterPost x)
  with assms show ?thesis by (auto simp: rest_ok_def simp del: effect_ok.simps intro: worker_ok_posted)
qed (use assms in \<open>auto simp: rest_ok_def\<close>)

lemma net_effects_rest:
  "rest_ok s \<Longrightarrow> sys_tab (nt_sys s) n \<noteq> None \<Longrightarrow> \<forall>e \<in> set effs. effect_ok (nt_ghost s) n c e \<Longrightarrow>
   rest_ok (fold (net_effect n c) effs s) \<and> nt_sys (fold (net_effect n c) effs s) = nt_sys s \<and>
   nt_ghost (fold (net_effect n c) effs s) = nt_ghost s"
  by (induction effs arbitrary: s) (simp_all add: net_effect_rest)

lemma lock_effects_tab: "sys_tab (fold (lock_effect n) effs sy) = sys_tab sy"
proof (induction effs arbitrary: sy)
  case (Cons e effs)
  then show ?case by (cases e) simp_all
qed simp

lemma sys_tab_perform: "sys_tab (perform n r sy) = (sys_tab sy)(n \<mapsto> fst r)"
  by (simp add: perform_def lock_effects_tab)

lemma net_act_inv:
  assumes "rest_ok s" and "\<And>m t. m \<noteq> n \<Longrightarrow> sys_tab (nt_sys s) m = Some t \<Longrightarrow> tab_entry (nt_ghost s) m t"
    and "tab_entry (nt_ghost s) n (fst r)"
    and "\<forall>e \<in> set (snd r). effect_ok (nt_ghost s) n (t_clientId (fst r)) e"
    and "sys_inv (perform n r sy)" and "sys_tab sy = sys_tab (nt_sys s)"
  shows "net_inv (act n r sy s)"
proof -
  let ?s = "s\<lparr>nt_sys := perform n r sy\<rparr>"
  have "sys_tab (perform n r sy) = (sys_tab (nt_sys s))(n \<mapsto> fst r)" by (simp add: sys_tab_perform assms(6))
  moreover from this have "rest_ok ?s" using assms(1) by (auto simp: rest_ok_def)
  ultimately show ?thesis
    using net_effects_rest [of ?s n "snd r" "t_clientId (fst r)"] assms(2-5) by (simp add: act_def net_inv_def)
qed

text \<open>An event of a tab that is there.\<close>

lemma net_event_inv:
  assumes "net_inv s" and "sys_tab (nt_sys s) n = Some t" and "result_ok (nt_ghost s) n t r"
    and "sys_inv (perform n r sy)" and "sys_tab sy = sys_tab (nt_sys s)"
  shows "net_inv (act n r sy s)"
proof (rule net_act_inv [OF _ _ _ _ assms(4,5)])
  show "tab_entry (nt_ghost s) n (fst r)"
    using assms(1-3) unfolding net_inv_def tab_entry_def result_ok_def by (metis order_less_le_trans)
qed (use assms in \<open>auto simp: net_inv_def result_ok_def\<close>)

lemma net_local_inv:
  assumes "net_inv s" and "sys_tab (nt_sys s) n = Some t" and "local_event t r" and "result_ok (nt_ghost s) n t r"
  shows "net_inv (act n r (nt_sys s) s)"
  using net_event_inv [OF assms(1,2,4)] local_step_inv [OF _ assms(2,3)] assms(1) by (simp add: net_inv_def)

lemma net_inv_tab: "net_inv s \<Longrightarrow> sys_tab (nt_sys s) n = Some t \<Longrightarrow> tab_ok (nt_ghost s) n t"
  by (simp add: net_inv_def tab_entry_def)

text \<open>Only the ghost grows.\<close>

lemma extends_rest:
  assumes "rest_ok s" and "extends (nt_ghost s) g"
    and "\<And>x. gh_sent g x = gh_sent (nt_ghost s) x" and "gh_log g = gh_log (nt_ghost s)"
    and "\<And>n k p. gh_ticket g n k = Some p \<Longrightarrow> n \<in> gh_tabs g" and "gh_clients (nt_ghost s) \<subseteq> gh_clients g"
  shows "rest_ok (s\<lparr>nt_ghost := g\<rparr>)"
proof -
  have "client_ok g c wc" if "client_ok (nt_ghost s) c wc" for c wc
    using client_ok_extends [OF assms(2)] assms(3) that by blast
  moreover have "\<forall>(c, e) \<in> nt_posted s. \<exists>n. effect_ok g n c e"
    using assms(1) extends_effect [OF assms(2)] unfolding rest_ok_def by blast
  moreover have "c \<in> gh_clients g" if "gh_sent (nt_ghost s) (c, i) = Some req" for c i req
    using assms(1,6) that unfolding rest_ok_def by blast
  ultimately show ?thesis
    using assms(1-5) extends_worker [OF assms(2)] by (auto simp: rest_ok_def extends_def)
qed

lemma extends_entry:
  "extends g g' \<Longrightarrow> gh_ticket g' n = gh_ticket g n \<Longrightarrow> gh_tabs g \<subseteq> gh_tabs g' \<Longrightarrow>
   gh_clients g \<subseteq> gh_clients g' \<Longrightarrow> tab_entry g n t \<Longrightarrow> tab_entry g' n t"
  by (auto simp: tab_entry_def extends_tab)

section \<open>Every step keeps it\<close>

lemma net_open_inv:
  assumes "net_inv s" and "n \<notin> gh_tabs (nt_ghost s)" and "c \<notin> gh_clients (nt_ghost s)"
  shows "net_inv (net_open n c s)"
proof -
  let ?g = "nt_ghost s"
  let ?g' = "?g\<lparr>gh_tabs := insert n (gh_tabs ?g), gh_clients := insert c (gh_clients ?g)\<rparr>"
  let ?s = "s\<lparr>nt_client := (nt_client s)(c := wc_new)\<rparr>" and ?t = "fst (createLeaderTransport c)"
  have ext: "extends ?g ?g'" by (simp add: extends_def)
  have rest: "rest_ok s" and entry: "tab_entry ?g m t" if "sys_tab (nt_sys s) m = Some t" for m t
    using assms(1) that by (auto simp: net_inv_def)
  have rest: "rest_ok s" using assms(1) by (simp add: net_inv_def)
  have "gh_sent ?g (c, i) = None" for i
    using rest_sent [OF rest, of c i] assms(3) by (cases "gh_sent ?g (c, i)") auto
  then have "client_ok ?g c wc_new" by (simp add: client_ok_def wc_new_def)
  with rest have "rest_ok ?s" by (simp add: rest_ok_def)
  then have rest': "rest_ok (?s\<lparr>nt_ghost := ?g'\<rparr>)"
    by (rule extends_rest) (use ext rest_ticket [OF rest] in auto)
  have gone: "sys_tab (nt_sys s) n = None"
    using entry [of n] assms(2) by (cases "sys_tab (nt_sys s) n") (auto simp: tab_entry_def)
  have id: "t_clientId ?t = c" by (simp add: createLeaderTransport_def action_defs)
  have "gh_ticket ?g n k = None" for k
    using rest_ticket [OF rest, of n k] assms(2) by (cases "gh_ticket ?g n k") auto
  then have "tab_entry ?g' n ?t"
    using created_ok [of ?g' n c] id by (simp add: tab_entry_def result_ok_def)
  moreover have "\<forall>e \<in> set (snd (createLeaderTransport c)). effect_ok ?g' n c e"
    using created_ok [of ?g' n c] id by (simp add: result_ok_def)
  moreover have "sys_inv (perform n (createLeaderTransport c) (nt_sys s))"
    using assms(1) gone by (simp add: net_inv_def open_step_inv)
  moreover have "tab_entry ?g' m t" if "sys_tab (nt_sys s) m = Some t" for m t
    using extends_entry [OF ext _ _ _ entry [OF that]] by auto
  ultimately show ?thesis
    unfolding net_open_def using rest' by (intro net_act_inv) (simp_all add: id)
qed

text \<open>The client of a tab that is there numbers a new request.\<close>

lemma sent_inv:
  assumes "net_inv s" and "sys_tab (nt_sys s) n = Some t" and "c = t_clientId t"
    and "client_ok (with_sent c (wc_nextId (nt_client s c)) req (nt_ghost s)) c wc"
  shows "net_inv (s\<lparr>nt_client := (nt_client s)(c := wc),
    nt_ghost := with_sent c (wc_nextId (nt_client s c)) req (nt_ghost s)\<rparr>)"
proof -
  let ?g = "nt_ghost s" and ?g' = "with_sent c (wc_nextId (nt_client s c)) req (nt_ghost s)"
  have rest: "rest_ok s" and known: "c \<in> gh_clients ?g"
    using assms(1-3) by (auto simp: net_inv_def tab_entry_def)
  then have ext: "extends ?g ?g'" by (intro with_sent_extends) (simp add: rest_ok_def)
  have fields: "gh_clients ?g' = gh_clients ?g" "gh_ticket ?g' = gh_ticket ?g" "gh_tabs ?g' = gh_tabs ?g"
      "gh_log ?g' = gh_log ?g" "gh_initial ?g' = gh_initial ?g" "d \<noteq> c \<Longrightarrow> gh_sent ?g' (d, i) = gh_sent ?g (d, i)" for d i
    by (simp_all add: with_sent_def)
  have "client_ok ?g' d (nt_client s d)" if "d \<noteq> c" for d
    using rest client_ok_extends [OF ext fields(6) [OF that]] by (simp add: rest_ok_def)
  moreover have "d \<in> gh_clients ?g" if "gh_sent ?g' (d, i) = Some r" for d i r
    using rest_sent [OF rest, of d i] known that fields(6) by (cases "d = c") auto
  moreover have "\<forall>(d, e) \<in> nt_posted s. \<exists>n. effect_ok ?g' n d e"
    using rest extends_effect [OF ext] unfolding rest_ok_def by blast
  moreover have "\<forall>(d, i, r) \<in> set (gh_log ?g). gh_sent ?g' (d, i) = Some r"
    using rest extends_sent [OF ext] unfolding rest_ok_def by blast
  ultimately have "rest_ok (s\<lparr>nt_client := (nt_client s)(c := wc), nt_ghost := ?g'\<rparr>)"
    using rest assms(4) extends_worker [OF ext] by (simp add: rest_ok_def fields(1-5))
  moreover have "tab_entry ?g' m u" if "tab_entry ?g m u" for m u
    by (rule extends_entry [OF ext _ _ _ that]) (simp_all add: fields)
  ultimately show ?thesis using assms(1) by (simp add: net_inv_def)
qed

lemma sent_wire_new: "sent_wire (with_sent c i req g) c (request_wire i req)"
  by (auto simp: sent_wire_def with_sent_def)

lemma net_call_inv:
  assumes "net_inv s" and "sys_tab (nt_sys s) n = Some t"
  shows "net_inv (net_call n t req s)"
proof -
  define c where "c = t_clientId t"
  let ?i = "wc_nextId (nt_client s c)" and ?wc = "fst (wc_send req None (nt_client s c))"
  let ?s = "s\<lparr>nt_client := (nt_client s)(c := ?wc), nt_ghost := with_sent c ?i req (nt_ghost s)\<rparr>"
  have "client_ok (nt_ghost s) c (nt_client s c)" using assms(1) by (simp add: net_inv_def rest_ok_def)
  then have inv: "net_inv ?s" by (intro sent_inv [OF assms c_def] send_ok)
  have tab: "sys_tab (nt_sys ?s) n = Some t" using assms(2) by simp
  have "result_ok (nt_ghost ?s) n t (tab_post (request_wire ?i req) t)"
    using net_inv_tab [OF inv tab] by (rule post_ok) (simp add: sent_wire_new c_def [symmetric])
  from net_local_inv [OF inv tab ev_post this] show ?thesis
    by (simp add: net_call_def wc_send_def Let_def c_def)
qed

lemma result_ok_then:
  assumes "result_ok g n t r" and "result_ok g n (fst r) r'"
  shows "result_ok g n t (fst r', snd r @ snd r')"
  using assms by (auto simp: result_ok_def)

lemma perform_then:
  assumes "filter is_lock (snd r) = []"
  shows "perform n (fst r', snd r @ snd r') sy = perform n r' (perform n r sy)"
  using assms
  by (simp add: perform_def fold_lock_trace [of n "snd r @ snd r'"] fold_lock_trace [of n "snd r"]
      fold_lock_trace [of n "snd r'"])

lemma net_hang_up_inv:
  assumes "net_inv s" and "sys_tab (nt_sys s) n = Some t"
  shows "net_inv (net_hang_up n t s)"
proof -
  define c where "c = t_clientId t"
  let ?i = "wc_nextId (nt_client s c)" and ?wc = "fst (wc_terminate (nt_client s c))"
  let ?s = "s\<lparr>nt_client := (nt_client s)(c := ?wc), nt_ghost := with_sent c ?i RClose (nt_ghost s)\<rparr>"
  define r1 where "r1 = tab_post (request_wire ?i RClose) t"
  define r2 where "r2 = tab_close (fst r1)"
  have "client_ok (nt_ghost s) c (nt_client s c)" using assms(1) by (simp add: net_inv_def rest_ok_def)
  then have inv: "net_inv ?s" by (intro sent_inv [OF assms c_def] terminate_ok)
  have tab: "sys_tab (nt_sys ?s) n = Some t" using assms(2) by simp
  have posted: "result_ok (nt_ghost ?s) n t r1"
    unfolding r1_def using net_inv_tab [OF inv tab]
    by (rule post_ok) (simp add: sent_wire_new c_def [symmetric])
  moreover have "result_ok (nt_ghost ?s) n (fst r1) r2"
    unfolding r2_def using posted by (intro close_ok) (simp add: result_ok_def)
  ultimately have ok: "result_ok (nt_ghost ?s) n t (fst r2, snd r1 @ snd r2)" by (rule result_ok_then)
  have "sys_inv (perform n r1 (nt_sys s))"
    using assms local_step_inv ev_post unfolding r1_def by (simp add: net_inv_def)
  then have "sys_inv (perform n r2 (perform n r1 (nt_sys s)))"
    by (rule local_step_inv [where t = "fst r1"]) (simp_all add: sys_tab_perform r2_def ev_close)
  moreover have "filter is_lock (snd r1) = []"
    using simple_neutral(6) unfolding r1_def by (simp add: lock_neutral_def)
  ultimately have "sys_inv (perform n (fst r2, snd r1 @ snd r2) (nt_sys ?s))" by (simp add: perform_then)
  from net_event_inv [OF inv tab ok this] show ?thesis
    by (simp add: net_hang_up_def wc_terminate_def Let_def c_def r1_def r2_def case_prod_unfold)
qed

lemma net_bridge_inv:
  assumes "net_inv s" and "sys_tab (nt_sys s) n = Some t" and "(c', PairPost ch w) \<in> nt_posted s"
    and "map_of (mx_bridges (t_mux t)) c = Some b" and "b_channel b = ch"
  shows "net_inv (act n (tab_onBridgeMessage c w t) (nt_sys s) (s\<lparr>nt_ghost := issue n t c w (nt_ghost s)\<rparr>))"
proof -
  let ?g = "nt_ghost s" and ?g' = "issue n t c w (nt_ghost s)" and ?r = "tab_onBridgeMessage c w t"
  have rest: "rest_ok s" and entry: "tab_entry ?g n t" and sys: "sys_inv (nt_sys s)"
    using assms(1,2) by (simp_all add: net_inv_def)
  have mux: "mux_ok ?g n (t_mux t)" using entry by (simp add: tab_entry_def tab_ok_def)
  have "channel_of ?g c ch" using mux_ok_bridge(1) [OF mux map_of_SomeD [OF assms(4)]] assms(5) by simp
  moreover have "channel_of ?g c' ch \<and> sent_wire ?g c' w" using rest assms(3) by (fastforce simp: rest_ok_def)
  ultimately have sent: "sent_wire ?g c w" using channel_of_unique by blast
  then obtain i req where w: "w = request_wire i req" by (auto simp: sent_wire_def)
  have "mux_inv (t_mux t)" using sys assms(2) by (simp add: sys_inv_def tab_inv_def)
  then have live: "\<not> b_disposed b" using assms(4) by (simp add: mux_inv_def bridge_ok_def)
  have old: "k < mx_next (t_mux t)" if "gh_ticket ?g n k = Some p" for k p
    using entry that unfolding tab_entry_def by blast
  then have fresh: "gh_ticket ?g n (mx_next (t_mux t)) = None"
    by (cases "gh_ticket ?g n (mx_next (t_mux t))") force+
  then have ext: "extends ?g ?g'" by (auto simp: extends_def issue_def map_le_def split: option.splits)
  have fields: "gh_sent ?g' = gh_sent ?g" "gh_log ?g' = gh_log ?g" "gh_tabs ?g' = gh_tabs ?g"
      "gh_clients ?g' = gh_clients ?g" "m \<noteq> n \<Longrightarrow> gh_ticket ?g' m = gh_ticket ?g m" for m
    by (auto simp: issue_def split: option.splits)
  have n: "n \<in> gh_tabs ?g" using entry by (simp add: tab_entry_def)
  have "m \<in> gh_tabs ?g'" if "gh_ticket ?g' m k = Some p" for m k p
    using rest_ticket [OF rest, of m k p] n that fields(5) [of m] unfolding fields(3) by (cases "m = n") auto
  then have rest': "rest_ok (s\<lparr>nt_ghost := ?g'\<rparr>)"
    by (intro extends_rest [OF rest ext]) (simp_all add: fields)
  have ok: "result_ok ?g' n t ?r"
  proof (rule bridge_ok_result)
    show "tab_ok ?g' n t" using entry extends_tab [OF ext] by (simp add: tab_entry_def)
    show "sent_wire ?g' c w" using sent extends_sent_wire [OF ext] by simp
  qed (auto simp: w request_wire_def issue_def)
  moreover have "k < mx_next (t_mux (fst ?r))" if "gh_ticket ?g' n k = Some p" for k p
    using that old [of k p] old [of "mx_next (t_mux t)" p] w live assms(4)
    by (cases "req = RClose"; cases "k = mx_next (t_mux t)")
      (auto simp: issue_def request_wire_def tab_onBridgeMessage_def mux_client_def
        bridge_onClientMessage_def case_prod_unfold)
  ultimately have "tab_entry ?g' n (fst ?r)" using entry by (auto simp: tab_entry_def result_ok_def fields)
  moreover have "tab_entry ?g' m u" if "m \<noteq> n" "sys_tab (nt_sys s) m = Some u" for m u
    using assms(1) that extends_entry [OF ext fields(5) [OF that(1)]] by (simp add: net_inv_def fields)
  moreover have "sys_inv (perform n ?r (nt_sys s))" by (rule local_step_inv [OF sys assms(2) ev_bridge])
  ultimately show ?thesis using rest' ok by (intro net_act_inv) (simp_all add: result_ok_def)
qed

text \<open>The writer's worker takes a step.\<close>

lemma worker_step_inv:
  assumes "net_inv s" and "nt_writer s = Some (n, w)" and "extends (nt_ghost s) g"
    and "gh_sent g = gh_sent (nt_ghost s)" and "gh_ticket g = gh_ticket (nt_ghost s)"
    and "gh_tabs g = gh_tabs (nt_ghost s)" and "gh_clients g = gh_clients (nt_ghost s)"
    and "\<forall>(c, i, req) \<in> set (gh_log g). gh_sent g (c, i) = Some req"
    and "worker_ok g n w' inbox" and "sw_table w' = rows_after (gh_initial g) (gh_log g)"
  shows "net_inv (s\<lparr>nt_writer := Some (n, w'), nt_inbox := inbox, nt_table := sw_table w', nt_ghost := g\<rparr>)"
proof -
  have rest: "rest_ok s" using assms(1) by (simp add: net_inv_def)
  have "client_ok g c (nt_client s c)" for c
    by (rule client_ok_extends [OF assms(3)]) (use rest in \<open>simp_all add: rest_ok_def assms(4)\<close>)
  moreover have "\<forall>(c, e) \<in> nt_posted s. \<exists>n. effect_ok g n c e"
    using rest extends_effect [OF assms(3)] unfolding rest_ok_def by blast
  ultimately have "rest_ok (s\<lparr>nt_writer := Some (n, w'), nt_inbox := inbox, nt_table := sw_table w', nt_ghost := g\<rparr>)"
    using rest assms(2,8-10) by (simp add: rest_ok_def assms(4-7))
  moreover have "tab_entry g m t" if "tab_entry (nt_ghost s) m t" for m t
    by (rule extends_entry [OF assms(3) _ _ _ that]) (simp_all add: assms(5-7))
  ultimately show ?thesis using assms(1) by (simp add: net_inv_def)
qed

lemma log_request_fields:
  "gh_sent (log_request n k req g) = gh_sent g" "gh_ticket (log_request n k req g) = gh_ticket g"
  "gh_tabs (log_request n k req g) = gh_tabs g" "gh_clients (log_request n k req g) = gh_clients g"
  by (auto simp: log_request_def split: option.splits)

lemma log_request_sent:
  "\<forall>(c, i, r) \<in> set (gh_log g). gh_sent g (c, i) = Some r \<Longrightarrow> ticketed g n k req \<Longrightarrow>
   \<forall>(c, i, r) \<in> set (gh_log (log_request n k req g)). gh_sent (log_request n k req g) (c, i) = Some r"
  by (auto simp: ticketed_def log_request_def)

lemma net_run_inv:
  assumes "net_inv s" and "nt_writer s = Some (n, w)" and "ticketed (nt_ghost s) n k req"
    and "worker_ok (nt_ghost s) n u inbox" and "sw_table u = sw_table w"
  shows "net_inv (s\<lparr>nt_writer := Some (n, sw_run p k req u), nt_inbox := inbox,
    nt_table := sw_table (sw_run p k req u), nt_ghost := log_request n k req (nt_ghost s)\<rparr>)"
proof -
  have rest: "rest_ok s" using assms(1) by (simp add: net_inv_def)
  then have rows: "sw_table u = rows_after (gh_initial (nt_ghost s)) (gh_log (nt_ghost s))"
    using assms(2,5) by (simp add: rest_ok_def)
  have "\<forall>(c, i, r) \<in> set (gh_log (nt_ghost s)). gh_sent (nt_ghost s) (c, i) = Some r"
    using rest by (simp add: rest_ok_def)
  note logged = log_request_sent [OF this assms(3)]
  have init: "gh_initial (log_request n k req (nt_ghost s)) = gh_initial (nt_ghost s)"
    using log_request_extends by (simp add: extends_def)
  show ?thesis
    using run_worker [OF assms(4,3) rows, of p] logged
    by (intro worker_step_inv [OF assms(1,2) log_request_extends])
      (simp_all add: log_request_fields init)
qed

lemma net_stay_inv:
  assumes "net_inv s" and "nt_writer s = Some (n, w)" and "worker_ok (nt_ghost s) n u inbox"
    and "sw_table u = sw_table w"
  shows "net_inv (s\<lparr>nt_writer := Some (n, u), nt_inbox := inbox, nt_table := sw_table u\<rparr>)"
proof -
  have "rest_ok s" using assms(1) by (simp add: net_inv_def)
  then have "net_inv (s\<lparr>nt_writer := Some (n, u), nt_inbox := inbox, nt_table := sw_table u, nt_ghost := nt_ghost s\<rparr>)"
    using assms(2-4) by (intro worker_step_inv [OF assms(1,2)]) (simp_all add: rest_ok_def extends_def)
  then show ?thesis by simp
qed

lemma net_worker_ok:
  assumes "net_inv s" and "nt_writer s = Some (n, w)"
  shows "worker_ok (nt_ghost s) n w (nt_inbox s)"
  using assms by (simp add: net_inv_def rest_ok_def)

lemma net_receive_inv:
  assumes "net_inv s" and "nt_writer s = Some (n, w)" and "nt_inbox s = x # q"
  shows "net_inv (net_receive n w x q s)"
proof -
  let ?w = "\<lambda>k. w\<lparr>sw_received := sw_received w @ [(0, k)]\<rparr>"
  have ok: "worker_ok (nt_ghost s) n w (x # q)" using net_worker_ok [OF assms(1,2)] assms(3) by simp
  then obtain k req where x: "x = request_wire k req" and ticket: "ticketed (nt_ghost s) n k req"
    by (auto simp: worker_ok_def)
  have "worker_ok (nt_ghost s) n w q" and got: "worker_ok (nt_ghost s) n (?w k) q"
      and parked: "worker_ok (nt_ghost s) n (?w k\<lparr>sw_parked := sw_parked w @ [(0, k, req)]\<rparr>) q"
    using ok ticket by (auto simp: worker_ok_def)
  then show ?thesis
    using net_stay_inv [OF assms(1,2), of w q] net_stay_inv [OF assms(1,2) parked] net_run_inv [OF assms(1,2) ticket got, of 0]
    by (auto simp: net_receive_def x wire_request_def request_wire_def sw_receive_def Let_def)
qed

lemma net_open_done_inv:
  assumes "net_inv s" and "nt_writer s = Some (n, w)" and "j < length (sw_parked w)"
  shows "net_inv (net_open_done n w j err s)"
proof -
  obtain p k req where nth: "sw_parked w ! j = (p, k, req)" using prod_cases3 by blast
  let ?u = "w\<lparr>sw_parked := take j (sw_parked w) @ drop (Suc j) (sw_parked w)\<rparr>"
  have ok: "worker_ok (nt_ghost s) n w (nt_inbox s)" by (rule net_worker_ok [OF assms(1,2)])
  have "(p, k, req) \<in> set (sw_parked w)" using nth assms(3) nth_mem by metis
  then have ticket: "ticketed (nt_ghost s) n k req" using ok by (auto simp: worker_ok_def)
  have u: "worker_ok (nt_ghost s) n ?u (nt_inbox s)"
    using ok set_take_subset [of j "sw_parked w"] set_drop_subset [of "Suc j" "sw_parked w"]
    by (auto simp: worker_ok_def)
  then have u': "worker_ok (nt_ghost s) n (?u\<lparr>sw_opened := True\<rparr>) (nt_inbox s)" by (simp add: worker_ok_def)
  show ?thesis
  proof (cases err)
    case None
    then show ?thesis
      using net_run_inv [OF assms(1,2) ticket u', of p] assms(3) nth
      by (simp add: net_open_done_def sw_open_done_def Let_def)
  next
    case (Some e)
    obtain c i where "gh_ticket (nt_ghost s) n k = Some (c, i)" "gh_sent (nt_ghost s) (c, i) = Some req"
      using ticket by (auto simp: ticketed_def)
    then have "answered (nt_ghost s) n (fail k (OfOpen e))"
      using answered_outcome [of "nt_ghost s" n k c i "Inl (OfOpen e)"] by (simp add: genuine_def)
    then have "worker_ok (nt_ghost s) n (sw_settle p k req (Inl (OfOpen e)) ?u) (nt_inbox s)"
      by (intro settle_worker [OF u]) simp
    from net_stay_inv [OF assms(1,2) this] Some assms(3) nth show ?thesis
      by (simp add: net_open_done_def sw_open_done_def Let_def)
  qed
qed

lemma net_unload_inv:
  assumes "net_inv s"
  shows "net_inv (net_unload n s)"
proof -
  have rest: "rest_ok s" and sys: "sys_inv (nt_sys s)" using assms by (simp_all add: net_inv_def)
  have "sys_inv (sys_unload n (nt_sys s))" by (rule unload_step_inv [OF sys])
  moreover have "rest_ok (net_unload n s)"
    using rest by (auto simp: rest_ok_def net_unload_def sys_unload_def)
  ultimately show ?thesis using assms by (auto simp: net_inv_def net_unload_def sys_unload_def)
qed

lemma posted_ok: "net_inv s \<Longrightarrow> (c, e) \<in> nt_posted s \<Longrightarrow> \<exists>n. effect_ok (nt_ghost s) n c e"
  unfolding net_inv_def rest_ok_def by blast

lemma net_later_inv:
  assumes "net_inv s" and "(c, EmitLater w) \<in> nt_posted s"
  shows "net_inv (s\<lparr>nt_client := (nt_client s)(c := client_hear w (nt_client s c))\<rparr>)"
proof -
  have "genuine_wire (nt_ghost s) c w" using posted_ok [OF assms] by simp
  with assms(1) show ?thesis by (simp add: net_inv_def rest_ok_def hear_ok)
qed

lemma net_tab_inv:
  assumes "net_inv s" and "sys_tab (nt_sys s) n = Some t"
  shows "tab_own_event t r \<Longrightarrow> net_inv (act n r (nt_sys s) s)"
    and "(c, Discover msg) \<in> nt_posted s \<Longrightarrow> net_inv (act n (tab_onDiscovery msg t) (nt_sys s) s)"
    and "(c, BridgePost ch w) \<in> nt_posted s \<Longrightarrow> t_pairChannel t = Some ch \<Longrightarrow>
      net_inv (act n (tab_onPairMessage w t) (nt_sys s) s)"
    and "nt_writer s = Some (n, u) \<Longrightarrow> (p, env) \<in> set (sw_out u) \<Longrightarrow>
      net_inv (act n (tab_onWriterMessage (envelope_wire env) t) (nt_sys s) s)"
proof -
  have ok: "tab_ok (nt_ghost s) n t" by (rule net_inv_tab [OF assms])
  show "net_inv (act n r (nt_sys s) s)" if "tab_own_event t r"
  proof (rule net_local_inv [OF assms _ own_ok [OF that ok]])
    show "local_event t r"
      using that by cases (simp_all add: ev_writer_error ev_timer ev_finally)
  qed
  show "net_inv (act n (tab_onDiscovery msg t) (nt_sys s) s)" if post: "(c, Discover msg) \<in> nt_posted s"
  proof -
    obtain m where "effect_ok (nt_ghost s) m c (Discover msg)" using posted_ok [OF assms(1) post] by blast
    then have "effect_ok (nt_ghost s) n c (Discover msg)" by (cases msg) simp_all
    from net_local_inv [OF assms ev_discovery discovery_ok [OF ok this]] show ?thesis .
  qed
  show "net_inv (act n (tab_onPairMessage w t) (nt_sys s) s)"
    if post: "(c, BridgePost ch w) \<in> nt_posted s" and "t_pairChannel t = Some ch"
  proof -
    have "channel_of (nt_ghost s) (t_clientId t) ch" using ok that(2) by (simp add: tab_ok_def)
    moreover obtain c' where "channel_of (nt_ghost s) c' ch" "genuine_wire (nt_ghost s) c' w"
      using posted_ok [OF assms(1) post] by auto
    ultimately have "genuine_wire (nt_ghost s) (t_clientId t) w" using channel_of_unique by blast
    from net_local_inv [OF assms ev_pair pair_ok [OF ok this]] show ?thesis .
  qed
  show "net_inv (act n (tab_onWriterMessage (envelope_wire env) t) (nt_sys s) s)"
    if "nt_writer s = Some (n, u)" "(p, env) \<in> set (sw_out u)"
  proof -
    have "answered (nt_ghost s) n env"
      using net_worker_ok [OF assms(1) that(1)] that(2) by (auto simp: worker_ok_def)
    from net_local_inv [OF assms ev_writer writer_ok [OF ok this]] show ?thesis .
  qed
qed

lemma net_lock_inv:
  assumes "net_inv s" and "sys_tab (nt_sys s) n = Some t"
  shows "sys_held (nt_sys s) = None \<Longrightarrow> sys_queue (nt_sys s) = n # q \<Longrightarrow> length newId = gh_idLength (nt_ghost s) \<Longrightarrow>
      net_inv (act n (tab_grant newId t) ((nt_sys s)\<lparr>sys_held := Some n, sys_queue := q\<rparr>) s)"
    and "sys_held (nt_sys s) = None \<Longrightarrow> sys_queue (nt_sys s) = n # q \<Longrightarrow> length newId = gh_idLength (nt_ghost s) \<Longrightarrow>
      net_inv (act n (tab_grant_throws newId t) ((nt_sys s)\<lparr>sys_held := Some n, sys_queue := q\<rparr>) s)"
    and "n \<in> set (sys_queue (nt_sys s)) \<Longrightarrow>
      net_inv (act n (tab_lockRejected t) ((nt_sys s)\<lparr>sys_queue := remove1 n (sys_queue (nt_sys s))\<rparr>) s)"
  using net_event_inv [OF assms] grant_ok lock_events_ok net_inv_tab [OF assms] assms
  by (simp_all add: net_inv_def grant_step_inv grant_throws_step_inv refuse_step_inv)

lemma net_step_inv: "net_step s s' \<Longrightarrow> net_inv s \<Longrightarrow> net_inv s'"
  by (induction rule: net_step.cases)
    (simp_all add: net_open_inv net_call_inv net_hang_up_inv net_tab_inv net_bridge_inv net_later_inv
      net_receive_inv net_open_done_inv net_lock_inv net_unload_inv)

lemma net_start_inv: "net_inv (net_start len rows)"
  by (simp add: net_start_def net_inv_def rest_ok_def sys_inv_def client_ok_def wc_new_def rows_after_def)

interpretation tabs: inductive_invariant net_init net_step net_inv
proof (unfold_locales, goal_cases)
  case (1 s)
  then show ?case by (auto simp: net_init_def net_start_inv)
next
  case (2 s s')
  then show ?case using net_step_inv by blast
qed

text \<open>The history is only ever extended.\<close>

lemma act_ghost: "nt_ghost (act n r sy s) = nt_ghost s"
proof -
  have "nt_ghost (fold (net_effect n c) effs u) = nt_ghost u" for c effs u
    by (induction effs arbitrary: u) simp_all
  then show ?thesis by (simp add: act_def)
qed

definition history_grows :: "ghost \<Rightarrow> ghost \<Rightarrow> bool" where
  "history_grows g g' \<longleftrightarrow> gh_initial g' = gh_initial g \<and> prefix (gh_log g) (gh_log g')"

lemma net_step_history: "net_step s s' \<Longrightarrow> history_grows (nt_ghost s) (nt_ghost s')"
proof (induction rule: net_step.cases)
  case (net_step_bridge s n t c' ch w c b)
  then show ?case by (auto simp: act_ghost history_grows_def issue_def split: option.splits)
next
  case (net_step_receive s n w x q)
  then show ?case
    by (auto simp: history_grows_def net_receive_def log_request_def Let_def split: option.splits)
next
  case (net_step_open_done s n w j err)
  then show ?case
    by (auto simp: history_grows_def net_open_done_def log_request_def Let_def split: option.splits prod.splits)
qed (auto simp: act_ghost history_grows_def net_open_def net_call_def net_hang_up_def net_unload_def
    with_sent_def Let_def split: prod.splits)

section \<open>Properties\<close>

text \<open>
  C6: all tabs share one database. In every reachable state of the origin, with any number of tabs, any
  interleaving, loss, delay, repetition and reordering of messages, writer crashes, leader changes, closes
  and unloads: the rows in the file are those of one database that executed the logged requests one after
  the other, each of them sent by a tab; the log is only ever extended; and a promise that settled in a
  tab settled with what that database returned when it executed the very request the promise stands
  for, or with an error of the transport or of the opening of the file, which leaves open whether it
  was executed; a close is confirmed without the database.
\<close>

theorem tabs_share_one_database:
  assumes "reach net_init net_step s"
  shows "nt_table s = rows_after (gh_initial (nt_ghost s)) (gh_log (nt_ghost s)) \<and>
    (\<forall>(c, i, req) \<in> set (gh_log (nt_ghost s)). gh_sent (nt_ghost s) (c, i) = Some req) \<and>
    (\<forall>s'. net_step s s' \<longrightarrow> history_grows (nt_ghost s) (nt_ghost s')) \<and>
    (\<forall>c i v. wc_settled (nt_client s c) i = Some v \<longrightarrow>
      (\<exists>req. gh_sent (nt_ghost s) (c, i) = Some req \<and>
        ((\<exists>before after. gh_log (nt_ghost s) = before @ (c, i, req) # after \<and>
            v = answer req (rows_after (gh_initial (nt_ghost s)) before)) \<or>
         no_answer v \<or> req = RClose \<and> v = Resolved SClose)))"
proof -
  have rest: "rest_ok s" using tabs.reach_inv [OF assms] by (simp add: net_inv_def)
  then have "genuine (nt_ghost s) c i v" if "wc_settled (nt_client s c) i = Some v" for c i v
    using that by (simp add: rest_ok_def client_ok_def)
  then show ?thesis
    using rest net_step_history [of s] unfolding rest_ok_def genuine_def executed_def by blast
qed

text \<open>A sample run, as a list of moves; a move that is not possible does nothing.\<close>

datatype net_move =
    Opens nat string
  | Granted nat string
  | Hears nat string leader_message
  | Calls nat worker_request
  | Forwards nat string string wire
  | Works
  | Returns nat server_envelope
  | Learns nat string string wire

definition with_tab :: "nat \<Rightarrow> (tab \<Rightarrow> net \<Rightarrow> net) \<Rightarrow> net \<Rightarrow> net" where
  "with_tab n f s = (case sys_tab (nt_sys s) n of None \<Rightarrow> s | Some t \<Rightarrow> f t s)"

fun net_do :: "net_move \<Rightarrow> net \<Rightarrow> net" where
  "net_do (Opens n c) s =
     (if n \<in> gh_tabs (nt_ghost s) \<or> c \<in> gh_clients (nt_ghost s) then s else net_open n c s)"
| "net_do (Granted n newId) s = with_tab n (\<lambda>t s.
     if sys_held (nt_sys s) = None \<and> sys_queue (nt_sys s) \<noteq> [] \<and> hd (sys_queue (nt_sys s)) = n \<and>
        length newId = gh_idLength (nt_ghost s)
     then act n (tab_grant newId t) ((nt_sys s)\<lparr>sys_held := Some n, sys_queue := tl (sys_queue (nt_sys s))\<rparr>) s
     else s) s"
| "net_do (Hears n c msg) s = with_tab n (\<lambda>t s.
     if (c, Discover msg) \<in> nt_posted s then act n (tab_onDiscovery msg t) (nt_sys s) s else s) s"
| "net_do (Calls n req) s = with_tab n (\<lambda>t s. net_call n t req s) s"
| "net_do (Forwards n c ch w) s = with_tab n (\<lambda>t s.
     if (c, PairPost ch w) \<in> nt_posted s \<and> map_option b_channel (map_of (mx_bridges (t_mux t)) c) = Some ch
     then act n (tab_onBridgeMessage c w t) (nt_sys s) (s\<lparr>nt_ghost := issue n t c w (nt_ghost s)\<rparr>) else s) s"
| "net_do Works s =
     (case nt_writer s of None \<Rightarrow> s | Some (n, w) \<Rightarrow>
        if nt_inbox s = [] then s else net_receive n w (hd (nt_inbox s)) (tl (nt_inbox s)) s)"
| "net_do (Returns n env) s = with_tab n (\<lambda>t s.
     case nt_writer s of None \<Rightarrow> s | Some (m, w) \<Rightarrow>
       if m = n \<and> (0, env) \<in> set (sw_out w) then act n (tab_onWriterMessage (envelope_wire env) t) (nt_sys s) s
       else s) s"
| "net_do (Learns n c ch w) s = with_tab n (\<lambda>t s.
     if (c, BridgePost ch w) \<in> nt_posted s \<and> t_pairChannel t = Some ch
     then act n (tab_onPairMessage w t) (nt_sys s) s else s) s"

text \<open>Tab 0 leads, tab 1 pairs with it and sends a ping, which goes through tab 0 to the worker and back.\<close>

definition sample_moves :: "net_move list" where
  "sample_moves =
     [Opens 0 ''a'', Granted 0 ''L'', Opens 1 ''b'', Hears 1 ''a'' (LeaderElected ''L''),
      Hears 0 ''b'' (PairRequest ''L'' ''b'' ''opfs-pair-L-b''), Calls 1 RPing,
      Forwards 0 ''b'' ''opfs-pair-L-b'' (request_wire 1 RPing), Works, Returns 0 (Response 1 SPing),
      Learns 1 ''a'' ''opfs-pair-L-b'' \<lparr>w_id = Some 1, w_payload = Reply SPing\<rparr>]"

lemma net_do_step: "net_do m s = s \<or> net_step s (net_do m s)"
proof (cases m)
  case (Granted n newId)
  then show ?thesis
    using net_step_grant [of s n "tl (sys_queue (nt_sys s))" _ newId]
    by (auto simp: with_tab_def neq_Nil_conv split: option.splits)
next
  case (Forwards n c ch w)
  then show ?thesis
    by (auto simp: with_tab_def split: option.splits intro: net_step_bridge)
next
  case (Returns n env)
  then show ?thesis
    by (auto simp: with_tab_def split: option.splits intro: net_step_writer)
next
  case Works
  then show ?thesis
    using net_step_receive [of s _ _ "hd (nt_inbox s)" "tl (nt_inbox s)"]
    by (auto simp: neq_Nil_conv split: option.splits)
qed (auto simp: with_tab_def split: option.splits intro: net_step.intros)

lemma net_do_reach: "reach net_init net_step (fold net_do moves (net_start len rows))"
proof (induction moves rule: rev_induct)
  case Nil
  then show ?case by (auto simp: net_init_def intro: reach_init)
next
  case (snoc m moves)
  then show ?case
    using net_do_step [of m "fold net_do moves (net_start len rows)"] by (auto intro: reach_step)
qed

theorem tabs_share_one_database_witness:
  "\<exists>s. reach net_init net_step s \<and> wc_settled (nt_client s ''b'') 1 = Some (Resolved SPing) \<and>
     gh_log (nt_ghost s) = [(''b'', 1, RPing)] \<and>
     (\<forall>(c, i, req) \<in> set (gh_log (nt_ghost s)). gh_sent (nt_ghost s) (c, i) = Some req)"
proof -
  let ?s = "fold net_do sample_moves (net_start 1 [])"
  have "wc_settled (nt_client ?s ''b'') 1 = Some (Resolved SPing) \<and> gh_log (nt_ghost ?s) = [(''b'', 1, RPing)]"
    by code_simp
  with tabs_share_one_database [OF net_do_reach, of sample_moves 1 "[]"] net_do_reach show ?thesis by blast
qed

end
