(* ===== verification/Spec2Isabelle.thy ===== *)
theory Spec2Isabelle
  imports Base64url Create_Repo Notes_Store Leader_System Share_Flow Ceremony Idle_Lock
    Service_Worker Markdown Auth_Screen Repo_Hook Notes_View
    Share_Dialogs Note_Card Live_Update Worker_Ports Worker_Types Use_Notes Page_Shell
    Tabs_Database
begin

text \<open>
  A verification development for opfs-webauthn, a local-first notes application: notes are encrypted in
  the browser under a key that a passkey unlocks, stored in SQLite on the origin private file system,
  shown consistently in all tabs, and shared with another user by a spoken code.

  \<^bold>\<open>The program and its theories.\<close> Paths are relative to the repository.

  \<^item> Foundations. \<open>Prelude\<close>: byte strings, UTF-16 strings, results, numerals, the locales
    \<open>inductive_invariant\<close>, \<open>event_invariant\<close> (what every event keeps, every run keeps) and \<open>codec\<close>, and the
    \<open>ledger\<close> of handles that are made and released. \<open>Js_Text\<close>, \<open>Utf8\<close>, \<open>Json\<close>: the functions of the
    language and the platform that the program calls, written out from their definitions.
  \<^item> Codecs. \<open>Base64url\<close> (\<open>packages/auth/src/codec.ts\<close>), \<open>Row_Id\<close> (\<open>packages/storage/src/id.ts\<close> over
    \<open>crates/repo/src/id.rs\<close>, on 32-bit words), \<open>Share_Wire\<close> (\<open>packages/share-client/src/code.ts\<close>,
    \<open>mint-response.ts\<close>, \<open>blob.ts\<close>, \<open>errors.ts\<close>), \<open>Share_Note\<close> (\<open>apps/web/src/share/note-codec.ts\<close>).
  \<^item> Storage, in \<open>packages/storage/src\<close>. \<open>Note_Table\<close>: \<open>note-repository.ts\<close> over the rows of the table.
    \<open>Migrations\<close>: \<open>migrations.ts\<close>, \<open>database.ts\<close>. \<open>Rpc\<close>: \<open>rpc.ts\<close>. \<open>Worker\<close>: \<open>worker-handlers.ts\<close>,
    \<open>connection.ts\<close> and the two worker entries. \<open>Repo\<close>: \<open>row-codec.ts\<close> and \<open>repo.ts\<close>, which encrypt, call
    through the RPC into the worker and decrypt. \<open>Worker_Types\<close>: the type of every answer. \<open>Create_Repo\<close>:
    the ladder of transports in \<open>index.ts\<close>. \<open>Worker_Ports\<close>: the adapters of its tiers behind \<open>WorkerLike\<close>.
    \<open>Leader_Bridge\<close>, \<open>Leader_Transport\<close>, \<open>Leader_System\<close>: \<open>leader.ts\<close>, from one bridge, through one tab's
    transport, to all tabs over the browser's lock. \<open>Tabs_Database\<close>: clients, transports, lock and worker as one
    system.
  \<^item> Notes on screen. \<open>Notes_Store\<close>: \<open>packages/state/src/notes-store.ts\<close>. \<open>Live_Update\<close>: the channel of
    \<open>multi-tab.ts\<close> between the worker and the stores of all tabs. \<open>Use_Notes\<close>, \<open>Repo_Hook\<close>, \<open>Notes_View\<close>, \<open>Markdown\<close>,
    \<open>Note_Card\<close>: \<open>apps/web/src/notes\<close>.
  \<^item> The vault. \<open>Credential_Store\<close> and \<open>Ceremony\<close>: \<open>packages/auth/src\<close>. \<open>Auth_Screen\<close> and \<open>Idle_Lock\<close>:
    \<open>apps/web/src/app\<close>.
  \<^item> Sharing. \<open>Share_Backend\<close>: the handlers and the store of \<open>apps/share-backend\<close>. \<open>Share_Server\<close>: its
    configuration, origin check and router. \<open>Share_Client\<close>: \<open>transport.ts\<close> and
    \<open>share.ts\<close>. \<open>Share_Flow\<close>: client and server together. \<open>Share_Dialogs\<close>: \<open>apps/web/src/share\<close>.
  \<^item> \<open>Service_Worker\<close>: \<open>apps/web/public/sw.js\<close> and the build step that lists what it caches. \<open>Page_Shell\<close>: its
    registration, and the dialog element.

  \<^bold>\<open>How code becomes definitions.\<close> A definition keeps the name of the function it models. State is a record
  with the fields of the class or closure; a handler is a function on it that also returns its effects. A
  promise that is awaited is an event with its result, and events come in any order, so every
  interleaving of asynchronous code is covered. A call that may throw returns \<open>Inl\<close> with the error. Clocks,
  random bytes, failing file system calls and failing SQL statements are arguments. Third-party code is a
  parameter with its documented law as a named hypothesis: AES-GCM (\<open>aead_correct\<close>, \<open>aead_wrap\<close>), the
  passkey's PRF (\<open>prf_authenticator\<close>), key agreement and sealing (\<open>share_crypto\<close>), BLAKE3 and base32
  (\<open>commitment_crates\<close>), the network, cache storage's network side, the Markdown parser. Witnesses
  instantiate them with concrete functions.

  \<^bold>\<open>What the lemmas show.\<close>

  \<^item> From keyboard to disk and back: \<open>Repo.upsert_get_note\<close> saves and reads a note through every layer;
    \<open>Note_Table.note_writes_refine\<close> refines the table to a finite map; \<open>Note_Table.list_pages_exact\<close> and
    \<open>Notes_Store.loadAllNotes_complete\<close> make paging exact; \<open>Live_Update.tabs_show_the_database\<close> joins the
    worker, the channel, paging and the reload guard of the stores: every tab settles on the notes of
    the present table, or on the error that ended its newest reload.
  \<^item> The wire between page and worker is type sound: \<open>Worker_Types.wire_type_soundness\<close> justifies the cast in
    \<open>send\<close>; on every transport each event reaches the client once, \<open>Worker_Ports.transports_serve_client\<close>.
  \<^item> Nothing is lost between page and worker: \<open>Rpc.rpc_settles_once\<close>, \<open>Worker.worker_answers_once\<close>,
    \<open>Leader_Bridge.bridges_demultiplex\<close>, \<open>Leader_Transport.transport_keeps_requests\<close>.
  \<^item> All tabs share one database: \<open>Tabs_Database.tabs_share_one_database\<close> joins the client, the transport of every
    tab, the lock manager and the worker, and refines them to one database that executes requests in order,
    over channels that may lose, delay, repeat and reorder.
  \<^item> One writer: \<open>Leader_System.single_writer\<close> over all tabs, messages, crashes and unloads, and
    \<open>Leader_System.leader_handover\<close>.
  \<^item> The vault: \<open>Ceremony.enroll_then_unlock\<close>, \<open>Credential_Store.vault_file_atomic\<close>,
    \<open>Auth_Screen.auth_vaults_freed_once\<close>, \<open>Auth_Screen.auth_screen_tracks_disk\<close>, \<open>Idle_Lock.idle_lock_shared\<close>.
  \<^item> Sharing: \<open>Share_Client.sender_checks_commitment\<close> against any relay, \<open>Share_Flow.share_end_to_end\<close>,
    \<open>Share_Dialogs.receive_dialog_sessions\<close>; the server hands out a blob once
    (\<open>Share_Server.blob_delivered_once\<close>) and limits minting (\<open>Share_Server.mint_limit\<close>).
  \<^item> The editor: \<open>Notes_View.editor_saves_what_is_shown\<close>; resources: \<open>Repo_Hook.repos_closed\<close>; the
    view: \<open>Use_Notes.use_notes_shows_its_repository\<close>.

  Interfaces are locales, interpreted on the model: \<open>codec\<close> on the codecs, \<open>inductive_invariant\<close> and
  \<open>event_invariant\<close> on every state machine, the paged source that the store reads on the repository's
  pages, the memoised function on the preview cache, the transport under the RPC client on all four adapters.

  \<^bold>\<open>Bounds and fuel.\<close> \<open>JSON_parse\<close> gives its parser \<open>2 n + 1\<close> steps for a text of length \<open>n\<close>, and
  \<open>json_value_enough\<close> shows that more never changes the answer. \<open>load_pages\<close> recurses on the program's own
  limit \<open>MAX_PAGES\<close>. Polling runs over the list of its turns, and \<open>Share_Client.polling_ends\<close> bounds their
  number. All other recursions are structural or have a proved measure. Integers that the program keeps in
  JavaScript numbers are exact in the safe range, which is named where it matters; Rust and \<open>DataView\<close>
  integers wrap.

  \<^bold>\<open>What the model showed.\<close> A few places where the code does not do what it means to are stated as lemmas
  beside the theory they belong to: a retry that can overwrite a vault (\<open>Auth_Screen.retry_overwrites_vault\<close>),
  lists that stay stale without a broadcast channel (\<open>Live_Update.no_channel_no_reload\<close>), requests that are
  rejected and later replayed (\<open>Leader_Transport.rejected_requests_are_replayed\<close>) or stranded after a failed
  promotion (\<open>Leader_Transport.promotion_failure_strands_requests\<close>), a \<open>HEAD\<close> request that uses up a shared
  note (\<open>Share_Server.head_burns_blob\<close>), a vault file that makes
  reading throw (\<open>Credential_Store.null_file_throws\<close>), an excerpt that ends in half a character
  (\<open>Note_Card.excerpt_splits_pair\<close>), and others.

  \<^bold>\<open>Not modelled.\<close> Markup, styles, message texts and focus handling, which have no logic of their own; message
  catalogues, design tokens, build and deployment files; the ciphers (\<open>crates/crypto\<close>) and the wasm bindings,
  which are wrappers over third-party code or generated; the process start-up of the backend beyond its
  configuration; the CBOR codec of \<open>crates/share-protocol\<close>, which neither side of the wire uses. SQLite, its
  OPFS pool, React, axum, the browser's locks, workers and channels appear only through the behaviour they
  document.
\<close>

end
